(* ===== verification/Prelude.thy ===== *)
theory Prelude
  imports Main "HOL-Library.Word" "HOL-Library.AList" "HOL-Library.List_Lexorder"
    "HOL-Library.Char_ord"
begin

text \<open>
  The prelude of the development: the types and the pieces of Rust's standard library that
  every other theory uses.  A Rust \<open>String\<close> is its sequence of UTF-8 bytes, so it is
  modelled by \<open>string\<close>, whose \<open>char\<close> is one byte, and \<open>len()\<close> is \<open>length\<close>.  An \<open>i64\<close>
  is a \<open>64 word\<close> read with \<open>sint\<close>; \<open>usize\<close> and \<open>u64\<close> values are \<open>nat\<close>, with the bound
  written out where they are parsed.  The theory holds ASCII case folding, the decimal
  printing and parsing of integers (\<open>to_string\<close>, \<open>str::parse\<close>), checked arithmetic, and
  the facts about them; the collections \<open>bytes_simps\<close> and \<open>int_simps\<close> gather the
  facts that the component proofs hand to the simplifier.
\<close>

named_theorems bytes_simps \<open>facts about bytes, decimal digits and line ends\<close>
named_theorems int_simps \<open>facts about i64 values and checked arithmetic\<close>

text \<open>Map lookups stay lookups in the proofs, rather than membership of the list.\<close>

declare map_of_eq_Some_iff [simp del] Some_eq_map_of_iff [simp del]

type_synonym i64 = "64 word"

section \<open>Bytes and ASCII case\<close>

abbreviation CR :: char where "CR \<equiv> CHR 0x0D"
abbreviation LF :: char where "LF \<equiv> CHR 0x0A"
abbreviation crlf :: string where "crlf \<equiv> [CR, LF]"

definition ascii_upper :: "char \<Rightarrow> char" where
  "ascii_upper c =
     (if CHR ''a'' \<le> c \<and> c \<le> CHR ''z'' then char_of (of_char c - 32 :: nat) else c)"

definition ascii_lower :: "char \<Rightarrow> char" where
  "ascii_lower c =
     (if CHR ''A'' \<le> c \<and> c \<le> CHR ''Z'' then char_of (of_char c + 32 :: nat) else c)"

definition to_ascii_uppercase :: "string \<Rightarrow> string" where
  "to_ascii_uppercase s = map ascii_upper s"

definition to_ascii_lowercase :: "string \<Rightarrow> string" where
  "to_ascii_lowercase s = map ascii_lower s"

definition eq_ignore_ascii_case :: "string \<Rightarrow> string \<Rightarrow> bool" where
  "eq_ignore_ascii_case s t \<longleftrightarrow> to_ascii_lowercase s = to_ascii_lowercase t"

text \<open>\<open>str::strip_prefix\<close> for a one-character prefix.\<close>

fun strip_prefix_char :: "char \<Rightarrow> string \<Rightarrow> string option" where
  "strip_prefix_char c [] = None"
| "strip_prefix_char c (d # s) = (if d = c then Some s else None)"

section \<open>Decimal numbers\<close>

definition digit_char :: "nat \<Rightarrow> char" where
  "digit_char d = char_of (48 + d)"

fun show_nat :: "nat \<Rightarrow> string" where
  "show_nat n = (if n < 10 then [digit_char n] else show_nat (n div 10) @ [digit_char (n mod 10)])"

declare show_nat.simps [simp del]

definition show_int :: "int \<Rightarrow> string" where
  "show_int i = (if i < 0 then CHR ''-'' # show_nat (nat (- i)) else show_nat (nat i))"

definition show_i64 :: "i64 \<Rightarrow> string" where
  "show_i64 a = show_int (sint a)"

definition is_digit :: "char \<Rightarrow> bool" where
  "is_digit c \<longleftrightarrow> CHR ''0'' \<le> c \<and> c \<le> CHR ''9''"

definition digit_val :: "char \<Rightarrow> nat" where
  "digit_val c = of_char c - 48"

fun parse_digits :: "nat \<Rightarrow> string \<Rightarrow> nat option" where
  "parse_digits acc [] = Some acc"
| "parse_digits acc (c # s) =
     (if is_digit c then parse_digits (10 * acc + digit_val c) s else None)"

text \<open>
  \<open><u64>::from_str\<close> (and \<open><usize>::from_str\<close> on a 64-bit target): an optional plus sign and
  at least one digit; a minus sign is an invalid digit of an unsigned number, and a value
  that does not fit is an error.
\<close>

definition in_u64 :: "nat \<Rightarrow> nat option" where
  "in_u64 n = (if n < 2 ^ 64 then Some n else None)"

definition parse_u64 :: "string \<Rightarrow> nat option" where
  "parse_u64 s =
     (case s of
        [] \<Rightarrow> None
      | c # r \<Rightarrow>
          (if c = CHR ''+'' then (if r = [] then None else Option.bind (parse_digits 0 r) in_u64)
           else Option.bind (parse_digits 0 s) in_u64))"

section \<open>The type i64\<close>

definition in_i64 :: "int \<Rightarrow> bool" where
  "in_i64 i \<longleftrightarrow> - (2 ^ 63) \<le> i \<and> i < 2 ^ 63"

definition i64_checked :: "int \<Rightarrow> i64 option" where
  "i64_checked i = (if in_i64 i then Some (word_of_int i) else None)"

definition checked_add :: "i64 \<Rightarrow> i64 \<Rightarrow> i64 option" where
  "checked_add a b = i64_checked (sint a + sint b)"

definition checked_neg :: "i64 \<Rightarrow> i64 option" where
  "checked_neg a = i64_checked (- sint a)"

definition parse_i64 :: "string \<Rightarrow> i64 option" where
  "parse_i64 s =
     (case s of
        [] \<Rightarrow> None
      | c # r \<Rightarrow>
          (if c = CHR ''+'' then
             (if r = [] then None
              else Option.bind (parse_digits 0 r) (\<lambda>n. i64_checked (int n)))
           else if c = CHR ''-'' then
             (if r = [] then None
              else Option.bind (parse_digits 0 r) (\<lambda>n. i64_checked (- int n)))
           else Option.bind (parse_digits 0 s) (\<lambda>n. i64_checked (int n))))"

section \<open>Facts about decimal numbers\<close>

lemma char_less_eq_of_char: "c \<le> d \<longleftrightarrow> (of_char c :: nat) \<le> of_char d"
  by (simp add: less_eq_char_def)

lemma of_digit_char [simp]: "d < 10 \<Longrightarrow> (of_char (digit_char d) :: nat) = 48 + d"
  by (simp add: digit_char_def of_char_of)

lemma is_digit_digit_char [simp]: "d < 10 \<Longrightarrow> is_digit (digit_char d)"
  by (simp add: is_digit_def char_less_eq_of_char)

lemma digit_val_digit_char [simp]: "d < 10 \<Longrightarrow> digit_val (digit_char d) = d"
  by (simp add: digit_val_def)

lemma is_digit_iff: "is_digit c \<longleftrightarrow> 48 \<le> (of_char c :: nat) \<and> of_char c \<le> (57 :: nat)"
  by (simp add: is_digit_def char_less_eq_of_char)

lemma digit_val_less: "is_digit c \<Longrightarrow> digit_val c < 10"
  by (auto simp: is_digit_iff digit_val_def)

lemma digit_char_val: "is_digit c \<Longrightarrow> digit_char (digit_val c) = c"
  by (simp add: is_digit_iff digit_val_def digit_char_def)

lemma is_digit_0 [simp]: "is_digit CHR ''0''"
  by (simp add: is_digit_iff)

lemma not_digit_simps [simp]:
  "\<not> is_digit CR" "\<not> is_digit LF" "\<not> is_digit CHR ''-''" "\<not> is_digit CHR ''+''"
  "\<not> is_digit CHR ''.''" "\<not> is_digit CHR ''e''" "\<not> is_digit CHR ''E''"
  "\<not> is_digit CHR '' ''" "\<not> is_digit CHR ''*''" "\<not> is_digit CHR ''$''"
  by (simp_all add: is_digit_iff)

lemma show_nat_digits: "\<forall>c \<in> set (show_nat n). is_digit c"
proof (induction n rule: show_nat.induct)
  case (1 n)
  then show ?case by (cases "n < 10") (simp_all add: show_nat.simps [of n])
qed

lemma show_nat_nonempty [simp]: "show_nat n \<noteq> []"
  by (subst show_nat.simps) simp

lemma parse_digits_append:
  "parse_digits acc (s @ t) = Option.bind (parse_digits acc s) (\<lambda>a. parse_digits a t)"
  by (induction s arbitrary: acc) auto

lemma parse_digits_show_nat [simp]: "parse_digits 0 (show_nat n) = Some n"
proof (induction n rule: show_nat.induct)
  case (1 n)
  then show ?case
    by (cases "n < 10") (simp_all add: show_nat.simps [of n] parse_digits_append)
qed

lemma parse_digits_Some_digits: "parse_digits acc s = Some n \<Longrightarrow> \<forall>c \<in> set s. is_digit c"
  by (induction s arbitrary: acc) (auto split: if_splits)

lemma show_nat_hd_digit: "is_digit (hd (show_nat n))"
  using show_nat_digits [of n] by simp

lemma show_nat_Cons: obtains c r where "show_nat n = c # r" "is_digit c"
  using show_nat_hd_digit [of n] by (cases "show_nat n") auto

lemma no_crlf_show_nat [bytes_simps]: "CR \<notin> set (show_nat n)" "LF \<notin> set (show_nat n)"
  using show_nat_digits [of n] not_digit_simps by blast+

lemma no_crlf_show_int [bytes_simps]: "CR \<notin> set (show_int i)" "LF \<notin> set (show_int i)"
  by (simp_all add: show_int_def bytes_simps)

lemma parse_u64_show_nat: "n < 2 ^ 64 \<Longrightarrow> parse_u64 (show_nat n) = Some n"
proof -
  assume n: "n < 2 ^ 64"
  obtain c r where cr: "show_nat n = c # r" "is_digit c" by (rule show_nat_Cons)
  have "parse_digits 0 (c # r) = Some n" using parse_digits_show_nat [of n] by (simp only: cr)
  moreover have "c \<noteq> CHR ''+''" using cr by auto
  ultimately show ?thesis
    using n by (simp add: parse_u64_def cr(1) in_u64_def del: parse_digits.simps)
qed

lemma parse_u64_bound: "parse_u64 s = Some n \<Longrightarrow> n < 2 ^ 64"
  by (auto simp: parse_u64_def in_u64_def bind_eq_Some_conv split: list.splits if_splits)

lemma sint_word_of_int_i64 [int_simps]: "in_i64 i \<Longrightarrow> sint (word_of_int i :: i64) = i"
  by (simp add: in_i64_def int_word_sint)

lemma in_i64_sint [int_simps, simp]: "in_i64 (sint (a :: i64))"
  using sint_range_size [of a] by (simp add: in_i64_def word_size)

lemma sint_plus_i64 [int_simps]:
  "in_i64 (sint a + sint b) \<Longrightarrow> sint (a + b :: i64) = sint a + sint b"
  using sint_word_of_int_i64 [of "sint a + sint b"] by simp

lemma sint_of_nat_i64 [int_simps]: "n < 2 ^ 63 \<Longrightarrow> sint (of_nat n :: i64) = int n"
  using sint_word_of_int_i64 [of "int n"] by (simp add: in_i64_def)

lemma unat_i64 [int_simps]: "0 \<le> sint a \<Longrightarrow> unat (a :: i64) = nat (sint a)"
proof -
  assume "0 \<le> sint a"
  then have "uint a = sint a"
    using in_i64_sint [of a] by (simp add: uint_sint take_bit_int_eq_self in_i64_def)
  then show ?thesis by (simp add: unat_eq_nat_uint)
qed

lemma i64_checked_Some_iff [int_simps]:
  "i64_checked i = Some a \<longleftrightarrow> in_i64 i \<and> sint a = i"
  by (auto simp: i64_checked_def int_simps)

lemma i64_checked_sint [int_simps, simp]: "i64_checked (sint a) = Some a"
  by (simp add: i64_checked_Some_iff)

lemma checked_add_Some_iff [int_simps]:
  "checked_add a b = Some c \<longleftrightarrow> in_i64 (sint a + sint b) \<and> sint c = sint a + sint b"
  by (simp add: checked_add_def int_simps)

lemma parse_i64_show_i64: "parse_i64 (show_i64 a) = Some a"
proof (cases "sint a < 0")
  case True
  then show ?thesis
    by (simp add: parse_i64_def show_i64_def show_int_def int_simps)
next
  case False
  obtain c r where cr: "show_nat (nat (sint a)) = c # r" "is_digit c" by (rule show_nat_Cons)
  have "parse_digits 0 (c # r) = Some (nat (sint a))"
    using parse_digits_show_nat [of "nat (sint a)"] by (simp only: cr)
  moreover have "c \<noteq> CHR ''+''" "c \<noteq> CHR ''-''" using cr by auto
  ultimately show ?thesis
    using False
    by (simp add: parse_i64_def show_i64_def show_int_def cr(1) int_simps del: parse_digits.simps)
qed

end
