(* ===== verification/F64.thy ===== *)
theory F64
  imports Prelude
begin

text \<open>
  Rust's \<open>f64\<close>, the score type of a sorted set: the IEEE 754 binary64 operations that the
  source uses, bit-exactly.  A value is its sign bit and the other 63 bits, the
  \<^emph>\<open>magnitude\<close>, which is the biased exponent followed by the fraction; IEEE orders the
  magnitudes of non-NaN values as integers.  A finite magnitude \<open>b\<close> stands for
  \<open>mag_units b\<close> multiples of the least subnormal \<open>2^-1074\<close>, so addition, decimal
  parsing and decimal printing are exact integer arithmetic followed by one rounding to
  nearest, ties to even (\<open>round_units\<close>).  The last section proves that printing and parsing
  round-trip for every value but NaN.
\<close>

named_theorems f64_simps \<open>facts about f64 comparison and rounding\<close>

datatype f64 = F64 (f64_neg: bool) (f64_bits: "63 word")

definition mag :: "f64 \<Rightarrow> nat" where
  "mag x = unat (f64_bits x)"

definition inf_mag :: nat where
  "inf_mag = 2047 * 2 ^ 52"

definition mk_f64 :: "bool \<Rightarrow> nat \<Rightarrow> f64" where
  "mk_f64 s b = F64 s (word_of_nat b)"

definition is_nan :: "f64 \<Rightarrow> bool" where
  "is_nan x \<longleftrightarrow> inf_mag < mag x"

definition is_infinite :: "f64 \<Rightarrow> bool" where
  "is_infinite x \<longleftrightarrow> mag x = inf_mag"

definition f64_nan :: f64 where
  "f64_nan = mk_f64 False (inf_mag + 2 ^ 51)"

definition f64_infinity :: f64 where
  "f64_infinity = mk_f64 False inf_mag"

definition f64_neg_infinity :: f64 where
  "f64_neg_infinity = mk_f64 True inf_mag"

definition f64_zero :: f64 where
  "f64_zero = mk_f64 False 0"

section \<open>Comparison\<close>

definition f64_key :: "f64 \<Rightarrow> int" where
  "f64_key x = (if f64_neg x then - int (mag x) else int (mag x))"

definition f64_lt :: "f64 \<Rightarrow> f64 \<Rightarrow> bool" where
  "f64_lt x y \<longleftrightarrow> \<not> is_nan x \<and> \<not> is_nan y \<and> f64_key x < f64_key y"

definition f64_le :: "f64 \<Rightarrow> f64 \<Rightarrow> bool" where
  "f64_le x y \<longleftrightarrow> \<not> is_nan x \<and> \<not> is_nan y \<and> f64_key x \<le> f64_key y"

definition f64_eq :: "f64 \<Rightarrow> f64 \<Rightarrow> bool" where
  "f64_eq x y \<longleftrightarrow> \<not> is_nan x \<and> \<not> is_nan y \<and> f64_key x = f64_key y"

section \<open>Rounding and addition\<close>

definition mag_units :: "nat \<Rightarrow> nat" where
  "mag_units b =
     (if b < 2 ^ 52 then b else (2 ^ 52 + b mod 2 ^ 52) * 2 ^ (b div 2 ^ 52 - 1))"

fun shift_for :: "nat \<Rightarrow> nat" where
  "shift_for n = (if n < 2 ^ 53 then 0 else Suc (shift_for (n div 2)))"

declare shift_for.simps [simp del]

text \<open>\<open>round_units p q\<close> is the magnitude nearest to \<open>p / q\<close> least subnormals.\<close>

definition round_units :: "nat \<Rightarrow> nat \<Rightarrow> nat" where
  "round_units p q =
     (let s = shift_for (p div q);
          d = q * 2 ^ s;
          m = p div d;
          r = p mod d;
          m' = (if d < 2 * r \<or> (2 * r = d \<and> odd m) then m + 1 else m)
      in min inf_mag (s * 2 ^ 52 + m'))"

definition signed_units :: "f64 \<Rightarrow> int" where
  "signed_units x = (if f64_neg x then - int (mag_units (mag x)) else int (mag_units (mag x)))"

definition f64_add :: "f64 \<Rightarrow> f64 \<Rightarrow> f64" where
  "f64_add x y =
     (if is_nan x \<or> is_nan y then f64_nan
      else if is_infinite x then
        (if is_infinite y \<and> f64_neg x \<noteq> f64_neg y then f64_nan else x)
      else if is_infinite y then y
      else let i = signed_units x + signed_units y in
        if i = 0 then mk_f64 (f64_neg x \<and> f64_neg y) 0
        else mk_f64 (i < 0) (round_units (nat \<bar>i\<bar>) 1))"

section \<open>Parsing: \<open><f64>::from_str\<close>\<close>

text \<open>The number of least subnormals in 1.\<close>

definition unit_den :: nat where
  "unit_den = 2 ^ 1074"

text \<open>\<open>dec_mag d e\<close> is the magnitude of the decimal number \<open>d * 10^e\<close>.\<close>

definition dec_mag :: "nat \<Rightarrow> int \<Rightarrow> nat" where
  "dec_mag d e =
     (if 0 \<le> e then round_units (d * 10 ^ nat e * unit_den) 1
      else round_units (d * unit_den) (10 ^ nat (- e)))"

definition parse_exponent :: "string \<Rightarrow> int option" where
  "parse_exponent s =
     (case s of
        [] \<Rightarrow> None
      | c # r \<Rightarrow>
          (if c = CHR ''-'' then
             (if r = [] then None else map_option (\<lambda>n. - int n) (parse_digits 0 r))
           else if c = CHR ''+'' then
             (if r = [] then None else map_option int (parse_digits 0 r))
           else map_option int (parse_digits 0 s)))"

text \<open>
  The grammar of an unsigned number: digits, at most one point with digits on at least one
  side of it, and an optional exponent.  The result is the digits' value and the exponent
  of its last digit.
\<close>

definition parse_number :: "string \<Rightarrow> (nat \<times> int) option" where
  "parse_number s =
     (let ip = takeWhile is_digit s;
          r = dropWhile is_digit s;
          (fp, r') = (case r of
             [] \<Rightarrow> ([], [])
           | c # t \<Rightarrow>
               (if c = CHR ''.'' then (takeWhile is_digit t, dropWhile is_digit t) else ([], r)))
      in if ip @ fp = [] then None
         else case parse_digits 0 (ip @ fp) of
             None \<Rightarrow> None
           | Some d \<Rightarrow>
               (case r' of
                  [] \<Rightarrow> Some (d, - int (length fp))
                | c # t \<Rightarrow>
                    (if c = CHR ''e'' \<or> c = CHR ''E''
                     then map_option (\<lambda>e. (d, e - int (length fp))) (parse_exponent t)
                     else None)))"

definition parse_inf_nan :: "bool \<Rightarrow> string \<Rightarrow> f64 option" where
  "parse_inf_nan s r =
     (let l = to_ascii_lowercase r in
      if l = ''inf'' \<or> l = ''infinity'' then Some (mk_f64 s inf_mag)
      else if l = ''nan'' then Some (mk_f64 s (inf_mag + 2 ^ 51))
      else None)"

definition parse_f64 :: "string \<Rightarrow> f64 option" where
  "parse_f64 s =
     (case s of
        [] \<Rightarrow> None
      | c # t \<Rightarrow>
          (let neg = (c = CHR ''-'');
               r = (if c = CHR ''-'' \<or> c = CHR ''+'' then t else s)
           in if r = [] then None
              else case parse_number r of
                  Some (d, e) \<Rightarrow> Some (mk_f64 neg (dec_mag d e))
                | None \<Rightarrow> parse_inf_nan neg r))"

section \<open>Printing: \<open>f64::to_string\<close>\<close>

text \<open>
  \<open>Display\<close> prints the shortest decimal that rounds back to the value, the nearest one
  (upwards in a tie) when there are two, and never an exponent.  \<open>scaled b j\<close> is the value
  of magnitude \<open>b\<close> divided by \<open>10^j\<close>, as numerator and denominator; \<open>shortest\<close> tries
  one more digit per unit of fuel.
\<close>

definition scaled :: "nat \<Rightarrow> int \<Rightarrow> nat \<times> nat" where
  "scaled b j =
     (if 0 \<le> j then (mag_units b, unit_den * 10 ^ nat j)
      else (mag_units b * 10 ^ nat (- j), unit_den))"

definition below_power :: "nat \<Rightarrow> int \<Rightarrow> bool" where
  "below_power b k \<longleftrightarrow> (case scaled b k of (p, q) \<Rightarrow> p < q)"

text \<open>The least \<open>k\<close> with the value below \<open>10^k\<close>; every finite value is within the range.\<close>

definition dec_point :: "nat \<Rightarrow> int" where
  "dec_point b =
     (case find (\<lambda>i. below_power b (int i - 330)) [0..<700] of
        Some i \<Rightarrow> int i - 330
      | None \<Rightarrow> 370)"

fun shortest :: "nat \<Rightarrow> nat \<Rightarrow> int \<Rightarrow> (nat \<times> int) option" where
  "shortest 0 b j = None"
| "shortest (Suc fuel) b j =
     (let (p, q) = scaled b j;
          c = p div q;
          r = p mod q;
          down = (dec_mag c j = b);
          up = (dec_mag (c + 1) j = b)
      in if down \<and> up then Some (if q \<le> 2 * r then c + 1 else c, j)
         else if down then Some (c, j)
         else if up then Some (c + 1, j)
         else shortest fuel b (j - 1))"

definition dec_string :: "nat \<Rightarrow> int \<Rightarrow> string" where
  "dec_string c j =
     (let s = show_nat c; p = int (length s) + j in
      if 0 \<le> j then s @ replicate (nat j) CHR ''0''
      else if p \<le> 0 then ''0.'' @ replicate (nat (- p)) CHR ''0'' @ s
      else take (nat p) s @ ''.'' @ drop (nat p) s)"

definition mag_string :: "nat \<Rightarrow> string" where
  "mag_string b =
     (if b = 0 then ''0''
      else case shortest 2000 b (dec_point b) of
          Some (c, j) \<Rightarrow> dec_string c j
        | None \<Rightarrow> [])"

definition f64_to_string :: "f64 \<Rightarrow> string" where
  "f64_to_string x =
     (if is_nan x then ''NaN''
      else (if f64_neg x then ''-'' else []) @
           (if is_infinite x then ''inf'' else mag_string (mag x)))"

section \<open>Facts about comparison\<close>

lemma mag_mk_f64 [simp]: "b < 2 ^ 63 \<Longrightarrow> mag (mk_f64 s b) = b"
  by (simp add: mag_def mk_f64_def unat_of_nat)

lemma f64_neg_mk_f64 [simp]: "f64_neg (mk_f64 s b) = s"
  by (simp add: mk_f64_def)

lemma mk_f64_mag [simp]: "mk_f64 (f64_neg x) (mag x) = x"
  by (simp add: mag_def mk_f64_def)

lemma inf_mag_less: "inf_mag < 2 ^ 63"
  by (simp add: inf_mag_def)

lemma f64_nan_is_nan [simp]: "is_nan f64_nan"
  by (simp add: is_nan_def f64_nan_def inf_mag_def)

lemma not_nan_constants [simp]:
  "\<not> is_nan f64_infinity" "\<not> is_nan f64_neg_infinity" "\<not> is_nan f64_zero"
  by (simp_all add: is_nan_def f64_infinity_def f64_neg_infinity_def f64_zero_def inf_mag_def)

lemma f64_le_lt [f64_simps]: "f64_le x y \<longleftrightarrow> f64_lt x y \<or> f64_eq x y"
  by (auto simp: f64_le_def f64_lt_def f64_eq_def)

lemma f64_lt_le [f64_simps]: "f64_lt x y \<longleftrightarrow> f64_le x y \<and> \<not> f64_le y x"
  by (auto simp: f64_le_def f64_lt_def)

lemma f64_key_bound: "f64_key x < 2 ^ 63"
proof -
  have "int (mag x) < 2 ^ 63"
    unfolding mag_def using uint_lt2p [of "f64_bits x"] by simp
  moreover have "- int (mag x) < 2 ^ 63" by (rule le_less_trans [of _ 0]) simp_all
  ultimately show ?thesis by (simp add: f64_key_def)
qed

section \<open>Facts about rounding\<close>

lemma shift_for_scaled: "2 ^ 52 \<le> m \<Longrightarrow> m < 2 ^ 53 \<Longrightarrow> shift_for (m * 2 ^ t) = t"
proof (induction t)
  case 0
  then show ?case by (simp add: shift_for.simps [of m])
next
  case (Suc t)
  have "2 ^ 53 \<le> m * 2 ^ Suc t"
    using mult_le_mono [OF Suc.prems(1), of "2 ^ 1" "2 ^ Suc t"] by simp
  then have "shift_for (m * 2 ^ Suc t) = Suc (shift_for (m * 2 ^ Suc t div 2))"
    by (subst shift_for.simps) simp
  also have "m * 2 ^ Suc t div 2 = m * 2 ^ t" by simp
  finally show ?case using Suc by simp
qed

lemma round_units_exact:
  assumes "b < inf_mag" and q: "0 < q"
  shows "round_units (mag_units b * q) q = b"
proof (cases "b < 2 ^ 52")
  case True
  then show ?thesis
    using assms by (simp add: round_units_def mag_units_def shift_for.simps [of b])
next
  case False
  define e where "e = b div 2 ^ 52"
  define m where "m = 2 ^ 52 + b mod 2 ^ 52"
  have e: "1 \<le> e" using False by (simp add: e_def Suc_le_eq div_greater_zero_iff)
  have m: "2 ^ 52 \<le> m" "m < 2 ^ 53" by (simp_all add: m_def)
  have u: "mag_units b = m * 2 ^ (e - 1)" using False by (simp add: mag_units_def e_def m_def)
  have s: "shift_for (mag_units b) = e - 1"
    using m by (simp add: u shift_for_scaled)
  have pq: "mag_units b * q = m * (q * 2 ^ (e - 1))" by (simp add: u)
  have "(e - 1) * 2 ^ 52 + m = b"
  proof -
    have "e * 2 ^ 52 + b mod 2 ^ 52 = b" by (simp add: e_def)
    then show ?thesis using e by (simp add: m_def diff_mult_distrib)
  qed
  moreover have "mag_units b * q div (q * 2 ^ (e - 1)) = m"
    "mag_units b * q mod (q * 2 ^ (e - 1)) = 0"
    using q by (simp_all only: pq) simp_all
  ultimately show ?thesis
    using assms q by (simp add: round_units_def s Let_def del: div_mult_mult2 mod_mult_mult2)
qed

lemma round_units_le: "round_units p q \<le> inf_mag"
  by (simp add: round_units_def Let_def)

lemma dec_mag_le: "dec_mag d e \<le> inf_mag"
  by (simp add: dec_mag_def round_units_le)

section \<open>Printing and parsing round-trip\<close>

lemma digits_span:
  assumes "\<forall>c \<in> set s. is_digit c"
  shows "takeWhile is_digit s = s" "dropWhile is_digit s = []"
    and "\<not> is_digit c \<Longrightarrow> takeWhile is_digit (s @ c # t) = s"
    and "\<not> is_digit c \<Longrightarrow> dropWhile is_digit (s @ c # t) = c # t"
  using assms by (auto simp: takeWhile_append2 dropWhile_append2 takeWhile_eq_all_conv)

lemma parse_digits_zeros_append [simp]:
  "parse_digits 0 (replicate n CHR ''0'' @ s) = parse_digits 0 s"
  by (induction n) (simp_all add: digit_val_def)

lemma parse_digits_zeros:
  "parse_digits acc (replicate n CHR ''0'') = Some (acc * 10 ^ n)"
  by (induction n arbitrary: acc) (simp_all add: digit_val_def mult.assoc)

lemma parse_number_integer:
  assumes "\<forall>c \<in> set s. is_digit c" "s \<noteq> []" "parse_digits 0 s = Some d"
  shows "parse_number s = Some (d, 0)"
  using assms(2,3) by (simp add: parse_number_def digits_span [OF assms(1)])

lemma parse_number_fraction:
  assumes "\<forall>c \<in> set ip. is_digit c" "\<forall>c \<in> set fp. is_digit c" "ip \<noteq> []"
    and "parse_digits 0 (ip @ fp) = Some d"
  shows "parse_number (ip @ CHR ''.'' # fp) = Some (d, - int (length fp))"
  using assms(3,4) by (simp add: parse_number_def digits_span [OF assms(1)] digits_span [OF assms(2)])

lemma parse_number_dec_string:
  "\<exists>d e. parse_number (dec_string c j) = Some (d, e) \<and> dec_mag d e = dec_mag c j"
proof -
  let ?s = "show_nat c" and ?p = "int (length (show_nat c)) + j"
  consider "0 \<le> j" | "j < 0" "?p \<le> 0" | "j < 0" "0 < ?p" by linarith
  then show ?thesis
  proof cases
    case 1
    have "parse_number (?s @ replicate (nat j) CHR ''0'') = Some (c * 10 ^ nat j, 0)"
      using show_nat_digits [of c]
      by (intro parse_number_integer) (auto simp: parse_digits_append parse_digits_zeros)
    with 1 show ?thesis by (simp add: dec_string_def Let_def dec_mag_def)
  next
    case 2
    have "parse_number (''0'' @ CHR ''.'' # (replicate (nat (- ?p)) CHR ''0'' @ ?s)) =
        Some (c, - int (length (replicate (nat (- ?p)) CHR ''0'' @ ?s)))"
      using show_nat_digits [of c]
      by (intro parse_number_fraction) (auto simp: digit_val_def)
    moreover have "- int (length (replicate (nat (- ?p)) CHR ''0'' @ ?s)) = j"
      using 2 by simp
    ultimately have "parse_number (''0'' @ CHR ''.'' # (replicate (nat (- ?p)) CHR ''0'' @ ?s)) =
        Some (c, j)" by (simp only:)
    with 2 show ?thesis by (simp add: dec_string_def Let_def)
  next
    case 3
    have len: "nat ?p \<le> length ?s" "0 < nat ?p" using 3 by auto
    have "parse_number (take (nat ?p) ?s @ CHR ''.'' # drop (nat ?p) ?s) =
        Some (c, - int (length (drop (nat ?p) ?s)))"
      using show_nat_digits [of c] len
      by (intro parse_number_fraction) (auto dest: in_set_takeD in_set_dropD)
    moreover have "- int (length (drop (nat ?p) ?s)) = j"
      using 3 len by (simp add: of_nat_diff)
    ultimately have "parse_number (take (nat ?p) ?s @ CHR ''.'' # drop (nat ?p) ?s) = Some (c, j)"
      by (simp only:)
    with 3 show ?thesis by (simp add: dec_string_def Let_def)
  qed
qed

lemma dec_string_hd: "\<exists>c r. dec_string n j = c # r \<and> is_digit c"
proof -
  obtain c r where cr: "show_nat n = c # r" "is_digit c" by (rule show_nat_Cons)
  show ?thesis
    by (cases "0 < int (length (show_nat n)) + j")
      (auto simp: dec_string_def Let_def cr take_Cons')
qed

lemma shortest_sound: "shortest fuel b j = Some (c, j') \<Longrightarrow> dec_mag c j' = b"
  by (induction fuel arbitrary: j) (auto simp: Let_def split: prod.splits if_splits)

lemma scaled_exact:
  assumes j: "j \<le> - 1074" and b: "b < inf_mag"
  shows "case scaled b j of (p, q) \<Rightarrow> dec_mag (p div q) j = b"
proof -
  define n where "n = nat (- j)"
  define R :: nat where "R = 5 ^ 1074 * 10 ^ (n - 1074)"
  have P: "0 < unit_den" by (simp only: unit_den_def zero_less_power zero_less_numeral)
  have "(10 :: nat) = 2 * 5" by simp
  then have "(10 :: nat) ^ 1074 = 2 ^ 1074 * 5 ^ 1074" by (simp only: power_mult_distrib)
  moreover have "(10 :: nat) ^ n = 10 ^ 1074 * 10 ^ (n - 1074)"
    using j by (simp only: power_add [symmetric]) (simp add: n_def)
  ultimately have ten: "(10 :: nat) ^ n = unit_den * R" by (simp only: unit_den_def R_def mult.assoc)
  have neg: "\<not> 0 \<le> j" using j by linarith
  have "scaled b j = (mag_units b * R * unit_den, unit_den)"
    by (simp only: scaled_def neg if_False n_def [symmetric] ten)
      (simp only: mult.assoc mult.commute [of unit_den])
  moreover have "dec_mag (mag_units b * R) j = round_units (mag_units b * (unit_den * R)) (unit_den * R)"
    by (simp only: dec_mag_def neg if_False n_def [symmetric] ten)
      (simp only: mult.assoc mult.commute [of R])
  moreover have "0 < unit_den * R" by (simp only: ten [symmetric] zero_less_power zero_less_numeral)
  ultimately show ?thesis
    using round_units_exact [OF b, of "unit_den * R"] P by simp
qed

lemma shortest_complete:
  assumes "b < inf_mag"
  shows "0 < fuel \<Longrightarrow> j + 1074 < int fuel \<Longrightarrow> \<exists>c j'. shortest fuel b j = Some (c, j')"
proof (induction fuel arbitrary: j)
  case 0
  then show ?case by simp
next
  case (Suc fuel)
  obtain p q where pq: "scaled b j = (p, q)" by fastforce
  show ?case
  proof (cases "dec_mag (p div q) j = b \<or> dec_mag (p div q + 1) j = b")
    case True
    then show ?thesis by (auto simp: pq Let_def)
  next
    case False
    then have "- 1074 < j" using scaled_exact [of j b] assms pq by fastforce
    then have "0 < fuel" "(j - 1) + 1074 < int fuel" using Suc.prems by auto
    then have "\<exists>c j'. shortest fuel b (j - 1) = Some (c, j')" by (rule Suc.IH)
    with False show ?thesis by (simp add: pq Let_def)
  qed
qed

lemma dec_point_le: "dec_point b \<le> 370"
  by (auto simp: dec_point_def find_Some_iff split: option.splits)

lemma parse_number_mag_string:
  assumes "b < inf_mag"
  shows "\<exists>d e. parse_number (mag_string b) = Some (d, e) \<and> dec_mag d e = b"
proof (cases "b = 0")
  case True
  have "parse_number ''0'' = Some (0, 0)"
    by (simp add: parse_number_def digit_val_def)
  with True show ?thesis
    by (simp add: mag_string_def dec_mag_def round_units_def shift_for.simps [of 0] Let_def)
next
  case False
  obtain c j where s: "shortest 2000 b (dec_point b) = Some (c, j)"
    using shortest_complete [OF assms, of 2000 "dec_point b"] dec_point_le [of b] by auto
  with False shortest_sound [OF s] parse_number_dec_string [of c j] show ?thesis
    by (simp add: mag_string_def)
qed

lemma mag_string_hd:
  assumes "b < inf_mag"
  shows "\<exists>c r. mag_string b = c # r \<and> is_digit c"
proof -
  obtain c j where "b = 0 \<or> shortest 2000 b (dec_point b) = Some (c, j)"
    using shortest_complete [OF assms, of 2000 "dec_point b"] dec_point_le [of b] by auto
  then show ?thesis using dec_string_hd by (auto simp: mag_string_def)
qed

lemma parse_f64_to_string:
  assumes "\<not> is_nan x"
  shows "parse_f64 (f64_to_string x) = Some x"
proof (cases "is_infinite x")
  case True
  have "parse_number ''inf'' = None" by (simp add: parse_number_def is_digit_def)
  moreover have "parse_inf_nan s ''inf'' = Some (mk_f64 s inf_mag)" for s
    by (simp add: parse_inf_nan_def to_ascii_lowercase_def ascii_lower_def less_eq_char_def)
  moreover have "mk_f64 (f64_neg x) inf_mag = x"
    using True mk_f64_mag [of x] by (simp add: is_infinite_def)
  ultimately show ?thesis
    using assms True by (cases "f64_neg x") (auto simp: f64_to_string_def parse_f64_def)
next
  case False
  then have m: "mag x < inf_mag" using assms by (auto simp: is_nan_def is_infinite_def)
  obtain d e where de: "parse_number (mag_string (mag x)) = Some (d, e)" "dec_mag d e = mag x"
    using parse_number_mag_string [OF m] by blast
  obtain c r where cr: "mag_string (mag x) = c # r" "is_digit c"
    using mag_string_hd [OF m] by blast
  have c: "c \<noteq> CHR ''-''" "c \<noteq> CHR ''+''" using cr(2) by auto
  have "mk_f64 (f64_neg x) (mag x) = x" by simp
  with assms False de c show ?thesis
    by (cases "f64_neg x") (simp_all add: f64_to_string_def parse_f64_def cr(1))
qed

end
