(* ===== verification/Command.thy ===== *)
theory Command
  imports F64
begin

text \<open>
  Commands and their parser: the first stage of \<open>src/src/command/mod.rs\<close>.  \<open>command\<close> has
  the variants of the enum \<open>Command\<close> with their fields in order.  \<open>Command::parse\<close> is one
  match on the upper-cased name; here it is the same sequence of arms, cut into five
  functions that each end by falling through to the next.
\<close>

section \<open>Commands and parse errors\<close>

datatype (plugins only: code size) command =
    CSet string string "nat option"
  | CGet string
  | CDel "string list"
  | CLPush string "string list"
  | CRPush string "string list"
  | CLPop string
  | CRPop string
  | CLRange string i64 i64
  | CSAdd string "string list"
  | CSRem string "string list"
  | CSMembers string
  | CSIsMember string string
  | CZAdd string "(f64 \<times> string) list"
  | CZRem string string
  | CZRange string i64 i64 bool
  | CZScore string string
  | CHSet string string string
  | CHGet string string
  | CHDel string string
  | CHGetAll string
  | CHKeys string
  | CHVals string
  | CHLen string
  | CHExists string string
  | CHIncrBy string string i64
  | CExists "string list"
  | CType string
  | CKeys string
  | CExpire string i64
  | CTtl string
  | CPersist string
  | CRename string string
  | CPing "string option"
  | CEcho string
  | CDbSize
  | CFlushAll
  | CInfo
  | CSave
  | CBgSave
  | CPublish string string
  | CIncrBy string i64
  | CAppend string string
  | CStrLen string
  | CMGet "string list"
  | CMSet "(string \<times> string) list"
  | CSetNx string string
  | CGetSet string string
  | CLLen string
  | CLIndex string i64
  | CLSet string i64 string
  | CSCard string
  | CSPop string
  | CSInter "string list"
  | CSUnion "string list"
  | CSDiff "string list"
  | CZCard string
  | CZRank string string
  | CZIncrBy string f64 string
  | CZRangeByScore string f64 bool f64 bool

datatype command_error =
    EmptyCommand
  | UnknownCommand string
  | WrongArity string
  | NotInteger string
  | NotAFloat string

fun command_error_string :: "command_error \<Rightarrow> string" where
  "command_error_string EmptyCommand = ''ERR empty command''"
| "command_error_string (UnknownCommand name) = ''ERR unknown command '' @ [CHR 0x27] @ name @ [CHR 0x27]"
| "command_error_string (WrongArity cmd) =
     ''ERR wrong number of arguments for '' @ [CHR 0x27] @ to_ascii_lowercase cmd @ [CHR 0x27] @
     '' command''"
| "command_error_string (NotInteger val) =
     ''ERR value '' @ [CHR 0x27] @ val @ [CHR 0x27] @ '' is not a valid integer''"
| "command_error_string (NotAFloat val) =
     ''ERR value '' @ [CHR 0x27] @ val @ [CHR 0x27] @ '' is not a valid float''"

section \<open>Argument helpers\<close>

definition bind_err :: "'e + 'a \<Rightarrow> ('a \<Rightarrow> 'e + 'b) \<Rightarrow> 'e + 'b" where
  "bind_err r f = (case r of Inl err \<Rightarrow> Inl err | Inr x \<Rightarrow> f x)"

definition arity :: "string \<Rightarrow> command_error" where
  "arity cmd = WrongArity cmd"

definition single_key :: "string list \<Rightarrow> string \<Rightarrow> command_error + string" where
  "single_key args cmd = (case args of [key] \<Rightarrow> Inr key | _ \<Rightarrow> Inl (arity cmd))"

definition key_value :: "string list \<Rightarrow> string \<Rightarrow> command_error + string \<times> string" where
  "key_value args cmd = (case args of [key, val] \<Rightarrow> Inr (key, val) | _ \<Rightarrow> Inl (arity cmd))"

definition non_empty_args :: "string list \<Rightarrow> string \<Rightarrow> command_error + string list" where
  "non_empty_args args cmd = (if args = [] then Inl (arity cmd) else Inr args)"

definition key_and_values :: "string list \<Rightarrow> string \<Rightarrow> command_error + string \<times> string list" where
  "key_and_values args cmd =
     (case args of
        key # vals \<Rightarrow> (if vals \<noteq> [] then Inr (key, vals) else Inl (arity cmd))
      | [] \<Rightarrow> Inl (arity cmd))"

definition parse_int_arg :: "string \<Rightarrow> command_error + i64" where
  "parse_int_arg raw = (case parse_i64 raw of Some n \<Rightarrow> Inr n | None \<Rightarrow> Inl (NotInteger raw))"

definition parse_u64_arg :: "string \<Rightarrow> command_error + nat" where
  "parse_u64_arg raw = (case parse_u64 raw of Some n \<Rightarrow> Inr n | None \<Rightarrow> Inl (NotInteger raw))"

definition parse_score :: "string \<Rightarrow> command_error + f64" where
  "parse_score raw =
     (case parse_f64 raw of
        None \<Rightarrow> Inl (NotAFloat raw)
      | Some score \<Rightarrow> (if is_nan score then Inl (NotAFloat raw) else Inr score))"

definition negate :: "i64 \<Rightarrow> command_error + i64" where
  "negate val = (case checked_neg val of Some n \<Rightarrow> Inr n | None \<Rightarrow> Inl (NotInteger (show_i64 val)))"

definition parse_score_bound :: "string \<Rightarrow> command_error + f64 \<times> bool" where
  "parse_score_bound raw =
     (let (inclusive, number) = (case strip_prefix_char CHR ''('' raw of
            Some rest \<Rightarrow> (False, rest) | None \<Rightarrow> (True, raw));
          lower = to_ascii_lowercase number
      in if lower = ''+inf'' \<or> lower = ''inf'' then Inr (f64_infinity, inclusive)
         else if lower = ''-inf'' then Inr (f64_neg_infinity, inclusive)
         else case parse_f64 lower of
             None \<Rightarrow> Inl (NotAFloat raw)
           | Some score \<Rightarrow>
               (if is_nan score then Inl (NotAFloat raw) else Inr (score, inclusive)))"

text \<open>\<open>chunks_exact(2)\<close> of an argument list of even length.\<close>

fun chunks2 :: "string list \<Rightarrow> (string \<times> string) list" where
  "chunks2 (a # b # rest) = (a, b) # chunks2 rest"
| "chunks2 _ = []"

fun parse_members :: "(string \<times> string) list \<Rightarrow> command_error + (f64 \<times> string) list" where
  "parse_members [] = Inr []"
| "parse_members ((raw, member) # rest) =
     bind_err (parse_score raw) (\<lambda>score.
     bind_err (parse_members rest) (\<lambda>ms. Inr ((score, member) # ms)))"

section \<open>The parser\<close>

definition parse_rest :: "string \<Rightarrow> string list \<Rightarrow> string \<Rightarrow> command_error + command" where
  "parse_rest upper args name =
     (if upper = ''SCARD'' then
        map_sum id CSCard (single_key args ''SCARD'')
      else if upper = ''SPOP'' then
        map_sum id CSPop (single_key args ''SPOP'')
      else if upper = ''SINTER'' then
        map_sum id CSInter (non_empty_args args ''SINTER'')
      else if upper = ''SUNION'' then
        map_sum id CSUnion (non_empty_args args ''SUNION'')
      else if upper = ''SDIFF'' then
        map_sum id CSDiff (non_empty_args args ''SDIFF'')
      else if upper = ''ZCARD'' then
        map_sum id CZCard (single_key args ''ZCARD'')
      else if upper = ''ZRANK'' then
        map_sum id (\<lambda>(a, b). CZRank a b) (key_value args ''ZRANK'')
      else if upper = ''ZINCRBY'' then
        (case args of
          [key, increment, member] \<Rightarrow>
            bind_err (parse_score increment) (\<lambda>x. Inr (CZIncrBy key x member))
        | _ \<Rightarrow> Inl (arity ''ZINCRBY''))
      else if upper = ''ZRANGEBYSCORE'' then
        (case args of
          [key, lo, hi] \<Rightarrow>
            bind_err (parse_score_bound lo) (\<lambda>(a, a_incl).
            bind_err (parse_score_bound hi) (\<lambda>(b, b_incl).
              Inr (CZRangeByScore key a a_incl b b_incl)))
        | _ \<Rightarrow> Inl (arity ''ZRANGEBYSCORE''))
      else Inl (UnknownCommand name))"

definition parse_string :: "string \<Rightarrow> string list \<Rightarrow> string \<Rightarrow> command_error + command" where
  "parse_string upper args name =
     (if upper = ''INCR'' then
        map_sum id (\<lambda>key. CIncrBy key 1) (single_key args ''INCR'')
      else if upper = ''DECR'' then
        map_sum id (\<lambda>key. CIncrBy key (- 1)) (single_key args ''DECR'')
      else if upper = ''INCRBY'' then
        (case args of
          [key, delta] \<Rightarrow> bind_err (parse_int_arg delta) (\<lambda>d. Inr (CIncrBy key d))
        | _ \<Rightarrow> Inl (arity ''INCRBY''))
      else if upper = ''DECRBY'' then
        (case args of
          [key, delta] \<Rightarrow>
            bind_err (parse_int_arg delta) (\<lambda>d.
            bind_err (negate d) (\<lambda>d'. Inr (CIncrBy key d')))
        | _ \<Rightarrow> Inl (arity ''DECRBY''))
      else if upper = ''APPEND'' then
        map_sum id (\<lambda>(a, b). CAppend a b) (key_value args ''APPEND'')
      else if upper = ''STRLEN'' then
        map_sum id CStrLen (single_key args ''STRLEN'')
      else if upper = ''MGET'' then
        map_sum id CMGet (non_empty_args args ''MGET'')
      else if upper = ''MSET'' then
        (if args = [] \<or> length args mod 2 \<noteq> 0 then Inl (arity ''MSET'')
        else Inr (CMSet (chunks2 args)))
      else if upper = ''SETNX'' then
        map_sum id (\<lambda>(a, b). CSetNx a b) (key_value args ''SETNX'')
      else if upper = ''GETSET'' then
        map_sum id (\<lambda>(a, b). CGetSet a b) (key_value args ''GETSET'')
      else if upper = ''LLEN'' then
        map_sum id CLLen (single_key args ''LLEN'')
      else if upper = ''LINDEX'' then
        (case args of
          [key, index] \<Rightarrow> bind_err (parse_int_arg index) (\<lambda>i. Inr (CLIndex key i))
        | _ \<Rightarrow> Inl (arity ''LINDEX''))
      else if upper = ''LSET'' then
        (case args of
          [key, index, val] \<Rightarrow> bind_err (parse_int_arg index) (\<lambda>i. Inr (CLSet key i val))
        | _ \<Rightarrow> Inl (arity ''LSET''))
      else parse_rest upper args name)"

definition parse_generic :: "string \<Rightarrow> string list \<Rightarrow> string \<Rightarrow> command_error + command" where
  "parse_generic upper args name =
     (if upper = ''EXISTS'' then
        map_sum id CExists (non_empty_args args ''EXISTS'')
      else if upper = ''TYPE'' then
        map_sum id CType (single_key args ''TYPE'')
      else if upper = ''KEYS'' then
        map_sum id CKeys (single_key args ''KEYS'')
      else if upper = ''EXPIRE'' then
        (case args of
          [key, seconds] \<Rightarrow> bind_err (parse_int_arg seconds) (\<lambda>n. Inr (CExpire key n))
        | _ \<Rightarrow> Inl (arity ''EXPIRE''))
      else if upper = ''TTL'' then
        map_sum id CTtl (single_key args ''TTL'')
      else if upper = ''PERSIST'' then
        map_sum id CPersist (single_key args ''PERSIST'')
      else if upper = ''RENAME'' then
        map_sum id (\<lambda>(a, b). CRename a b) (key_value args ''RENAME'')
      else if upper = ''PING'' then
        (case args of
          [] \<Rightarrow> Inr (CPing None)
        | [message] \<Rightarrow> Inr (CPing (Some message))
        | _ \<Rightarrow> Inl (arity ''PING''))
      else if upper = ''ECHO'' then
        map_sum id CEcho (single_key args ''ECHO'')
      else if upper = ''DBSIZE'' then
        (case args of [] \<Rightarrow> Inr CDbSize | _ \<Rightarrow> Inl (arity ''DBSIZE''))
      else if upper = ''FLUSHALL'' then
        (case args of [] \<Rightarrow> Inr CFlushAll | _ \<Rightarrow> Inl (arity ''FLUSHALL''))
      else if upper = ''INFO'' then
        Inr CInfo
      else if upper = ''SAVE'' then
        Inr CSave
      else if upper = ''BGSAVE'' then
        Inr CBgSave
      else if upper = ''PUBLISH'' then
        map_sum id (\<lambda>(a, b). CPublish a b) (key_value args ''PUBLISH'')
      else parse_string upper args name)"

definition parse_zset_hash :: "string \<Rightarrow> string list \<Rightarrow> string \<Rightarrow> command_error + command" where
  "parse_zset_hash upper args name =
     (if upper = ''ZADD'' then
        (case args of
          key # rest \<Rightarrow>
            (if rest \<noteq> [] \<and> length rest mod 2 = 0
             then bind_err (parse_members (chunks2 rest)) (\<lambda>ms. Inr (CZAdd key ms))
             else Inl (arity ''ZADD''))
        | [] \<Rightarrow> Inl (arity ''ZADD''))
      else if upper = ''ZREM'' then
        map_sum id (\<lambda>(a, b). CZRem a b) (key_value args ''ZREM'')
      else if upper = ''ZRANGE'' then
        (case args of
          key # start # stop # rest \<Rightarrow>
            (if rest = [] \<or> (length rest = 1 \<and> eq_ignore_ascii_case (hd rest) ''WITHSCORES'')
             then
               bind_err (parse_int_arg start) (\<lambda>a.
               bind_err (parse_int_arg stop) (\<lambda>b. Inr (CZRange key a b (length args = 4))))
             else Inl (arity ''ZRANGE''))
        | _ \<Rightarrow> Inl (arity ''ZRANGE''))
      else if upper = ''ZSCORE'' then
        map_sum id (\<lambda>(a, b). CZScore a b) (key_value args ''ZSCORE'')
      else if upper = ''HSET'' then
        (case args of
          [key, field, val] \<Rightarrow> Inr (CHSet key field val)
        | _ \<Rightarrow> Inl (arity ''HSET''))
      else if upper = ''HGET'' then
        map_sum id (\<lambda>(a, b). CHGet a b) (key_value args ''HGET'')
      else if upper = ''HDEL'' then
        map_sum id (\<lambda>(a, b). CHDel a b) (key_value args ''HDEL'')
      else if upper = ''HGETALL'' then
        map_sum id CHGetAll (single_key args ''HGETALL'')
      else if upper = ''HKEYS'' then
        map_sum id CHKeys (single_key args ''HKEYS'')
      else if upper = ''HVALS'' then
        map_sum id CHVals (single_key args ''HVALS'')
      else if upper = ''HLEN'' then
        map_sum id CHLen (single_key args ''HLEN'')
      else if upper = ''HEXISTS'' then
        map_sum id (\<lambda>(a, b). CHExists a b) (key_value args ''HEXISTS'')
      else if upper = ''HINCRBY'' then
        (case args of
          [key, field, delta] \<Rightarrow>
            bind_err (parse_int_arg delta) (\<lambda>d. Inr (CHIncrBy key field d))
        | _ \<Rightarrow> Inl (arity ''HINCRBY''))
      else parse_generic upper args name)"

definition parse_basic :: "string \<Rightarrow> string list \<Rightarrow> string \<Rightarrow> command_error + command" where
  "parse_basic upper args name =
     (if upper = ''SET'' then
        (case args of
          [key, val] \<Rightarrow> Inr (CSet key val None)
        | [key, val, opt, ttl] \<Rightarrow>
            (if eq_ignore_ascii_case opt ''EX'' \<or> eq_ignore_ascii_case opt ''EXP''
             then bind_err (parse_u64_arg ttl) (\<lambda>n. Inr (CSet key val (Some n)))
             else Inl (arity ''SET''))
        | _ \<Rightarrow> Inl (arity ''SET''))
      else if upper = ''GET'' then
        map_sum id CGet (single_key args ''GET'')
      else if upper = ''DEL'' then
        map_sum id CDel (non_empty_args args ''DEL'')
      else if upper = ''LPUSH'' then
        map_sum id (\<lambda>(key, vals). CLPush key vals) (key_and_values args ''LPUSH'')
      else if upper = ''RPUSH'' then
        map_sum id (\<lambda>(key, vals). CRPush key vals) (key_and_values args ''RPUSH'')
      else if upper = ''LPOP'' then
        map_sum id CLPop (single_key args ''LPOP'')
      else if upper = ''RPOP'' then
        map_sum id CRPop (single_key args ''RPOP'')
      else if upper = ''LRANGE'' then
        (case args of
          [key, start, stop] \<Rightarrow>
            bind_err (parse_int_arg start) (\<lambda>a.
            bind_err (parse_int_arg stop) (\<lambda>b. Inr (CLRange key a b)))
        | _ \<Rightarrow> Inl (arity ''LRANGE''))
      else if upper = ''SADD'' then
        map_sum id (\<lambda>(key, vals). CSAdd key vals) (key_and_values args ''SADD'')
      else if upper = ''SREM'' then
        map_sum id (\<lambda>(key, vals). CSRem key vals) (key_and_values args ''SREM'')
      else if upper = ''SMEMBERS'' then
        map_sum id CSMembers (single_key args ''SMEMBERS'')
      else if upper = ''SISMEMBER'' then
        map_sum id (\<lambda>(a, b). CSIsMember a b) (key_value args ''SISMEMBER'')
      else parse_zset_hash upper args name)"

definition parse :: "string list \<Rightarrow> command_error + command" where
  "parse tokens =
     (case tokens of
        [] \<Rightarrow> Inl EmptyCommand
      | name # args \<Rightarrow> parse_basic (to_ascii_uppercase name) args name)"

fun is_write :: "command \<Rightarrow> bool" where
  "is_write (CSet _ _ _) = True"
| "is_write (CDel _) = True"
| "is_write (CLPush _ _) = True"
| "is_write (CRPush _ _) = True"
| "is_write (CLPop _) = True"
| "is_write (CRPop _) = True"
| "is_write (CSAdd _ _) = True"
| "is_write (CSRem _ _) = True"
| "is_write (CZAdd _ _) = True"
| "is_write (CZRem _ _) = True"
| "is_write (CHSet _ _ _) = True"
| "is_write (CHDel _ _) = True"
| "is_write (CHIncrBy _ _ _) = True"
| "is_write (CExpire _ _) = True"
| "is_write (CPersist _) = True"
| "is_write (CRename _ _) = True"
| "is_write CFlushAll = True"
| "is_write (CIncrBy _ _) = True"
| "is_write (CAppend _ _) = True"
| "is_write (CMSet _) = True"
| "is_write (CSetNx _ _) = True"
| "is_write (CGetSet _ _) = True"
| "is_write (CLSet _ _ _) = True"
| "is_write (CZIncrBy _ _ _) = True"
| "is_write _ = False"

end
