(* ===== verification/Collections.thy ===== *)
theory Collections
  imports F64
begin

text \<open>
  The collections of Rust's standard library as the source uses them, and the contract of the
  one type it takes from a crate.  A \<open>HashMap\<close> is an association list with distinct keys and
  a \<open>HashSet\<close> a list with distinct elements: the list is the map together with its current
  iteration order, which Rust leaves open, so theorems about results that depend on it are
  stated up to reordering.  A \<open>BTreeSet\<close> is the list of its elements in ascending order of
  the element type's \<open>cmp\<close>.  The locale \<open>total_cmp\<close> is what a \<open>BTreeSet\<close> needs of \<open>cmp\<close>;
  the locale \<open>ordered_float\<close> states the documented behaviour of \<open>OrderedFloat\<close> (crate
  ordered-float), whose comparison is a parameter of the model.
\<close>

section \<open>HashMap and HashSet\<close>

type_synonym ('k, 'v) hash_map = "('k \<times> 'v) list"
type_synonym 'a hash_set = "'a list"

abbreviation hm_get :: "('k, 'v) hash_map \<Rightarrow> 'k \<Rightarrow> 'v option" where
  "hm_get m k \<equiv> map_of m k"

abbreviation hm_insert :: "'k \<Rightarrow> 'v \<Rightarrow> ('k, 'v) hash_map \<Rightarrow> ('k, 'v) hash_map" where
  "hm_insert k v m \<equiv> AList.update k v m"

abbreviation hm_remove :: "'k \<Rightarrow> ('k, 'v) hash_map \<Rightarrow> ('k, 'v) hash_map" where
  "hm_remove k m \<equiv> AList.delete k m"

abbreviation hm_wf :: "('k, 'v) hash_map \<Rightarrow> bool" where
  "hm_wf m \<equiv> distinct (map fst m)"

definition hs_insert :: "'a \<Rightarrow> 'a hash_set \<Rightarrow> 'a hash_set" where
  "hs_insert x s = (if x \<in> set s then s else s @ [x])"

definition hs_remove :: "'a \<Rightarrow> 'a hash_set \<Rightarrow> 'a hash_set" where
  "hs_remove x s = removeAll x s"

text \<open>What a client relies on in a map: the laws of lookup, insertion and removal.\<close>

locale finite_map_laws =
  fixes get :: "'m \<Rightarrow> 'k \<Rightarrow> 'v option"
    and ins :: "'k \<Rightarrow> 'v \<Rightarrow> 'm \<Rightarrow> 'm"
    and del :: "'k \<Rightarrow> 'm \<Rightarrow> 'm"
    and invar :: "'m \<Rightarrow> bool"
  assumes get_ins: "get (ins k v m) k' = (if k' = k then Some v else get m k')"
    and get_del: "get (del k m) k' = (if k' = k then None else get m k')"
    and invar_ins: "invar m \<Longrightarrow> invar (ins k v m)"
    and invar_del: "invar m \<Longrightarrow> invar (del k m)"
begin

lemma fold_ins_invar: "invar m \<Longrightarrow> invar (fold (\<lambda>(k, v). ins k v) kvs m)"
  by (induction kvs arbitrary: m) (auto intro: invar_ins)

lemma fold_ins_get:
  "get (fold (\<lambda>(k, v). ins k v) kvs m) k =
     (case map_of (rev kvs) k of None \<Rightarrow> get m k | Some v \<Rightarrow> Some v)"
  by (induction kvs arbitrary: m) (auto simp: get_ins map_add_def split: option.splits)

lemma fold_del_get:
  "get (fold del ks m) k = (if k \<in> set ks then None else get m k)"
  by (induction ks arbitrary: m) (auto simp: get_del)

lemma fold_del_invar: "invar m \<Longrightarrow> invar (fold del ks m)"
  by (induction ks arbitrary: m) (auto intro: invar_del)

end

lemma hm_wf_insert [simp, intro]: "hm_wf m \<Longrightarrow> hm_wf (hm_insert k v m)"
  by (rule distinct_update)

lemma hm_wf_remove [simp, intro]: "hm_wf m \<Longrightarrow> hm_wf (hm_remove k m)"
  by (simp add: AList.delete_keys distinct_removeAll)

interpretation hash_map: finite_map_laws map_of AList.update AList.delete hm_wf
  by unfold_locales (auto simp: update_conv' delete_conv')

lemma hm_get_insert [simp]:
  "hm_get (hm_insert k v m) k' = (if k' = k then Some v else hm_get m k')"
  by (rule hash_map.get_ins)

lemma hm_get_remove [simp]:
  "hm_get (hm_remove k m) k' = (if k' = k then None else hm_get m k')"
  by (rule hash_map.get_del)

lemma hm_get_filter:
  "hm_wf m \<Longrightarrow> hm_get (filter P m) k =
     (case hm_get m k of Some v \<Rightarrow> if P (k, v) then Some v else None | None \<Rightarrow> None)"
  by (induction m) (auto simp: map_of_eq_None_iff split: option.splits dest: map_of_SomeD)

lemma hm_wf_filter [simp, intro]: "hm_wf m \<Longrightarrow> hm_wf (filter P m)"
  by (rule distinct_map_filter)

text \<open>What a client relies on in a set.\<close>

locale finite_set_laws =
  fixes ins :: "'a \<Rightarrow> 's \<Rightarrow> 's"
    and del :: "'a \<Rightarrow> 's \<Rightarrow> 's"
    and elems :: "'s \<Rightarrow> 'a set"
    and invar :: "'s \<Rightarrow> bool"
  assumes elems_ins: "elems (ins x s) = insert x (elems s)"
    and elems_del: "elems (del x s) = elems s - {x}"
    and invar_ins: "invar s \<Longrightarrow> invar (ins x s)"
    and invar_del: "invar s \<Longrightarrow> invar (del x s)"
begin

lemma elems_fold_ins: "elems (fold ins xs s) = elems s \<union> set xs"
  by (induction xs arbitrary: s) (auto simp: elems_ins)

lemma elems_fold_del: "elems (fold del xs s) = elems s - set xs"
  by (induction xs arbitrary: s) (auto simp: elems_del)

lemma invar_fold_ins: "invar s \<Longrightarrow> invar (fold ins xs s)"
  by (induction xs arbitrary: s) (auto intro: invar_ins)

lemma invar_fold_del: "invar s \<Longrightarrow> invar (fold del xs s)"
  by (induction xs arbitrary: s) (auto intro: invar_del)

end

interpretation hash_set: finite_set_laws hs_insert hs_remove set distinct
  by unfold_locales (auto simp: hs_insert_def hs_remove_def distinct_removeAll)

lemmas hs_simps = hash_set.elems_ins hash_set.elems_del hash_set.elems_fold_ins
  hash_set.elems_fold_del
lemmas hs_wf = hash_set.invar_ins hash_set.invar_del hash_set.invar_fold_ins
  hash_set.invar_fold_del

section \<open>Orderings and BTreeSet\<close>

datatype ordering = Less | Equal | Greater

fun reverse_ordering :: "ordering \<Rightarrow> ordering" where
  "reverse_ordering Less = Greater"
| "reverse_ordering Equal = Equal"
| "reverse_ordering Greater = Less"

fun then_with :: "ordering \<Rightarrow> ordering \<Rightarrow> ordering" where
  "then_with Equal o2 = o2"
| "then_with o1 o2 = o1"

definition cmp_of :: "'a :: linorder \<Rightarrow> 'a \<Rightarrow> ordering" where
  "cmp_of x y = (if x < y then Less else if x = y then Equal else Greater)"

fun bt_insert :: "('a \<Rightarrow> 'a \<Rightarrow> ordering) \<Rightarrow> 'a \<Rightarrow> 'a list \<Rightarrow> 'a list" where
  "bt_insert cmp x [] = [x]"
| "bt_insert cmp x (y # ys) =
     (case cmp x y of
        Less \<Rightarrow> x # y # ys
      | Equal \<Rightarrow> y # ys
      | Greater \<Rightarrow> y # bt_insert cmp x ys)"

fun bt_remove :: "('a \<Rightarrow> 'a \<Rightarrow> ordering) \<Rightarrow> 'a \<Rightarrow> 'a list \<Rightarrow> 'a list" where
  "bt_remove cmp x [] = []"
| "bt_remove cmp x (y # ys) =
     (case cmp x y of
        Less \<Rightarrow> y # ys
      | Equal \<Rightarrow> ys
      | Greater \<Rightarrow> y # bt_remove cmp x ys)"

lemma reverse_ordering_simps [simp]:
  "reverse_ordering r = Less \<longleftrightarrow> r = Greater" "Less = reverse_ordering r \<longleftrightarrow> r = Greater"
  "reverse_ordering r = Greater \<longleftrightarrow> r = Less" "Greater = reverse_ordering r \<longleftrightarrow> r = Less"
  "reverse_ordering r = Equal \<longleftrightarrow> r = Equal" "Equal = reverse_ordering r \<longleftrightarrow> r = Equal"
  "reverse_ordering (reverse_ordering r) = r"
  by (cases r; simp)+

locale total_cmp =
  fixes cmp :: "'a \<Rightarrow> 'a \<Rightarrow> ordering"
  assumes cmp_refl: "cmp x x = Equal"
    and cmp_reverse: "cmp y x = reverse_ordering (cmp x y)"
    and cmp_trans: "cmp x y = Less \<Longrightarrow> cmp y z = Less \<Longrightarrow> cmp x z = Less"
    and cmp_equal: "cmp x y = Equal \<Longrightarrow> cmp x z = cmp y z"
begin

definition ascending :: "'a list \<Rightarrow> bool" where
  "ascending xs \<longleftrightarrow> sorted_wrt (\<lambda>x y. cmp x y = Less) xs"

lemma ascending_simps:
  "ascending []" "ascending (x # xs) \<longleftrightarrow> (\<forall>y \<in> set xs. cmp x y = Less) \<and> ascending xs"
  by (simp_all add: ascending_def)

lemma cmp_Greater_iff: "cmp x y = Greater \<longleftrightarrow> cmp y x = Less"
  by (subst cmp_reverse) simp

lemma cmp_Equal_sym: "cmp x y = Equal \<longleftrightarrow> cmp y x = Equal"
  by (subst cmp_reverse) simp

lemma cmp_equal_right: "cmp x y = Equal \<Longrightarrow> cmp z x = cmp z y"
  using cmp_equal [of x y z] cmp_reverse [of z x] cmp_reverse [of z y] by simp

lemma set_bt_insert:
  "ascending xs \<Longrightarrow> set (bt_insert cmp x xs) =
     (if \<exists>y \<in> set xs. cmp x y = Equal then set xs else insert x (set xs))"
  by (induction xs)
    (auto simp: ascending_simps cmp_Greater_iff split: ordering.splits
      dest: cmp_trans cmp_equal)

lemma ascending_bt_insert: "ascending xs \<Longrightarrow> ascending (bt_insert cmp x xs)"
  by (induction xs)
    (auto simp: ascending_simps cmp_Greater_iff set_bt_insert split: ordering.splits if_splits
      intro: cmp_trans)

lemma set_bt_remove:
  "ascending xs \<Longrightarrow> set (bt_remove cmp x xs) = {y \<in> set xs. cmp x y \<noteq> Equal}"
proof (induction xs)
  case Nil
  then show ?case by simp
next
  case (Cons y ys)
  show ?case
  proof (cases "cmp x y")
    case Less
    then have "cmp x z = Less" if "z \<in> set ys" for z
      using that Cons.prems cmp_trans by (auto simp: ascending_simps)
    with Less show ?thesis by auto
  next
    case Equal
    then have "cmp x z = Less" if "z \<in> set ys" for z
      using that Cons.prems cmp_equal [OF Equal, of z] by (auto simp: ascending_simps)
    with Equal show ?thesis by auto
  next
    case Greater
    with Cons show ?thesis by (auto simp: ascending_simps)
  qed
qed

lemma ascending_bt_remove: "ascending xs \<Longrightarrow> ascending (bt_remove cmp x xs)"
  by (induction xs) (auto simp: ascending_simps set_bt_remove split: ordering.splits)

lemma ascending_distinct: "ascending xs \<Longrightarrow> distinct xs"
  by (induction xs) (auto simp: ascending_simps cmp_refl)

lemma ascending_unique:
  "ascending xs \<Longrightarrow> ascending ys \<Longrightarrow> set xs = set ys \<Longrightarrow> xs = ys"
proof (induction xs arbitrary: ys)
  case Nil
  then show ?case by simp
next
  case (Cons x xs)
  then obtain y ys' where ys: "ys = y # ys'" by (cases ys) auto
  have "x = y"
  proof (rule ccontr)
    assume "x \<noteq> y"
    then have "cmp y x = Less" "cmp x y = Less"
      using Cons.prems by (auto simp: ys ascending_simps)
    then show False using cmp_reverse [of x y] by simp
  qed
  moreover have "x \<notin> set xs" "y \<notin> set ys'"
    using Cons.prems by (auto simp: ys ascending_simps cmp_refl)
  moreover from calculation Cons.prems(3) have "set xs = set ys'"
    by (auto simp: ys)
  ultimately show ?case
    using Cons by (auto simp: ys ascending_simps)
qed

end

lemma cmp_of_simps [simp]:
  "cmp_of x y = Less \<longleftrightarrow> x < y" "cmp_of x y = Equal \<longleftrightarrow> x = y" "cmp_of x y = Greater \<longleftrightarrow> y < x"
  by (auto simp: cmp_of_def)

interpretation linorder_cmp: total_cmp "cmp_of :: 'a :: linorder \<Rightarrow> 'a \<Rightarrow> ordering"
  by unfold_locales (auto simp: cmp_of_def split: if_splits)

section \<open>OrderedFloat\<close>

text \<open>
  \<open>OrderedFloat<f64>\<close> as the source uses it: \<open>Ord::cmp\<close> and \<open>PartialEq::eq\<close>.  Its
  documentation: the order of the numbers, with NaN equal to itself and above every number.
\<close>

record float_order =
  of_cmp :: "f64 \<Rightarrow> f64 \<Rightarrow> ordering"
  of_eq :: "f64 \<Rightarrow> f64 \<Rightarrow> bool"

locale ordered_float =
  fixes fo :: float_order
  assumes cmp_numbers: "\<not> is_nan x \<Longrightarrow> \<not> is_nan y \<Longrightarrow>
      of_cmp fo x y = (if f64_lt x y then Less else if f64_eq x y then Equal else Greater)"
    and cmp_nan_number: "is_nan x \<Longrightarrow> \<not> is_nan y \<Longrightarrow> of_cmp fo x y = Greater"
    and cmp_number_nan: "\<not> is_nan x \<Longrightarrow> is_nan y \<Longrightarrow> of_cmp fo x y = Less"
    and cmp_nan_nan: "is_nan x \<Longrightarrow> is_nan y \<Longrightarrow> of_cmp fo x y = Equal"
    and eq_iff_cmp: "of_eq fo x y \<longleftrightarrow> of_cmp fo x y = Equal"
begin

definition rank_key :: "f64 \<Rightarrow> int" where
  "rank_key x = (if is_nan x then 2 ^ 63 else f64_key x)"

lemma cmp_by_key: "of_cmp fo x y = cmp_of (rank_key x) (rank_key y)"
  using f64_key_bound [of x] f64_key_bound [of y]
  by (cases "is_nan x"; cases "is_nan y")
    (auto simp: cmp_numbers cmp_nan_number cmp_number_nan cmp_nan_nan rank_key_def cmp_of_def
      f64_lt_def f64_eq_def)

end

sublocale ordered_float \<subseteq> score: total_cmp "of_cmp fo"
  by unfold_locales (auto simp: cmp_by_key cmp_of_def split: if_splits)

text \<open>The documented order as a function, the instance that the witnesses evaluate.\<close>

definition documented_cmp :: "f64 \<Rightarrow> f64 \<Rightarrow> ordering" where
  "documented_cmp x y =
     cmp_of (if is_nan x then 2 ^ 63 else f64_key x) (if is_nan y then 2 ^ 63 else f64_key y)"

definition documented_order :: float_order where
  "documented_order = \<lparr>of_cmp = documented_cmp, of_eq = (\<lambda>x y. documented_cmp x y = Equal)\<rparr>"

lemmas documented_defs = documented_order_def documented_cmp_def cmp_of_def f64_lt_def f64_eq_def

interpretation documented: ordered_float documented_order
proof (unfold_locales, goal_cases)
  case (1 x y)
  then show ?case by (simp add: documented_defs)
next
  case (2 x y)
  then show ?case using f64_key_bound [of y] by (simp add: documented_defs)
next
  case (3 x y)
  then show ?case using f64_key_bound [of x] by (simp add: documented_defs)
next
  case (4 x y)
  then show ?case by (simp add: documented_defs)
next
  case (5 x y)
  then show ?case by (simp add: documented_order_def)
qed

end
