(* ===== verification/Data_Structure.thy ===== *)
theory Data_Structure
  imports Collections
begin

text \<open>
  The value types of \<open>src/src/database/data_structure.rs\<close>: \<open>RList\<close> over a \<open>VecDeque\<close>,
  \<open>RSet\<close> over a \<open>HashSet\<close>, \<open>RHash\<close> over a \<open>HashMap\<close> (one-field structs, so type synonyms
  here) and \<open>RSortedSet\<close>, which keeps a \<open>HashMap\<close> and a \<open>BTreeSet\<close> in step.  A method
  taking \<open>&mut self\<close> returns its result together with the new value.  Index arithmetic is on
  \<open>i64\<close> words, as in the source; the facts below show that it never wraps for a length below
  \<open>2^63\<close>, which is every length a Rust collection can have.
\<close>

section \<open>Index arithmetic\<close>

definition resolve_range :: "i64 \<Rightarrow> i64 \<Rightarrow> nat \<Rightarrow> (nat \<times> nat) option" where
  "resolve_range start stop len =
     (if len = 0 then None
      else
        let len' = (of_nat len :: i64);
            norm = (\<lambda>index. if sint index < 0 then index + len' else index);
            start' = (if sint (norm start) < 0 then 0 else norm start);
            stop' = (if sint (len' - 1) < sint (norm stop) then len' - 1 else norm stop)
        in if sint stop' < sint start' \<or> sint len' \<le> sint start' then None
           else Some (unat start', unat stop'))"

definition normalize_index :: "i64 \<Rightarrow> nat \<Rightarrow> nat option" where
  "normalize_index index len =
     (if len = 0 then None
      else
        let resolved = (if sint index < 0 then index + of_nat len else index)
        in if 0 \<le> sint resolved \<and> sint resolved < sint (of_nat len :: i64)
           then Some (unat resolved) else None)"

section \<open>RList\<close>

type_synonym rlist = "string list"

definition rlist_new :: rlist where
  "rlist_new = []"

definition rl_lpush :: "string \<Rightarrow> rlist \<Rightarrow> rlist" where
  "rl_lpush value l = value # l"

definition rl_rpush :: "string \<Rightarrow> rlist \<Rightarrow> rlist" where
  "rl_rpush value l = l @ [value]"

definition rl_lpop :: "rlist \<Rightarrow> string option \<times> rlist" where
  "rl_lpop l = (case l of [] \<Rightarrow> (None, []) | x # xs \<Rightarrow> (Some x, xs))"

definition rl_rpop :: "rlist \<Rightarrow> string option \<times> rlist" where
  "rl_rpop l = (if l = [] then (None, []) else (Some (last l), butlast l))"

definition rl_lrange :: "i64 \<Rightarrow> i64 \<Rightarrow> rlist \<Rightarrow> string list" where
  "rl_lrange start stop l =
     (case resolve_range start stop (length l) of
        Some (a, b) \<Rightarrow> take (b - a + 1) (drop a l)
      | None \<Rightarrow> [])"

definition rl_lindex :: "i64 \<Rightarrow> rlist \<Rightarrow> string option" where
  "rl_lindex index l = map_option (\<lambda>i. l ! i) (normalize_index index (length l))"

definition rl_lset :: "i64 \<Rightarrow> string \<Rightarrow> rlist \<Rightarrow> bool \<times> rlist" where
  "rl_lset index value l =
     (case normalize_index index (length l) of
        Some i \<Rightarrow> (True, l[i := value])
      | None \<Rightarrow> (False, l))"

section \<open>RSet\<close>

type_synonym rset = "string hash_set"

definition rset_new :: rset where
  "rset_new = []"

definition rs_sadd :: "string \<Rightarrow> rset \<Rightarrow> bool \<times> rset" where
  "rs_sadd value s = (value \<notin> set s, hs_insert value s)"

definition rs_srem :: "string \<Rightarrow> rset \<Rightarrow> bool \<times> rset" where
  "rs_srem value s = (value \<in> set s, hs_remove value s)"

definition rs_smembers :: "rset \<Rightarrow> string list" where
  "rs_smembers s = s"

definition rs_sismember :: "string \<Rightarrow> rset \<Rightarrow> bool" where
  "rs_sismember value s \<longleftrightarrow> value \<in> set s"

definition rs_scard :: "rset \<Rightarrow> nat" where
  "rs_scard s = length s"

definition rs_spop :: "rset \<Rightarrow> string option \<times> rset" where
  "rs_spop s = (case s of [] \<Rightarrow> (None, s) | m # _ \<Rightarrow> (Some m, hs_remove m s))"

section \<open>RHash\<close>

type_synonym rhash = "(string, string) hash_map"

definition rhash_new :: rhash where
  "rhash_new = []"

definition rh_hset :: "string \<Rightarrow> string \<Rightarrow> rhash \<Rightarrow> bool \<times> rhash" where
  "rh_hset field value h = (hm_get h field = None, hm_insert field value h)"

definition rh_hget :: "string \<Rightarrow> rhash \<Rightarrow> string option" where
  "rh_hget field h = hm_get h field"

definition rh_hdel :: "string \<Rightarrow> rhash \<Rightarrow> bool \<times> rhash" where
  "rh_hdel field h = (hm_get h field \<noteq> None, hm_remove field h)"

definition rh_hgetall :: "rhash \<Rightarrow> (string \<times> string) list" where
  "rh_hgetall h = map (\<lambda>(field, value). (field, value)) h"

definition rh_hkeys :: "rhash \<Rightarrow> string list" where
  "rh_hkeys h = map fst h"

definition rh_hvals :: "rhash \<Rightarrow> string list" where
  "rh_hvals h = map snd h"

definition rh_hlen :: "rhash \<Rightarrow> nat" where
  "rh_hlen h = length h"

definition rh_hexists :: "string \<Rightarrow> rhash \<Rightarrow> bool" where
  "rh_hexists field h \<longleftrightarrow> hm_get h field \<noteq> None"

section \<open>RSortedSet\<close>

record sorted_member =
  sm_member :: string
  sm_score :: f64

record rsorted_set =
  zs_members :: "(string, f64) hash_map"
  zs_sorted :: "sorted_member list"

definition smember_cmp :: "float_order \<Rightarrow> sorted_member \<Rightarrow> sorted_member \<Rightarrow> ordering" where
  "smember_cmp fo a b =
     then_with (of_cmp fo (sm_score a) (sm_score b)) (cmp_of (sm_member a) (sm_member b))"

definition zset_new :: rsorted_set where
  "zset_new = \<lparr>zs_members = [], zs_sorted = []\<rparr>"

definition zs_zadd :: "float_order \<Rightarrow> f64 \<Rightarrow> string \<Rightarrow> rsorted_set \<Rightarrow> bool \<times> rsorted_set" where
  "zs_zadd fo score member z =
     (let put = (\<lambda>sorted. z\<lparr>
            zs_sorted :=
              bt_insert (smember_cmp fo) \<lparr>sm_member = member, sm_score = score\<rparr> sorted,
            zs_members := hm_insert member score (zs_members z)\<rparr>)
      in case hm_get (zs_members z) member of
           Some old_score \<Rightarrow>
             (if of_eq fo old_score score then (False, z)
              else (False, put (bt_remove (smember_cmp fo)
                      \<lparr>sm_member = member, sm_score = old_score\<rparr> (zs_sorted z))))
         | None \<Rightarrow> (True, put (zs_sorted z)))"

definition zs_zrem :: "float_order \<Rightarrow> string \<Rightarrow> rsorted_set \<Rightarrow> bool \<times> rsorted_set" where
  "zs_zrem fo member z =
     (case hm_get (zs_members z) member of
        Some score \<Rightarrow>
          (True, z\<lparr>zs_members := hm_remove member (zs_members z),
                  zs_sorted := bt_remove (smember_cmp fo)
                    \<lparr>sm_member = member, sm_score = score\<rparr> (zs_sorted z)\<rparr>)
      | None \<Rightarrow> (False, z))"

definition zs_zrange :: "i64 \<Rightarrow> i64 \<Rightarrow> rsorted_set \<Rightarrow> string list" where
  "zs_zrange start stop z =
     (case resolve_range start stop (length (zs_sorted z)) of
        Some (a, b) \<Rightarrow> map sm_member (take (b - a + 1) (drop a (zs_sorted z)))
      | None \<Rightarrow> [])"

definition zs_zscore :: "string \<Rightarrow> rsorted_set \<Rightarrow> f64 option" where
  "zs_zscore member z = hm_get (zs_members z) member"

definition zs_zcard :: "rsorted_set \<Rightarrow> nat" where
  "zs_zcard z = length (zs_members z)"

fun position :: "('a \<Rightarrow> bool) \<Rightarrow> 'a list \<Rightarrow> nat option" where
  "position P [] = None"
| "position P (x # xs) = (if P x then Some 0 else map_option Suc (position P xs))"

definition zs_zrank :: "string \<Rightarrow> rsorted_set \<Rightarrow> nat option" where
  "zs_zrank member z = position (\<lambda>entry. sm_member entry = member) (zs_sorted z)"

definition zs_zrange_with_scores :: "i64 \<Rightarrow> i64 \<Rightarrow> rsorted_set \<Rightarrow> (string \<times> f64) list" where
  "zs_zrange_with_scores start stop z =
     (case resolve_range start stop (length (zs_sorted z)) of
        Some (a, b) \<Rightarrow>
          map (\<lambda>entry. (sm_member entry, sm_score entry)) (take (b - a + 1) (drop a (zs_sorted z)))
      | None \<Rightarrow> [])"

definition zs_zrange_by_score ::
    "f64 \<Rightarrow> bool \<Rightarrow> f64 \<Rightarrow> bool \<Rightarrow> rsorted_set \<Rightarrow> string list" where
  "zs_zrange_by_score min_score min_inclusive max_score max_inclusive z =
     map sm_member
       (filter (\<lambda>entry.
          let score = sm_score entry;
              above_min = (if min_inclusive then f64_le min_score score else f64_lt min_score score);
              below_max = (if max_inclusive then f64_le score max_score else f64_lt score max_score)
          in above_min \<and> below_max) (zs_sorted z))"

definition zs_is_empty :: "rsorted_set \<Rightarrow> bool" where
  "zs_is_empty z \<longleftrightarrow> zs_members z = []"

section \<open>Facts about index arithmetic\<close>

text \<open>The inclusive bounds that \<open>start\<close> and \<open>stop\<close> select in mathematical integers.\<close>

definition range_bounds :: "int \<Rightarrow> int \<Rightarrow> nat \<Rightarrow> int \<times> int" where
  "range_bounds start stop len =
     (max 0 (if start < 0 then start + int len else start),
      min (int len - 1) (if stop < 0 then stop + int len else stop))"

lemma sint_normalize:
  assumes "len < 2 ^ 63"
  shows "sint (if sint index < 0 then index + of_nat len else index :: i64) =
           (if sint index < 0 then sint index + int len else sint index)"
  using assms in_i64_sint [of index]
  by (simp add: sint_plus_i64 sint_of_nat_i64 in_i64_def)

lemma sint_pred_length:
  assumes "len < 2 ^ 63" "0 < len"
  shows "sint (of_nat len - 1 :: i64) = int len - 1"
  using assms sint_of_nat_i64 [of "len - 1"] by (simp add: of_nat_diff)

lemma resolve_range_bounds:
  assumes "len < 2 ^ 63"
  shows "resolve_range start stop len =
           (case range_bounds (sint start) (sint stop) len of
              (lo, hi) \<Rightarrow> if lo \<le> hi then Some (nat lo, nat hi) else None)"
proof (cases "len = 0")
  case True
  then show ?thesis by (simp add: resolve_range_def range_bounds_def)
next
  case False
  define lo' where "lo' = (if sint start < 0 then start + of_nat len else start)"
  define hi' where "hi' = (if sint stop < 0 then stop + of_nat len else stop)"
  define a where "a = (if sint lo' < 0 then 0 else lo')"
  define b where
    "b = (if sint (of_nat len - 1 :: i64) < sint hi' then of_nat len - 1 else hi')"
  obtain lo hi where lh: "range_bounds (sint start) (sint stop) len = (lo, hi)" by fastforce
  have a: "sint a = lo" and b: "sint b = hi"
    using lh sint_normalize [OF assms, of start] sint_normalize [OF assms, of stop]
      sint_pred_length [OF assms] False
    by (auto simp: a_def b_def lo'_def hi'_def range_bounds_def)
  have lo: "0 \<le> lo" and hi: "hi < int len" using lh by (auto simp: range_bounds_def)
  have "resolve_range start stop len =
      (if sint b < sint a \<or> sint (of_nat len :: i64) \<le> sint a then None
       else Some (unat a, unat b))"
    using False
    by (simp only: resolve_range_def Let_def a_def b_def lo'_def hi'_def if_False)
  then show ?thesis
    using lh lo hi assms by (auto simp: unat_i64 a b sint_of_nat_i64)
qed

lemma normalize_index_int:
  assumes "len < 2 ^ 63"
  shows "normalize_index index len =
           (let i = (if sint index < 0 then sint index + int len else sint index)
            in if 0 \<le> i \<and> i < int len then Some (nat i) else None)"
  using assms sint_normalize [OF assms, of index]
  by (auto simp: normalize_index_def Let_def sint_of_nat_i64 unat_i64 split: if_splits)

lemma normalize_index_less:
  "len < 2 ^ 63 \<Longrightarrow> normalize_index index len = Some i \<Longrightarrow> i < len"
  by (auto simp: normalize_index_int Let_def split: if_splits)

lemma resolve_range_whole:
  "len < 2 ^ 63 \<Longrightarrow> resolve_range 0 (- 1) len = (if len = 0 then None else Some (0, len - 1))"
  by (auto simp: resolve_range_bounds range_bounds_def nat_diff_distrib)

lemma rl_lrange_whole: "length l < 2 ^ 63 \<Longrightarrow> rl_lrange 0 (- 1) l = l"
  by (simp add: rl_lrange_def resolve_range_whole)

section \<open>Facts about sorted sets\<close>

text \<open>
  The invariant of \<open>RSortedSet\<close>: the map has one score per member, the tree is strictly
  ascending, and both indexes hold the same (member, score) pairs.
\<close>

definition zset_inv :: "float_order \<Rightarrow> rsorted_set \<Rightarrow> bool" where
  "zset_inv fo z \<longleftrightarrow>
     hm_wf (zs_members z) \<and>
     sorted_wrt (\<lambda>a b. smember_cmp fo a b = Less) (zs_sorted z) \<and>
     set (map (\<lambda>e. (sm_member e, sm_score e)) (zs_sorted z)) = set (zs_members z)"

lemma then_with_simps [simp]:
  "then_with a b = Equal \<longleftrightarrow> a = Equal \<and> b = Equal"
  "then_with a b = Less \<longleftrightarrow> a = Less \<or> a = Equal \<and> b = Less"
  "reverse_ordering (then_with a b) = then_with (reverse_ordering a) (reverse_ordering b)"
  by (cases a; simp)+

sublocale ordered_float \<subseteq> smem: total_cmp "smember_cmp fo"
proof (unfold_locales, goal_cases)
  case (1 x)
  then show ?case by (simp add: smember_cmp_def score.cmp_refl)
next
  case (2 y x)
  then show ?case
    by (simp add: smember_cmp_def score.cmp_reverse [of _ "sm_score x"]
        linorder_cmp.cmp_reverse [of _ "sm_member x"])
next
  case (3 x y z)
  then show ?case
    using score.cmp_equal [of "sm_score x" "sm_score y" "sm_score z"]
      score.cmp_equal_right [of "sm_score y" "sm_score z" "sm_score x"]
      score.cmp_trans [of "sm_score x" "sm_score y" "sm_score z"]
    by (auto simp: smember_cmp_def)
next
  case (4 x y z)
  then show ?case
    using score.cmp_equal [of "sm_score x" "sm_score y" "sm_score z"]
    by (auto simp: smember_cmp_def)
qed

lemma zset_inv_new: "zset_inv fo zset_new"
  by (simp add: zset_inv_def zset_new_def)

lemma zset_inv_wf: "zset_inv fo z \<Longrightarrow> hm_wf (zs_members z)"
  by (simp add: zset_inv_def)

lemma inj_entry_pair: "inj (\<lambda>e :: sorted_member. (sm_member e, sm_score e))"
  by (auto intro: injI)

lemma entry_pair_mem:
  "(sm_member e, sm_score e) \<in> set (map (\<lambda>e. (sm_member e, sm_score e)) (xs :: sorted_member list)) \<longleftrightarrow> e \<in> set xs"
  using inj_image_mem_iff [OF inj_entry_pair, of e "set xs"] by simp

lemma zset_inv_sorted_iff:
  "zset_inv fo z \<Longrightarrow>
     e \<in> set (zs_sorted z) \<longleftrightarrow> hm_get (zs_members z) (sm_member e) = Some (sm_score e)"
  by (simp add: zset_inv_def entry_pair_mem [symmetric, of e "zs_sorted z"] map_of_eq_Some_iff
      del: set_map)

lemma zset_invI:
  assumes "hm_wf (zs_members z)" "sorted_wrt (\<lambda>a b. smember_cmp fo a b = Less) (zs_sorted z)"
    and iff: "\<And>e. e \<in> set (zs_sorted z) \<longleftrightarrow>
      hm_get (zs_members z) (sm_member e) = Some (sm_score e)"
  shows "zset_inv fo z"
proof -
  have "p \<in> set (map (\<lambda>e. (sm_member e, sm_score e)) (zs_sorted z)) \<longleftrightarrow>
      p \<in> set (zs_members z)" for p
    using iff [of "\<lparr>sm_member = fst p, sm_score = snd p\<rparr>"] assms(1)
      entry_pair_mem [of "\<lparr>sm_member = fst p, sm_score = snd p\<rparr>" "zs_sorted z"]
    by (simp add: map_of_eq_Some_iff)
  then show ?thesis using assms(1,2) unfolding zset_inv_def by blast
qed

context ordered_float
begin

lemma smember_equal_iff:
  "smember_cmp fo a b = Equal \<longleftrightarrow>
     of_cmp fo (sm_score a) (sm_score b) = Equal \<and> sm_member a = sm_member b"
  by (simp add: smember_cmp_def)

lemma set_remove_entry:
  assumes "zset_inv fo z" "hm_get (zs_members z) m = Some s"
  shows "set (bt_remove (smember_cmp fo) \<lparr>sm_member = m, sm_score = s\<rparr> (zs_sorted z)) =
           {e \<in> set (zs_sorted z). sm_member e \<noteq> m}"
    and "sorted_wrt (\<lambda>a b. smember_cmp fo a b = Less)
           (bt_remove (smember_cmp fo) \<lparr>sm_member = m, sm_score = s\<rparr> (zs_sorted z))"
proof -
  have asc: "smem.ascending (zs_sorted z)"
    using assms(1) by (simp add: zset_inv_def smem.ascending_def)
  show "set (bt_remove (smember_cmp fo) \<lparr>sm_member = m, sm_score = s\<rparr> (zs_sorted z)) =
           {e \<in> set (zs_sorted z). sm_member e \<noteq> m}"
    using assms(2) score.cmp_refl
    by (auto simp: smem.set_bt_remove [OF asc] smember_equal_iff
        zset_inv_sorted_iff [OF assms(1)])
  show "sorted_wrt (\<lambda>a b. smember_cmp fo a b = Less)
      (bt_remove (smember_cmp fo) \<lparr>sm_member = m, sm_score = s\<rparr> (zs_sorted z))"
    using smem.ascending_bt_remove [OF asc] by (simp add: smem.ascending_def)
qed

lemma insert_fresh_entry:
  assumes "sorted_wrt (\<lambda>a b. smember_cmp fo a b = Less) xs" "\<forall>e \<in> set xs. sm_member e \<noteq> m"
  shows "set (bt_insert (smember_cmp fo) \<lparr>sm_member = m, sm_score = s\<rparr> xs) =
           insert \<lparr>sm_member = m, sm_score = s\<rparr> (set xs)"
    and "sorted_wrt (\<lambda>a b. smember_cmp fo a b = Less)
           (bt_insert (smember_cmp fo) \<lparr>sm_member = m, sm_score = s\<rparr> xs)"
proof -
  have asc: "smem.ascending xs" using assms(1) by (simp add: smem.ascending_def)
  show "set (bt_insert (smember_cmp fo) \<lparr>sm_member = m, sm_score = s\<rparr> xs) =
           insert \<lparr>sm_member = m, sm_score = s\<rparr> (set xs)"
    using assms(2) by (auto simp: smem.set_bt_insert [OF asc] smember_equal_iff)
  show "sorted_wrt (\<lambda>a b. smember_cmp fo a b = Less)
      (bt_insert (smember_cmp fo) \<lparr>sm_member = m, sm_score = s\<rparr> xs)"
    using smem.ascending_bt_insert [OF asc] by (simp add: smem.ascending_def)
qed

lemma zset_inv_put:
  assumes "zset_inv fo z" and srt: "sorted_wrt (\<lambda>a b. smember_cmp fo a b = Less) xs"
    and xs: "set xs = {e \<in> set (zs_sorted z). sm_member e \<noteq> m}"
  shows "zset_inv fo (z\<lparr>
           zs_sorted := bt_insert (smember_cmp fo) \<lparr>sm_member = m, sm_score = s\<rparr> xs,
           zs_members := hm_insert m s (zs_members z)\<rparr>)"
proof (rule zset_invI, goal_cases)
  case 1
  then show ?case using assms(1) by (simp add: zset_inv_def distinct_update)
next
  case 2
  then show ?case using insert_fresh_entry(2) [OF srt] xs by simp
next
  case (3 e)
  have "e = \<lparr>sm_member = m, sm_score = s\<rparr> \<longleftrightarrow> sm_member e = m \<and> sm_score e = s"
    by (auto intro: sorted_member.equality)
  then show ?case
    using insert_fresh_entry(1) [OF srt, of m s] xs
    by (auto simp: zset_inv_sorted_iff [OF assms(1)])
qed

lemma zset_inv_zadd:
  assumes "zset_inv fo z"
  shows "zset_inv fo (snd (zs_zadd fo s m z))"
proof (cases "hm_get (zs_members z) m")
  case None
  then have "{e \<in> set (zs_sorted z). sm_member e \<noteq> m} = set (zs_sorted z)"
    by (auto simp: zset_inv_sorted_iff [OF assms])
  then show ?thesis
    using None assms zset_inv_put [OF assms, of "zs_sorted z"]
    by (simp add: zs_zadd_def Let_def zset_inv_def)
next
  case (Some old)
  then show ?thesis
    using assms zset_inv_put [OF assms set_remove_entry(2) [OF assms Some]
        set_remove_entry(1) [OF assms Some]]
    by (simp add: zs_zadd_def Let_def)
qed

lemma zset_inv_zrem:
  assumes "zset_inv fo z"
  shows "zset_inv fo (snd (zs_zrem fo m z))"
proof (cases "hm_get (zs_members z) m")
  case None
  with assms show ?thesis by (simp add: zs_zrem_def)
next
  case (Some s)
  show ?thesis
  proof (rule zset_invI, goal_cases)
    case 1
    then show ?case using assms Some by (auto simp: zs_zrem_def zset_inv_def)
  next
    case 2
    then show ?case using set_remove_entry(2) [OF assms Some] Some by (simp add: zs_zrem_def)
  next
    case (3 e)
    then show ?case
      using set_remove_entry(1) [OF assms Some] Some
      by (auto simp: zs_zrem_def zset_inv_sorted_iff [OF assms])
  qed
qed

lemma zset_sorted_unique:
  assumes "zset_inv fo z" "zset_inv fo z'"
    and "hm_get (zs_members z) = hm_get (zs_members z')"
  shows "zs_sorted z = zs_sorted z'"
proof -
  have "set (zs_sorted z) = set (zs_sorted z')"
    using zset_inv_sorted_iff [OF assms(1)] zset_inv_sorted_iff [OF assms(2)] assms(3) by auto
  then show ?thesis
    using assms(1,2) smem.ascending_unique by (simp add: zset_inv_def smem.ascending_def)
qed

end

end
