(* ===== verification/Db_Base.thy ===== *)
theory Db_Base
  imports Data_Structure
begin

text \<open>
  The store of \<open>src/src/database/db.rs\<close>: its errors, values and entries, deadlines, and the
  accessors that every operation is built from.  An \<open>Instant\<close> is a \<open>nat\<close> of nanoseconds; an
  operation reads the clock once, as its argument \<open>now\<close>, because it runs under one lock.  An
  operation on the store returns its result together with the new store.

  The abstraction is \<open>live now store\<close>, the keys a client can observe at time \<open>now\<close>: what an
  expired entry holds, and whether it has been evicted yet, is not observable.  The
  collection \<open>live_simps\<close> rewrites every accessor to its effect on \<open>live\<close>.
\<close>

named_theorems live_simps \<open>the effect of the store accessors on the live keys\<close>
named_theorems store_wf_intros \<open>preservation of the store's well-formedness\<close>

section \<open>Errors, values and entries\<close>

datatype store_error =
    WrongType | NotAnInteger | NotAHashInteger | Overflow | NoSuchKey | IndexOutOfRange | ScoreNaN

fun store_error_string :: "store_error \<Rightarrow> string" where
  "store_error_string WrongType =
     ''WRONGTYPE Operation against a key holding the wrong kind of value''"
| "store_error_string NotAnInteger = ''ERR value is not an integer or out of range''"
| "store_error_string NotAHashInteger = ''ERR hash value is not an integer''"
| "store_error_string Overflow = ''ERR increment or decrement would overflow''"
| "store_error_string NoSuchKey = ''ERR no such key''"
| "store_error_string IndexOutOfRange = ''ERR index out of range''"
| "store_error_string ScoreNaN = ''ERR resulting score is not a number (NaN)''"

datatype db_value =
    VStr string | VList rlist | VSet rset | VSortedSet rsorted_set | VHash rhash

record entry =
  en_value :: db_value
  en_expires_at :: "nat option"

type_synonym store = "(string, entry) hash_map"

section \<open>Deadlines\<close>

definition is_expired :: "nat \<Rightarrow> entry \<Rightarrow> bool" where
  "is_expired now e \<longleftrightarrow> (case en_expires_at e of Some deadline \<Rightarrow> deadline \<le> now | None \<Rightarrow> False)"

definition nanos :: nat where
  "nanos = 1000000000"

text \<open>\<open>Instant::checked_add\<close> fails when the seconds no longer fit in an \<open>i64\<close>.\<close>

definition deadline_after :: "nat \<Rightarrow> nat \<Rightarrow> nat option" where
  "deadline_after now seconds =
     (if now div nanos + seconds < 2 ^ 63 then Some (now + seconds * nanos) else None)"

section \<open>Store accessors\<close>

definition evict :: "nat \<Rightarrow> string \<Rightarrow> store \<Rightarrow> store" where
  "evict now key s =
     (case hm_get s key of
        Some e \<Rightarrow> (if is_expired now e then hm_remove key s else s)
      | None \<Rightarrow> s)"

definition live_entry :: "nat \<Rightarrow> string \<Rightarrow> store \<Rightarrow> entry option \<times> store" where
  "live_entry now key s =
     (case hm_get s key of
        Some e \<Rightarrow> (if is_expired now e then (None, hm_remove key s) else (Some e, s))
      | None \<Rightarrow> (None, s))"

text \<open>Writing through the reference that an accessor returned.\<close>

definition write_value :: "string \<Rightarrow> db_value \<Rightarrow> store \<Rightarrow> store" where
  "write_value key v s =
     (case hm_get s key of
        Some e \<Rightarrow> hm_insert key (e\<lparr>en_value := v\<rparr>) s
      | None \<Rightarrow> s)"

text \<open>
  The macro \<open>entry_accessor!\<close>: \<open>unwrap\<close> is the pattern of the variant and \<open>fresh\<close> the
  value \<open>Value::$variant(<$inner>::new())\<close>.
\<close>

definition or_create ::
    "(db_value \<Rightarrow> 'c option) \<Rightarrow> db_value \<Rightarrow> nat \<Rightarrow> string \<Rightarrow> store \<Rightarrow> (store_error + 'c) \<times> store" where
  "or_create unwrap fresh now key s =
     (let s1 = evict now key s;
          e = (case hm_get s1 key of
                 Some e \<Rightarrow> e | None \<Rightarrow> \<lparr>en_value = fresh, en_expires_at = None\<rparr>);
          s2 = hm_insert key e s1
      in case unwrap (en_value e) of
           Some inner \<Rightarrow> (Inr inner, s2)
         | None \<Rightarrow> (Inl WrongType, s2))"

fun as_str :: "db_value \<Rightarrow> string option" where
  "as_str (VStr v) = Some v" | "as_str _ = None"

fun as_list :: "db_value \<Rightarrow> rlist option" where
  "as_list (VList l) = Some l" | "as_list _ = None"

fun as_set :: "db_value \<Rightarrow> rset option" where
  "as_set (VSet x) = Some x" | "as_set _ = None"

fun as_zset :: "db_value \<Rightarrow> rsorted_set option" where
  "as_zset (VSortedSet z) = Some z" | "as_zset _ = None"

fun as_hash :: "db_value \<Rightarrow> rhash option" where
  "as_hash (VHash h) = Some h" | "as_hash _ = None"

definition list_or_create :: "nat \<Rightarrow> string \<Rightarrow> store \<Rightarrow> (store_error + rlist) \<times> store" where
  "list_or_create = or_create as_list (VList rlist_new)"

definition set_or_create :: "nat \<Rightarrow> string \<Rightarrow> store \<Rightarrow> (store_error + rset) \<times> store" where
  "set_or_create = or_create as_set (VSet rset_new)"

definition sorted_set_or_create :: "nat \<Rightarrow> string \<Rightarrow> store \<Rightarrow> (store_error + rsorted_set) \<times> store" where
  "sorted_set_or_create = or_create as_zset (VSortedSet zset_new)"

definition hash_or_create :: "nat \<Rightarrow> string \<Rightarrow> store \<Rightarrow> (store_error + rhash) \<times> store" where
  "hash_or_create = or_create as_hash (VHash rhash_new)"

text \<open>
  \<open>Database::read_entry\<close>: a live entry is read under the read lock; an expired one is evicted
  under the write lock and reported absent.
\<close>

definition read_entry :: "nat \<Rightarrow> string \<Rightarrow> 'r \<Rightarrow> (entry \<Rightarrow> 'r) \<Rightarrow> store \<Rightarrow> 'r \<times> store" where
  "read_entry now key absent read s =
     (case hm_get s key of
        Some e \<Rightarrow> (if \<not> is_expired now e then (read e, s) else (absent, evict now key s))
      | None \<Rightarrow> (absent, s))"

text \<open>
  The shape of \<open>pop\<close>, \<open>srem\<close>, \<open>spop\<close>, \<open>zrem\<close> and \<open>hdel\<close>: change the collection of a
  live key, and drop the key once the collection is empty.
\<close>

definition shrink ::
    "(db_value \<Rightarrow> 'c option) \<Rightarrow> ('c \<Rightarrow> db_value) \<Rightarrow> ('c \<Rightarrow> bool) \<Rightarrow> ('c \<Rightarrow> 'r \<times> 'c) \<Rightarrow> 'r \<Rightarrow>
     nat \<Rightarrow> string \<Rightarrow> store \<Rightarrow> (store_error + 'r) \<times> store" where
  "shrink unwrap wrap is_empty take_op absent now key s =
     (case live_entry now key s of
        (None, s1) \<Rightarrow> (Inr absent, s1)
      | (Some e, s1) \<Rightarrow>
          (case unwrap (en_value e) of
             None \<Rightarrow> (Inl WrongType, s1)
           | Some inner \<Rightarrow>
               (let (result, inner') = take_op inner;
                    s2 = write_value key (wrap inner') s1
                in (Inr result, if is_empty inner' then hm_remove key s2 else s2))))"

text \<open>
  The shape of the writers that create their key: \<open>let inner = ..._or_create(store, key)?\<close>, then
  an update of \<open>inner\<close> that may itself fail.
\<close>

definition grow ::
    "(nat \<Rightarrow> string \<Rightarrow> store \<Rightarrow> (store_error + 'c) \<times> store) \<Rightarrow> ('c \<Rightarrow> db_value) \<Rightarrow>
     ('c \<Rightarrow> store_error + 'r \<times> 'c) \<Rightarrow>
     nat \<Rightarrow> string \<Rightarrow> store \<Rightarrow> (store_error + 'r) \<times> store" where
  "grow accessor wrap update now key s =
     (case accessor now key s of
        (Inl err, s1) \<Rightarrow> (Inl err, s1)
      | (Inr inner, s1) \<Rightarrow>
          (case update inner of
             Inl err \<Rightarrow> (Inl err, s1)
           | Inr (result, inner') \<Rightarrow> (Inr result, write_value key (wrap inner') s1)))"

section \<open>The live keys\<close>

definition live :: "nat \<Rightarrow> store \<Rightarrow> string \<Rightarrow> entry option" where
  "live now s key =
     (case hm_get s key of Some e \<Rightarrow> (if is_expired now e then None else Some e) | None \<Rightarrow> None)"

lemma live_Nil [live_simps]: "live now [] = Map.empty"
  by (simp add: live_def fun_eq_iff)

lemma live_insert [live_simps]:
  "live now (hm_insert k e s) =
     (live now s)(k := if is_expired now e then None else Some e)"
  by (simp add: live_def fun_eq_iff)

lemma live_remove [live_simps]: "live now (hm_remove k s) = (live now s)(k := None)"
  by (simp add: live_def fun_eq_iff)

lemma live_Some_iff: "live now s k = Some e \<longleftrightarrow> hm_get s k = Some e \<and> \<not> is_expired now e"
  by (auto simp: live_def split: option.splits if_splits)

lemma live_None_iff: "live now s k = None \<longleftrightarrow> (\<forall>e. hm_get s k = Some e \<longrightarrow> is_expired now e)"
  by (auto simp: live_def split: option.splits if_splits)

lemma live_evict [live_simps]: "live now (evict now k s) = live now s"
  by (auto simp: evict_def live_def fun_eq_iff split: option.splits)

lemma get_evict_same: "hm_get (evict now k s) k = live now s k"
  by (auto simp: evict_def live_def split: option.splits)

lemma fst_live_entry [live_simps]: "fst (live_entry now k s) = live now s k"
  by (auto simp: live_entry_def live_def split: option.splits)

lemma snd_live_entry: "snd (live_entry now k s) = evict now k s"
  by (auto simp: live_entry_def evict_def split: option.splits)

lemma live_entry_eq: "live_entry now k s = (live now s k, evict now k s)"
  by (simp add: prod_eq_iff fst_live_entry snd_live_entry)

lemma fst_read_entry [live_simps]:
  "fst (read_entry now k absent read s) =
     (case live now s k of Some e \<Rightarrow> read e | None \<Rightarrow> absent)"
  by (auto simp: read_entry_def live_def split: option.splits)

lemma snd_read_entry: "snd (read_entry now k absent read s) = evict now k s"
  by (auto simp: read_entry_def evict_def split: option.splits)

lemma live_read_entry [live_simps]:
  "live now (snd (read_entry now k absent read s)) = live now s"
  by (simp add: snd_read_entry live_evict)

lemma live_write_value [live_simps]:
  "live now (write_value k v s) =
     (live now s)(k := map_option (\<lambda>e. e\<lparr>en_value := v\<rparr>) (live now s k))"
  by (auto simp: write_value_def live_insert fun_eq_iff is_expired_def live_def
      split: option.splits)

text \<open>
  One contract for the four collection types (and strings): the variant's constructor and its
  pattern.  The clients' lemmas about the two shared shapes are proved once here.
\<close>

locale value_variant =
  fixes wrap :: "'c \<Rightarrow> db_value"
    and unwrap :: "db_value \<Rightarrow> 'c option"
  assumes unwrap_wrap: "unwrap (wrap c) = Some c"
    and unwrap_Some: "unwrap v = Some c \<Longrightarrow> v = wrap c"
begin

lemma unwrap_iff: "unwrap v = Some c \<longleftrightarrow> v = wrap c"
  using unwrap_wrap unwrap_Some by blast

lemma fst_or_create:
  "fst (or_create unwrap (wrap c0) now k s) =
     (case live now s k of
        None \<Rightarrow> Inr c0
      | Some e \<Rightarrow> (case unwrap (en_value e) of Some c \<Rightarrow> Inr c | None \<Rightarrow> Inl WrongType))"
  by (simp add: or_create_def Let_def get_evict_same unwrap_wrap split: option.splits)

lemma live_or_create:
  "live now (snd (or_create unwrap (wrap c0) now k s)) =
     (case live now s k of
        None \<Rightarrow> (live now s)(k \<mapsto> \<lparr>en_value = wrap c0, en_expires_at = None\<rparr>)
      | Some e \<Rightarrow> live now s)"
proof (cases "live now s k")
  case None
  then show ?thesis
    by (simp add: or_create_def Let_def get_evict_same live_insert live_evict unwrap_wrap
        is_expired_def)
next
  case (Some e)
  then have "hm_insert k e (evict now k s) = evict now k s"
    by (simp add: update_triv get_evict_same)
  with Some show ?thesis
    by (simp add: or_create_def Let_def get_evict_same live_evict split: option.splits)
qed

lemma fst_shrink:
  "fst (shrink unwrap wrap is_emp f absent now k s) =
     (case live now s k of
        None \<Rightarrow> Inr absent
      | Some e \<Rightarrow>
          (case unwrap (en_value e) of None \<Rightarrow> Inl WrongType | Some c \<Rightarrow> Inr (fst (f c))))"
  by (simp add: shrink_def live_entry_eq Let_def split: option.splits prod.splits)

lemma live_shrink:
  "live now (snd (shrink unwrap wrap is_emp f absent now k s)) =
     (case live now s k of
        None \<Rightarrow> live now s
      | Some e \<Rightarrow>
          (case unwrap (en_value e) of
             None \<Rightarrow> live now s
           | Some c \<Rightarrow>
               (live now s)(k := if is_emp (snd (f c)) then None
                                 else Some (e\<lparr>en_value := wrap (snd (f c))\<rparr>))))"
  by (simp add: shrink_def live_entry_eq Let_def live_evict live_remove live_write_value
      split: option.splits prod.splits)

lemma fst_grow:
  "fst (grow (or_create unwrap (wrap c0)) wrap f now k s) =
     (case live now s k of
        None \<Rightarrow> (case f c0 of Inl err \<Rightarrow> Inl err | Inr (r, c') \<Rightarrow> Inr r)
      | Some e \<Rightarrow>
          (case unwrap (en_value e) of
             None \<Rightarrow> Inl WrongType
           | Some c \<Rightarrow> (case f c of Inl err \<Rightarrow> Inl err | Inr (r, c') \<Rightarrow> Inr r)))"
proof -
  obtain r s1 where rs: "or_create unwrap (wrap c0) now k s = (r, s1)" by fastforce
  then show ?thesis
    using fst_or_create [of c0 now k s]
    by (auto simp: grow_def rs split: option.splits sum.splits prod.splits)
qed

lemma live_grow:
  "live now (snd (grow (or_create unwrap (wrap c0)) wrap f now k s)) =
     (case live now s k of
        None \<Rightarrow>
          (live now s)(k \<mapsto> \<lparr>en_value = wrap (case f c0 of Inl _ \<Rightarrow> c0 | Inr (r, c') \<Rightarrow> c'),
                             en_expires_at = None\<rparr>)
      | Some e \<Rightarrow>
          (case unwrap (en_value e) of
             None \<Rightarrow> live now s
           | Some c \<Rightarrow>
               (case f c of
                  Inl _ \<Rightarrow> live now s
                | Inr (r, c') \<Rightarrow> (live now s)(k \<mapsto> e\<lparr>en_value := wrap c'\<rparr>))))"
proof -
  obtain r s1 where rs: "or_create unwrap (wrap c0) now k s = (r, s1)" by fastforce
  then show ?thesis
    using fst_or_create [of c0 now k s] live_or_create [of now c0 k s]
    by (auto simp: grow_def rs live_write_value split: option.splits sum.splits prod.splits)
qed

end

interpretation str_variant: value_variant VStr as_str
  by unfold_locales (auto elim: as_str.elims)

interpretation list_variant: value_variant VList as_list
  by unfold_locales (auto elim: as_list.elims)

interpretation set_variant: value_variant VSet as_set
  by unfold_locales (auto elim: as_set.elims)

interpretation zset_variant: value_variant VSortedSet as_zset
  by unfold_locales (auto elim: as_zset.elims)

interpretation hash_variant: value_variant VHash as_hash
  by unfold_locales (auto elim: as_hash.elims)

lemmas as_iffs = str_variant.unwrap_iff list_variant.unwrap_iff set_variant.unwrap_iff
  zset_variant.unwrap_iff hash_variant.unwrap_iff

lemmas variant_simps =
  str_variant.fst_grow str_variant.live_grow
  list_variant.fst_grow list_variant.live_grow list_variant.fst_shrink list_variant.live_shrink
  set_variant.fst_grow set_variant.live_grow set_variant.fst_shrink set_variant.live_shrink
  zset_variant.fst_grow zset_variant.live_grow zset_variant.fst_shrink zset_variant.live_shrink
  hash_variant.fst_grow hash_variant.live_grow hash_variant.fst_shrink hash_variant.live_shrink

section \<open>Invariants of stored values\<close>

text \<open>
  \<open>store_all P s\<close>: the keys are distinct and every stored value satisfies \<open>P\<close>.  Two
  instances matter: the representation invariant of each collection, and that no empty
  collection is ever stored.
\<close>

definition store_all :: "(db_value \<Rightarrow> bool) \<Rightarrow> store \<Rightarrow> bool" where
  "store_all P s \<longleftrightarrow> hm_wf s \<and> (\<forall>(k, e) \<in> set s. P (en_value e))"

fun value_wf :: "float_order \<Rightarrow> db_value \<Rightarrow> bool" where
  "value_wf fo (VSet x) = distinct x"
| "value_wf fo (VSortedSet z) = zset_inv fo z"
| "value_wf fo (VHash h) = hm_wf h"
| "value_wf fo _ = True"

fun value_nonempty :: "db_value \<Rightarrow> bool" where
  "value_nonempty (VList l) = (l \<noteq> [])"
| "value_nonempty (VSet x) = (x \<noteq> [])"
| "value_nonempty (VSortedSet z) = (zs_members z \<noteq> [])"
| "value_nonempty (VHash h) = (h \<noteq> [])"
| "value_nonempty (VStr _) = True"

lemma store_all_alt:
  "store_all P s \<longleftrightarrow> hm_wf s \<and> (\<forall>k e. hm_get s k = Some e \<longrightarrow> P (en_value e))"
  by (auto simp: store_all_def dest: map_of_SomeD map_of_is_SomeI)

lemma store_allD: "store_all P s \<Longrightarrow> hm_get s k = Some e \<Longrightarrow> P (en_value e)"
  by (simp add: store_all_alt)

lemma store_all_live: "store_all P s \<Longrightarrow> live now s k = Some e \<Longrightarrow> P (en_value e)"
  by (auto simp: live_Some_iff dest: store_allD)

lemma store_all_Nil [store_wf_intros]: "store_all P []"
  by (simp add: store_all_def)

lemma store_all_insert [store_wf_intros]:
  "store_all P s \<Longrightarrow> P (en_value e) \<Longrightarrow> store_all P (hm_insert k e s)"
  by (simp add: store_all_alt distinct_update)

lemma store_all_remove [store_wf_intros]: "store_all P s \<Longrightarrow> store_all P (hm_remove k s)"
  by (simp add: store_all_alt hash_map.invar_del)

lemma store_all_filter [store_wf_intros]: "store_all P s \<Longrightarrow> store_all P (filter Q s)"
  by (auto simp: store_all_def)

lemma store_all_evict [store_wf_intros]: "store_all P s \<Longrightarrow> store_all P (evict now k s)"
  by (auto simp: evict_def intro: store_all_remove split: option.splits)

lemma store_all_read_entry [store_wf_intros]:
  "store_all P s \<Longrightarrow> store_all P (snd (read_entry now k absent read s))"
  by (simp add: snd_read_entry store_all_evict)

lemma store_all_write_value:
  "store_all P s \<Longrightarrow> P v \<Longrightarrow> store_all P (write_value k v s)"
  by (auto simp: write_value_def intro: store_all_insert split: option.splits)

lemma remove_write_value: "hm_remove k (write_value k v s) = hm_remove k s"
  by (simp add: write_value_def delete_update_same split: option.splits)

text \<open>
  A shrinking writer keeps the invariant when its update does so on the values it keeps; a
  growing writer when the collection it creates is filled before it returns.
\<close>

lemma store_all_shrink:
  assumes "store_all P s"
    and "\<And>v c. P v \<Longrightarrow> unwrap v = Some c \<Longrightarrow> \<not> is_emp (snd (f c)) \<Longrightarrow> P (wrap (snd (f c)))"
  shows "store_all P (snd (shrink unwrap wrap is_emp f absent now k s))"
proof (cases "live now s k")
  case None
  with assms show ?thesis by (simp add: shrink_def live_entry_eq store_all_evict)
next
  case (Some e)
  have ev: "store_all P (evict now k s)" using assms(1) by (rule store_all_evict)
  show ?thesis
  proof (cases "unwrap (en_value e)")
    case None
    with Some ev show ?thesis by (simp add: shrink_def live_entry_eq)
  next
    case u: (Some c)
    obtain r c' where fc: "f c = (r, c')" by fastforce
    have "P (wrap c')" if "\<not> is_emp c'"
      using assms(2) [OF store_all_live [OF assms(1) Some] u] that by (simp add: fc)
    moreover have "store_all P (hm_remove k (write_value k (wrap c') (evict now k s)))"
      using ev by (simp add: remove_write_value store_all_remove)
    ultimately show ?thesis
      using Some u fc ev by (simp add: shrink_def live_entry_eq Let_def store_all_write_value)
  qed
qed

lemma store_all_grow:
  assumes "store_all P s" and unwrap_wrap: "\<And>c. unwrap (wrap c) = Some c"
    and new: "\<And>err. f c0 = Inl err \<Longrightarrow> P (wrap c0)"
    and step: "\<And>c r c'. c = c0 \<or> P (wrap c) \<Longrightarrow> f c = Inr (r, c') \<Longrightarrow> P (wrap c')"
    and unwrap_Some: "\<And>v c. unwrap v = Some c \<Longrightarrow> v = wrap c"
  shows "store_all P (snd (grow (or_create unwrap (wrap c0)) wrap f now k s))"
proof -
  let ?s = "evict now k s"
  have ev: "store_all P ?s" using assms(1) by (rule store_all_evict)
  show ?thesis
  proof (cases "live now s k")
    case None
    let ?e = "\<lparr>en_value = wrap c0, en_expires_at = None\<rparr>"
    have oc: "or_create unwrap (wrap c0) now k s = (Inr c0, hm_insert k ?e ?s)"
      by (simp add: or_create_def Let_def get_evict_same None unwrap_wrap)
    have "write_value k (wrap c') (hm_insert k ?e ?s) = hm_insert k (?e\<lparr>en_value := wrap c'\<rparr>) ?s"
      for c' by (simp add: write_value_def update_last)
    then show ?thesis
      using new step [of c0] ev
      by (auto simp: grow_def oc store_all_insert split: sum.splits prod.splits)
  next
    case (Some e)
    have ins: "hm_insert k e ?s = ?s" by (simp add: update_triv get_evict_same Some)
    have Pe: "P (en_value e)" by (rule store_all_live [OF assms(1) Some])
    show ?thesis
    proof (cases "unwrap (en_value e)")
      case None
      then show ?thesis
        using Some ev by (simp add: grow_def or_create_def Let_def get_evict_same ins)
    next
      case u: (Some c)
      then have "P (wrap c)" using Pe unwrap_Some [OF u] by simp
      then show ?thesis
        using Some ev step [of c]
        by (auto simp: grow_def or_create_def Let_def get_evict_same ins u store_all_write_value
            split: sum.splits)
    qed
  qed
qed

end
