(* ===== verification/Glob.thy ===== *)
theory Glob
  imports Prelude
begin

text \<open>
  The glob matcher of \<open>KEYS\<close> (\<open>glob_match\<close>, \<open>glob_match_bytes\<close> and \<open>match_class\<close> of
  \<open>src/src/database/db.rs\<close>), with the loops of the source, its termination, and its
  equivalence with the declarative meaning of a pattern, the inductive relation \<open>matches\<close>,
  which has its own reading of the classes (\<open>class_denotes\<close>).
\<close>

section \<open>The matcher\<close>

function class_loop :: "string \<Rightarrow> char \<Rightarrow> nat \<Rightarrow> bool \<Rightarrow> bool \<times> nat" where
  "class_loop cls ch i matched =
     (if i < length cls \<and> cls ! i \<noteq> CHR '']'' then
        if cls ! i = CHR 0x5C \<and> i + 1 < length cls then
          class_loop cls ch (i + 2) (matched \<or> cls ! (i + 1) = ch)
        else if i + 2 < length cls \<and> cls ! (i + 1) = CHR ''-'' \<and> cls ! (i + 2) \<noteq> CHR '']'' then
          (let lo = min (cls ! i) (cls ! (i + 2)); hi = max (cls ! i) (cls ! (i + 2))
           in class_loop cls ch (i + 3) (matched \<or> (lo \<le> ch \<and> ch \<le> hi)))
        else class_loop cls ch (i + 1) (matched \<or> cls ! i = ch)
      else (matched, i))"
  by pat_completeness auto
termination
  by (relation "measure (\<lambda>(cls, ch, i, matched). length cls - i)") auto

declare class_loop.simps [simp del]

definition match_class :: "string \<Rightarrow> char \<Rightarrow> bool \<times> nat" where
  "match_class cls ch =
     (let negate = (case cls of [] \<Rightarrow> False | c # _ \<Rightarrow> c = CHR ''^'' \<or> c = CHR ''!'');
          (matched, i) = class_loop cls ch (if negate then 1 else 0) False;
          consumed = (if i < length cls then i + 1 else i)
      in (matched \<noteq> negate, consumed))"

function (sequential) glob_match_bytes :: "string \<Rightarrow> string \<Rightarrow> bool"
  and glob_star :: "string \<Rightarrow> string \<Rightarrow> bool" where
  "glob_match_bytes [] str = (str = [])"
| "glob_match_bytes (token # rest) str =
     (if token = CHR ''*'' then
        (let tail_pattern = dropWhile (\<lambda>c. c = CHR ''*'') rest
         in if tail_pattern = [] then True else glob_star tail_pattern str)
      else if token = CHR ''?'' then
        (case str of [] \<Rightarrow> False | _ # next \<Rightarrow> glob_match_bytes rest next)
      else if token = CHR ''['' then
        (case str of
           [] \<Rightarrow> False
         | ch # next \<Rightarrow>
             (if fst (match_class rest ch)
              then glob_match_bytes (drop (snd (match_class rest ch)) rest) next else False))
      else if token = CHR 0x5C then
        (case rest of
           literal # next_pattern \<Rightarrow>
             (case str of
                [] \<Rightarrow> False
              | ch # next \<Rightarrow> (if ch = literal then glob_match_bytes next_pattern next else False))
         | [] \<Rightarrow>
             (case str of
                [] \<Rightarrow> False
              | ch # next \<Rightarrow> (if ch = CHR 0x5C then glob_match_bytes [] next else False)))
      else
        (case str of
           [] \<Rightarrow> False
         | ch # next \<Rightarrow> (if ch = token then glob_match_bytes rest next else False)))"
| "glob_star tail_pattern tail_text =
     (if glob_match_bytes tail_pattern tail_text then True
      else case tail_text of [] \<Rightarrow> False | _ # next \<Rightarrow> glob_star tail_pattern next)"
  by pat_completeness auto
termination
proof (relation "inv_image (less_than <*lex*> less_than <*lex*> less_than)
    (case_sum (\<lambda>(p, t). (length p, 0, length t)) (\<lambda>(p, t). (length p, 1, length t)))",
    goal_cases)
  case 1
  then show ?case by (intro wf_inv_image wf_lex_prod wf_less_than)
next
  case (2 token rest str x)
  then show ?case by (auto simp: length_dropWhile_le less_Suc_eq_le)
qed (auto simp: less_Suc_eq_le)

declare glob_match_bytes.simps [simp del] glob_star.simps [simp del]

definition glob_match :: "string \<Rightarrow> string \<Rightarrow> bool" where
  "glob_match pattern str = glob_match_bytes pattern str"

section \<open>What a pattern means\<close>

text \<open>A class is written as a sequence of single bytes and ranges up to the closing bracket, or to the end of
  the pattern when there is none; a backslash makes the byte after it an ordinary one.  A caret
  or an exclamation mark in front of them complements the set.\<close>

datatype class_item = Single char | Range char char

inductive class_items :: "string \<Rightarrow> class_item list \<Rightarrow> string \<Rightarrow> bool" where
  no_bracket: "class_items [] [] []"
| bracket: "class_items (CHR '']'' # p) [] p"
| escaped: "class_items p items rest \<Longrightarrow> class_items (CHR 0x5C # c # p) (Single c # items) rest"
| ranged: "a \<noteq> CHR '']'' \<Longrightarrow> a \<noteq> CHR 0x5C \<Longrightarrow> b \<noteq> CHR '']'' \<Longrightarrow> class_items p items rest \<Longrightarrow>
     class_items (a # CHR ''-'' # b # p) (Range a b # items) rest"
| single: "a \<noteq> CHR '']'' \<Longrightarrow> a = CHR 0x5C \<longrightarrow> p = [] \<Longrightarrow>
     \<forall>b q. p = CHR ''-'' # b # q \<longrightarrow> b = CHR '']'' \<Longrightarrow> class_items p items rest \<Longrightarrow>
     class_items (a # p) (Single a # items) rest"

text \<open>The bounds of a range may be given in either order.\<close>

primrec item_chars :: "class_item \<Rightarrow> char set" where
  "item_chars (Single c) = {c}"
| "item_chars (Range a b) = {c. (a \<le> c \<and> c \<le> b) \<or> (b \<le> c \<and> c \<le> a)}"

definition items_chars :: "class_item list \<Rightarrow> char set" where
  "items_chars items = (\<Union>i \<in> set items. item_chars i)"

inductive class_denotes :: "string \<Rightarrow> char set \<Rightarrow> string \<Rightarrow> bool" where
  positive: "p = [] \<or> hd p \<notin> {CHR ''^'', CHR ''!''} \<Longrightarrow> class_items p items rest \<Longrightarrow>
     class_denotes p (items_chars items) rest"
| negated: "n \<in> {CHR ''^'', CHR ''!''} \<Longrightarrow> class_items p items rest \<Longrightarrow>
     class_denotes (n # p) (- items_chars items) rest"

inductive matches :: "string \<Rightarrow> string \<Rightarrow> bool" where
  m_end: "matches [] []"
| m_star: "matches p u \<Longrightarrow> matches (CHR ''*'' # p) (t @ u)"
| m_any: "matches p t \<Longrightarrow> matches (CHR ''?'' # p) (c # t)"
| m_class: "class_denotes p cs rest \<Longrightarrow> c \<in> cs \<Longrightarrow> matches rest t \<Longrightarrow>
     matches (CHR ''['' # p) (c # t)"
| m_escape: "matches p t \<Longrightarrow> matches (CHR 0x5C # c # p) (c # t)"
| m_backslash: "matches [CHR 0x5C] [CHR 0x5C]"
| m_literal: "c \<notin> {CHR ''*'', CHR ''?'', CHR ''['', CHR 0x5C} \<Longrightarrow> matches p t \<Longrightarrow>
     matches (c # p) (c # t)"

inductive_cases matches_Nil: "matches [] t"
inductive_cases matches_star: "matches (CHR ''*'' # p) t"
inductive_cases matches_Cons: "matches (c # p) t"

lemma matches_Nil_iff [simp]: "matches [] t \<longleftrightarrow> t = []"
  by (auto intro: m_end elim: matches_Nil)

lemma matches_star_iff: "matches (CHR ''*'' # p) t \<longleftrightarrow> (\<exists>s u. t = s @ u \<and> matches p u)"
  by (blast intro: m_star elim: matches_star)

lemma matches_any_iff [simp]:
  "matches (CHR ''?'' # p) t \<longleftrightarrow> (\<exists>c u. t = c # u \<and> matches p u)"
  by (auto intro: m_any elim: matches_Cons)

inductive_cases items_Cons: "class_items (a # p) items rest"
inductive_cases items_Nil: "class_items [] items rest"

lemma class_items_unique:
  "class_items p items rest \<Longrightarrow> class_items p items' rest' \<Longrightarrow> items' = items \<and> rest' = rest"
proof (induction arbitrary: items' rest' rule: class_items.induct)
  case no_bracket
  then show ?case by (auto elim: items_Nil)
next
  case (escaped p items rest c)
  from escaped.prems show ?case by (rule items_Cons) (auto dest: escaped.IH)
next
  case (ranged a b p items rest)
  from ranged.prems show ?case by (rule items_Cons) (use ranged.hyps in \<open>auto dest: ranged.IH\<close>)
next
  case (single a p items rest)
  from single.prems show ?case by (rule items_Cons) (use single.hyps single.IH in \<open>blast+\<close>)
qed (auto elim: items_Cons)

lemma items_chars_simps [simp]:
  "items_chars [] = {}" "items_chars (i # items) = item_chars i \<union> items_chars items"
  by (simp_all add: items_chars_def)

text \<open>The loop of \<open>match_class\<close> reads one item in each turn.\<close>

lemma class_loop_items:
  "i \<le> length cls \<Longrightarrow> class_loop cls ch i matched = (m, j) \<Longrightarrow>
     \<exists>items. class_items (drop i cls) items (drop (if j < length cls then j + 1 else j) cls) \<and>
       (m \<longleftrightarrow> matched \<or> ch \<in> items_chars items)"
proof (induction cls ch i matched arbitrary: m j rule: class_loop.induct)
  case (1 cls ch i matched)
  let ?rest = "drop (if j < length cls then j + 1 else j) cls"
  have at: "drop i cls = cls ! i # drop (i + 1) cls" if "i < length cls" for i
    using that by (simp add: Cons_nth_drop_Suc)
  show ?case
  proof (cases "i < length cls \<and> cls ! i \<noteq> CHR '']''")
    case False
    then have "m = matched" "j = i" using 1(5) by (auto simp: class_loop.simps [of cls ch i])
    moreover have "class_items (drop i cls) [] (drop (if i < length cls then i + 1 else i) cls)"
      using False 1(4) at [of i] by (cases "i < length cls") (auto intro: class_items.intros)
    ultimately show ?thesis by (intro exI [of _ "[]"]) (auto simp: class_items.no_bracket split: if_splits)
  next
    case more: True
    let ?escaped = "cls ! i = CHR 0x5C \<and> i + 1 < length cls"
    let ?ranged = "i + 2 < length cls \<and> cls ! (i + 1) = CHR ''-'' \<and> cls ! (i + 2) \<noteq> CHR '']''"
    let ?lo = "min (cls ! i) (cls ! (i + 2))" and ?hi = "max (cls ! i) (cls ! (i + 2))"
    have loop: "(if ?escaped then class_loop cls ch (i + 2) (matched \<or> cls ! (i + 1) = ch)
        else if ?ranged then class_loop cls ch (i + 3) (matched \<or> (?lo \<le> ch \<and> ch \<le> ?hi))
        else class_loop cls ch (i + 1) (matched \<or> cls ! i = ch)) = (m, j)"
      using 1(5) unfolding class_loop.simps [of cls ch i matched] if_P [OF more] Let_def .
    consider (escaped) ?escaped | (ranged) "\<not> ?escaped" ?ranged | (single) "\<not> ?escaped" "\<not> ?ranged" by blast
    then show ?thesis
    proof cases
      case escaped
      then obtain items where "class_items (drop (i + 2) cls) items ?rest"
        "m \<longleftrightarrow> (matched \<or> cls ! (i + 1) = ch) \<or> ch \<in> items_chars items"
        using 1(1) [OF more escaped, of m j] loop by auto
      then show ?thesis
        using at [of i] at [of "i + 1"] escaped
        by (intro exI [of _ "Single (cls ! (i + 1)) # items"]) (auto intro: class_items.escaped)
    next
      case ranged
      then obtain items where "class_items (drop (i + 3) cls) items ?rest"
        "m \<longleftrightarrow> (matched \<or> (?lo \<le> ch \<and> ch \<le> ?hi)) \<or> ch \<in> items_chars items"
        using 1(2) [OF more ranged refl refl, of m j] loop by auto
      moreover have "drop i cls = cls ! i # CHR ''-'' # cls ! (i + 2) # drop (i + 3) cls"
        using at [of i] at [of "i + 1"] at [of "i + 2"] ranged(2) by (simp add: numeral_3_eq_3)
      moreover have "cls ! i \<noteq> CHR 0x5C" using ranged by auto
      ultimately show ?thesis
        using more ranged(2)
        by (intro exI [of _ "Range (cls ! i) (cls ! (i + 2)) # items"])
          (auto simp: min_def max_def intro: class_items.ranged split: if_splits)
    next
      case single
      have next_turn: "class_loop cls ch (i + 1) (matched \<or> cls ! i = ch) = (m, j)"
        using loop unfolding if_not_P [OF single(1)] if_not_P [OF single(2)] .
      have "i + 1 \<le> length cls" using more by simp
      from 1(3) [OF more single this next_turn] obtain items where
        items: "class_items (drop (i + 1) cls) items ?rest"
        "m \<longleftrightarrow> (matched \<or> cls ! i = ch) \<or> ch \<in> items_chars items" by blast
      have "b = CHR '']''" if d: "drop (i + 1) cls = CHR ''-'' # b # q" for b q
      proof -
        have "length (drop (i + 1) cls) = Suc (Suc (length q))" unfolding d by simp
        then have "i + 2 < length cls" by simp
        moreover from this d at [of "i + 1"] at [of "i + 2"] have "cls ! (i + 1) = CHR ''-''" "cls ! (i + 2) = b"
          by simp_all
        ultimately show ?thesis using single(2) by blast
      qed
      then have "class_items (cls ! i # drop (i + 1) cls) (Single (cls ! i) # items) ?rest"
        using items(1) more single(1) by (intro class_items.single) auto
      then show ?thesis
        using items(2) at [of i] more by (intro exI [of _ "Single (cls ! i) # items"]) auto
    qed
  qed
qed

lemma match_class_denotes:
  obtains cs where "class_denotes p cs (drop (snd (match_class p c)) p)" "fst (match_class p c) \<longleftrightarrow> c \<in> cs"
proof -
  let ?negate = "case p of [] \<Rightarrow> False | c # _ \<Rightarrow> c = CHR ''^'' \<or> c = CHR ''!''"
  let ?start = "if ?negate then 1 else 0 :: nat"
  obtain m j where loop: "class_loop p c ?start False = (m, j)" by fastforce
  have le: "?start \<le> length p" by (cases p) auto
  obtain items where items: "class_items (drop ?start p) items (drop (if j < length p then j + 1 else j) p)"
    "m \<longleftrightarrow> c \<in> items_chars items"
    using class_loop_items [OF le loop] by auto
  have mc: "match_class p c = (m \<noteq> ?negate, if j < length p then j + 1 else j)"
    by (simp add: match_class_def loop [simplified] Let_def)
  show thesis
  proof (cases ?negate)
    case True
    then obtain n q where "p = n # q" "n \<in> {CHR ''^'', CHR ''!''}" by (auto split: list.splits)
    with items mc True show thesis by (intro that [of "- items_chars items"]) (auto intro: negated)
  next
    case False
    then have "p = [] \<or> hd p \<notin> {CHR ''^'', CHR ''!''}" by (auto split: list.splits)
    with items mc False show thesis by (intro that [of "items_chars items"]) (auto intro: positive)
  qed
qed

lemma class_denotes_unique:
  "class_denotes p cs rest \<Longrightarrow> class_denotes p cs' rest' \<Longrightarrow> cs' = cs \<and> rest' = rest"
  by (auto elim!: class_denotes.cases dest: class_items_unique)

lemma matches_class_iff [simp]:
  "matches (CHR ''['' # p) t \<longleftrightarrow>
     (\<exists>c u. t = c # u \<and> fst (match_class p c) \<and> matches (drop (snd (match_class p c)) p) u)"
proof
  assume "matches (CHR ''['' # p) t"
  then obtain cs rest c u where m: "t = c # u" "class_denotes p cs rest" "c \<in> cs" "matches rest u"
    by (auto elim: matches_Cons)
  obtain cs' where "class_denotes p cs' (drop (snd (match_class p c)) p)" "fst (match_class p c) \<longleftrightarrow> c \<in> cs'"
    by (rule match_class_denotes)
  with m class_denotes_unique [OF m(2)] show "\<exists>c u. t = c # u \<and> fst (match_class p c) \<and>
      matches (drop (snd (match_class p c)) p) u" by blast
next
  assume "\<exists>c u. t = c # u \<and> fst (match_class p c) \<and> matches (drop (snd (match_class p c)) p) u"
  then obtain c u where m: "t = c # u" "fst (match_class p c)" "matches (drop (snd (match_class p c)) p) u" by blast
  obtain cs where "class_denotes p cs (drop (snd (match_class p c)) p)" "fst (match_class p c) \<longleftrightarrow> c \<in> cs"
    by (rule match_class_denotes)
  with m show "matches (CHR ''['' # p) t" by (auto intro: m_class)
qed

lemma matches_escape_iff [simp]:
  "matches (CHR 0x5C # c # p) t \<longleftrightarrow> (\<exists>u. t = c # u \<and> matches p u)"
  by (auto intro: m_escape elim: matches_Cons)

lemma matches_backslash_iff [simp]: "matches [CHR 0x5C] t \<longleftrightarrow> t = [CHR 0x5C]"
  by (auto intro: m_backslash elim: matches_Cons)

lemma matches_literal_iff:
  "c \<notin> {CHR ''*'', CHR ''?'', CHR ''['', CHR 0x5C} \<Longrightarrow>
     matches (c # p) t \<longleftrightarrow> (\<exists>u. t = c # u \<and> matches p u)"
  by (auto intro: m_literal elim: matches_Cons)

lemma matches_star_collapse:
  "matches (CHR ''*'' # dropWhile (\<lambda>c. c = CHR ''*'') p) t \<longleftrightarrow> matches (CHR ''*'' # p) t"
proof (induction p)
  case Nil
  then show ?case by simp
next
  case (Cons c p)
  show ?case
  proof (cases "c = CHR ''*''")
    case True
    have "matches (CHR ''*'' # CHR ''*'' # p) t \<longleftrightarrow> matches (CHR ''*'' # p) t"
      unfolding matches_star_iff by (metis append.assoc append_Nil)
    with True Cons show ?thesis by simp
  qed simp
qed

lemma glob_iff_matches:
  "glob_match_bytes p t \<longleftrightarrow> matches p t"
  "glob_star p t \<longleftrightarrow> matches (CHR ''*'' # p) t"
proof (induction p t and p t rule: glob_match_bytes_glob_star.induct)
  case (1 str)
  then show ?case by (simp add: glob_match_bytes.simps)
next
  case (2 token rest str)
  show ?case
  proof (cases "token \<in> {CHR ''*'', CHR ''?'', CHR ''['', CHR 0x5C}")
    case False
    then show ?thesis
      using 2 by (auto simp: glob_match_bytes.simps matches_literal_iff split: list.splits)
  next
    case True
    then consider "token = CHR ''*''" | "token = CHR ''?''" | "token = CHR ''[''"
      | "token = CHR 0x5C" by blast
    then show ?thesis
    proof cases
      case 1
      then have "matches (CHR ''*'' # rest) str" if "dropWhile (\<lambda>c. c = CHR ''*'') rest = []"
        using matches_star_collapse [of rest str, unfolded that]
        by (simp add: matches_star_iff [of "[]"])
      with 1 2 show ?thesis
        by (auto simp: glob_match_bytes.simps Let_def matches_star_collapse)
    qed (use 2 in \<open>auto simp: glob_match_bytes.simps split: list.splits\<close>)
  qed
next
  case (3 p t)
  have step: "matches (CHR ''*'' # p) t \<longleftrightarrow>
      matches p t \<or> (\<exists>c u. t = c # u \<and> matches (CHR ''*'' # p) u)"
    by (auto simp: matches_star_iff append_eq_Cons_conv Cons_eq_append_conv)
      (metis append_Cons append_Nil neq_Nil_conv)+
  show ?case
  proof (cases t)
    case Nil
    with 3 step show ?thesis by (simp add: glob_star.simps [of p "[]"])
  next
    case (Cons c u)
    with 3 step show ?thesis by (auto simp: glob_star.simps [of p "c # u"])
  qed
qed

section \<open>Properties\<close>

text \<open>C25: the matcher of KEYS accepts exactly the keys its pattern denotes: a star any run, a
  question mark one byte, a class one byte of the set its items and its sign denote, a backslash
  the byte after it.  The meaning, \<open>matches\<close>, is defined without the matcher.\<close>

theorem glob_match_correct: "glob_match pattern str \<longleftrightarrow> matches pattern str"
  by (simp add: glob_match_def glob_iff_matches)

end
