(* ===== verification/Db_Ops.thy ===== *)
theory Db_Ops
  imports Db_Base Glob
begin

text \<open>
  The operations of \<open>impl Database\<close> in \<open>src/src/database/db.rs\<close>, in its order: strings,
  lists, sets, sorted sets, hashes, generic keys and the sweeper.  Each is one function of the
  time, its arguments and the store; those that only read the store under the read lock return
  just their result.
\<close>

section \<open>Strings\<close>

definition db_set :: "nat \<Rightarrow> string \<Rightarrow> string \<Rightarrow> nat option \<Rightarrow> store \<Rightarrow> store" where
  "db_set now key val ttl s =
     hm_insert key
       \<lparr>en_value = VStr val, en_expires_at = Option.bind ttl (deadline_after now)\<rparr> s"

definition db_get :: "nat \<Rightarrow> string \<Rightarrow> store \<Rightarrow> (store_error + string option) \<times> store" where
  "db_get now key =
     read_entry now key (Inr None)
       (\<lambda>e. case en_value e of VStr v \<Rightarrow> Inr (Some v) | _ \<Rightarrow> Inl WrongType)"

fun db_del_loop :: "nat \<Rightarrow> nat \<Rightarrow> string list \<Rightarrow> store \<Rightarrow> nat \<times> store" where
  "db_del_loop now removed [] s = (removed, s)"
| "db_del_loop now removed (key # keys) s =
     (case live_entry now key s of
        (Some _, s1) \<Rightarrow> db_del_loop now (removed + 1) keys (hm_remove key s1)
      | (None, s1) \<Rightarrow> db_del_loop now removed keys s1)"

definition db_del :: "nat \<Rightarrow> string list \<Rightarrow> store \<Rightarrow> nat \<times> store" where
  "db_del now keys s = db_del_loop now 0 keys s"

definition db_incr_by :: "nat \<Rightarrow> string \<Rightarrow> i64 \<Rightarrow> store \<Rightarrow> (store_error + i64) \<times> store" where
  "db_incr_by now key delta =
     grow (or_create as_str (VStr ''0'')) VStr
       (\<lambda>current.
          case parse_i64 current of
            None \<Rightarrow> Inl NotAnInteger
          | Some v \<Rightarrow>
              (case checked_add v delta of
                 None \<Rightarrow> Inl Overflow
               | Some next_val \<Rightarrow> Inr (next_val, show_i64 next_val)))
       now key"

definition db_append :: "nat \<Rightarrow> string \<Rightarrow> string \<Rightarrow> store \<Rightarrow> (store_error + nat) \<times> store" where
  "db_append now key suffix =
     grow (or_create as_str (VStr [])) VStr
       (\<lambda>current. let current' = current @ suffix in Inr (length current', current')) now key"

definition db_strlen :: "nat \<Rightarrow> string \<Rightarrow> store \<Rightarrow> (store_error + nat) \<times> store" where
  "db_strlen now key =
     read_entry now key (Inr 0)
       (\<lambda>e. case en_value e of VStr v \<Rightarrow> Inr (length v) | _ \<Rightarrow> Inl WrongType)"

definition db_mget :: "nat \<Rightarrow> string list \<Rightarrow> store \<Rightarrow> string option list" where
  "db_mget now keys s =
     map (\<lambda>key. case hm_get s key of
             Some e \<Rightarrow>
               (if \<not> is_expired now e
                then (case en_value e of VStr v \<Rightarrow> Some v | _ \<Rightarrow> None) else None)
           | None \<Rightarrow> None) keys"

fun db_mset :: "(string \<times> string) list \<Rightarrow> store \<Rightarrow> store" where
  "db_mset [] s = s"
| "db_mset ((key, val) # pairs) s =
     db_mset pairs (hm_insert key \<lparr>en_value = VStr val, en_expires_at = None\<rparr> s)"

definition db_setnx :: "nat \<Rightarrow> string \<Rightarrow> string \<Rightarrow> store \<Rightarrow> bool \<times> store" where
  "db_setnx now key val s =
     (case live_entry now key s of
        (Some _, s1) \<Rightarrow> (False, s1)
      | (None, s1) \<Rightarrow>
          (True, hm_insert key \<lparr>en_value = VStr val, en_expires_at = None\<rparr> s1))"

definition db_getset ::
    "nat \<Rightarrow> string \<Rightarrow> string \<Rightarrow> store \<Rightarrow> (store_error + string option) \<times> store" where
  "db_getset now key val s =
     (let (found, s1) = live_entry now key s;
          put = hm_insert key \<lparr>en_value = VStr val, en_expires_at = None\<rparr> s1
      in case found of
           Some e \<Rightarrow>
             (case en_value e of
                VStr current \<Rightarrow> (Inr (Some current), put)
              | _ \<Rightarrow> (Inl WrongType, s1))
         | None \<Rightarrow> (Inr None, put))"

section \<open>Lists\<close>

definition db_lpush :: "nat \<Rightarrow> string \<Rightarrow> string list \<Rightarrow> store \<Rightarrow> (store_error + nat) \<times> store" where
  "db_lpush now key vals =
     grow list_or_create VList
       (\<lambda>l. let l' = fold rl_lpush vals l in Inr (length l', l')) now key"

definition db_rpush :: "nat \<Rightarrow> string \<Rightarrow> string list \<Rightarrow> store \<Rightarrow> (store_error + nat) \<times> store" where
  "db_rpush now key vals =
     grow list_or_create VList
       (\<lambda>l. let l' = fold rl_rpush vals l in Inr (length l', l')) now key"

definition db_pop ::
    "(rlist \<Rightarrow> string option \<times> rlist) \<Rightarrow> nat \<Rightarrow> string \<Rightarrow> store \<Rightarrow>
     (store_error + string option) \<times> store" where
  "db_pop take_op now key = shrink as_list VList (\<lambda>l. l = []) take_op None now key"

definition db_lpop :: "nat \<Rightarrow> string \<Rightarrow> store \<Rightarrow> (store_error + string option) \<times> store" where
  "db_lpop = db_pop rl_lpop"

definition db_rpop :: "nat \<Rightarrow> string \<Rightarrow> store \<Rightarrow> (store_error + string option) \<times> store" where
  "db_rpop = db_pop rl_rpop"

definition db_lrange ::
    "nat \<Rightarrow> string \<Rightarrow> i64 \<Rightarrow> i64 \<Rightarrow> store \<Rightarrow> (store_error + string list) \<times> store" where
  "db_lrange now key start stop =
     read_entry now key (Inr [])
       (\<lambda>e. case en_value e of VList l \<Rightarrow> Inr (rl_lrange start stop l) | _ \<Rightarrow> Inl WrongType)"

definition db_llen :: "nat \<Rightarrow> string \<Rightarrow> store \<Rightarrow> (store_error + nat) \<times> store" where
  "db_llen now key =
     read_entry now key (Inr 0)
       (\<lambda>e. case en_value e of VList l \<Rightarrow> Inr (length l) | _ \<Rightarrow> Inl WrongType)"

definition db_lindex :: "nat \<Rightarrow> string \<Rightarrow> i64 \<Rightarrow> store \<Rightarrow> (store_error + string option) \<times> store" where
  "db_lindex now key index =
     read_entry now key (Inr None)
       (\<lambda>e. case en_value e of VList l \<Rightarrow> Inr (rl_lindex index l) | _ \<Rightarrow> Inl WrongType)"

definition db_lset ::
    "nat \<Rightarrow> string \<Rightarrow> i64 \<Rightarrow> string \<Rightarrow> store \<Rightarrow> (store_error + unit) \<times> store" where
  "db_lset now key index val s =
     (case live_entry now key s of
        (None, s1) \<Rightarrow> (Inl NoSuchKey, s1)
      | (Some e, s1) \<Rightarrow>
          (case en_value e of
             VList l \<Rightarrow>
               (let (ok, l') = rl_lset index val l; s2 = write_value key (VList l') s1
                in if ok then (Inr (), s2) else (Inl IndexOutOfRange, s2))
           | _ \<Rightarrow> (Inl WrongType, s1)))"

section \<open>Sets\<close>

fun sadd_all :: "string list \<Rightarrow> nat \<Rightarrow> rset \<Rightarrow> nat \<times> rset" where
  "sadd_all [] added x = (added, x)"
| "sadd_all (v # vs) added x =
     (let (new, x') = rs_sadd v x in sadd_all vs (if new then added + 1 else added) x')"

definition db_sadd :: "nat \<Rightarrow> string \<Rightarrow> string list \<Rightarrow> store \<Rightarrow> (store_error + nat) \<times> store" where
  "db_sadd now key vals = grow set_or_create VSet (\<lambda>x. Inr (sadd_all vals 0 x)) now key"

fun srem_all :: "string list \<Rightarrow> nat \<Rightarrow> rset \<Rightarrow> nat \<times> rset" where
  "srem_all [] removed x = (removed, x)"
| "srem_all (v # vs) removed x =
     (let (had, x') = rs_srem v x in srem_all vs (if had then removed + 1 else removed) x')"

definition db_srem :: "nat \<Rightarrow> string \<Rightarrow> string list \<Rightarrow> store \<Rightarrow> (store_error + nat) \<times> store" where
  "db_srem now key vals = shrink as_set VSet (\<lambda>x. x = []) (srem_all vals 0) 0 now key"

definition db_smembers :: "nat \<Rightarrow> string \<Rightarrow> store \<Rightarrow> (store_error + string list) \<times> store" where
  "db_smembers now key =
     read_entry now key (Inr [])
       (\<lambda>e. case en_value e of VSet x \<Rightarrow> Inr (rs_smembers x) | _ \<Rightarrow> Inl WrongType)"

definition db_sismember :: "nat \<Rightarrow> string \<Rightarrow> string \<Rightarrow> store \<Rightarrow> (store_error + bool) \<times> store" where
  "db_sismember now key val =
     read_entry now key (Inr False)
       (\<lambda>e. case en_value e of VSet x \<Rightarrow> Inr (rs_sismember val x) | _ \<Rightarrow> Inl WrongType)"

definition db_scard :: "nat \<Rightarrow> string \<Rightarrow> store \<Rightarrow> (store_error + nat) \<times> store" where
  "db_scard now key =
     read_entry now key (Inr 0)
       (\<lambda>e. case en_value e of VSet x \<Rightarrow> Inr (rs_scard x) | _ \<Rightarrow> Inl WrongType)"

definition db_spop :: "nat \<Rightarrow> string \<Rightarrow> store \<Rightarrow> (store_error + string option) \<times> store" where
  "db_spop now key = shrink as_set VSet (\<lambda>x. x = []) rs_spop None now key"

definition set_members_of :: "nat \<Rightarrow> store \<Rightarrow> string \<Rightarrow> store_error + string hash_set" where
  "set_members_of now s key =
     (case hm_get s key of
        Some e \<Rightarrow>
          (if \<not> is_expired now e
           then (case en_value e of VSet x \<Rightarrow> Inr (fold hs_insert (rs_smembers x) [])
                 | _ \<Rightarrow> Inl WrongType)
           else Inr [])
      | None \<Rightarrow> Inr [])"

fun sinter_loop :: "nat \<Rightarrow> store \<Rightarrow> string hash_set \<Rightarrow> string list \<Rightarrow> store_error + string list" where
  "sinter_loop now s result [] = Inr result"
| "sinter_loop now s result (key # keys) =
     (case set_members_of now s key of
        Inl err \<Rightarrow> Inl err
      | Inr other \<Rightarrow> sinter_loop now s (filter (\<lambda>m. m \<in> set other) result) keys)"

definition db_sinter :: "nat \<Rightarrow> string list \<Rightarrow> store \<Rightarrow> store_error + string list" where
  "db_sinter now keys s =
     (case keys of
        [] \<Rightarrow> Inr []
      | key # rest \<Rightarrow>
          (case set_members_of now s key of
             Inl err \<Rightarrow> Inl err
           | Inr result \<Rightarrow> sinter_loop now s result rest))"

fun sunion_loop :: "nat \<Rightarrow> store \<Rightarrow> string hash_set \<Rightarrow> string list \<Rightarrow> store_error + string list" where
  "sunion_loop now s result [] = Inr result"
| "sunion_loop now s result (key # keys) =
     (case set_members_of now s key of
        Inl err \<Rightarrow> Inl err
      | Inr members \<Rightarrow> sunion_loop now s (fold hs_insert members result) keys)"

definition db_sunion :: "nat \<Rightarrow> string list \<Rightarrow> store \<Rightarrow> store_error + string list" where
  "db_sunion now keys s = sunion_loop now s [] keys"

fun sdiff_loop :: "nat \<Rightarrow> store \<Rightarrow> string hash_set \<Rightarrow> string list \<Rightarrow> store_error + string list" where
  "sdiff_loop now s result [] = Inr result"
| "sdiff_loop now s result (key # keys) =
     (case set_members_of now s key of
        Inl err \<Rightarrow> Inl err
      | Inr members \<Rightarrow> sdiff_loop now s (fold hs_remove members result) keys)"

definition db_sdiff :: "nat \<Rightarrow> string list \<Rightarrow> store \<Rightarrow> store_error + string list" where
  "db_sdiff now keys s =
     (case keys of
        [] \<Rightarrow> Inr []
      | key # rest \<Rightarrow>
          (case set_members_of now s key of
             Inl err \<Rightarrow> Inl err
           | Inr result \<Rightarrow> sdiff_loop now s result rest))"

section \<open>Sorted sets\<close>

fun zadd_all ::
    "float_order \<Rightarrow> (f64 \<times> string) list \<Rightarrow> nat \<Rightarrow> rsorted_set \<Rightarrow> nat \<times> rsorted_set" where
  "zadd_all fo [] added z = (added, z)"
| "zadd_all fo ((score, member) # ms) added z =
     (let (new, z') = zs_zadd fo score member z
      in zadd_all fo ms (if new then added + 1 else added) z')"

definition db_zadd ::
    "float_order \<Rightarrow> nat \<Rightarrow> string \<Rightarrow> (f64 \<times> string) list \<Rightarrow> store \<Rightarrow> (store_error + nat) \<times> store" where
  "db_zadd fo now key members =
     grow sorted_set_or_create VSortedSet (\<lambda>z. Inr (zadd_all fo members 0 z)) now key"

definition db_zrem ::
    "float_order \<Rightarrow> nat \<Rightarrow> string \<Rightarrow> string \<Rightarrow> store \<Rightarrow> (store_error + bool) \<times> store" where
  "db_zrem fo now key member =
     shrink as_zset VSortedSet zs_is_empty (zs_zrem fo member) False now key"

definition db_zrange ::
    "nat \<Rightarrow> string \<Rightarrow> i64 \<Rightarrow> i64 \<Rightarrow> store \<Rightarrow> (store_error + string list) \<times> store" where
  "db_zrange now key start stop =
     read_entry now key (Inr [])
       (\<lambda>e. case en_value e of VSortedSet z \<Rightarrow> Inr (zs_zrange start stop z) | _ \<Rightarrow> Inl WrongType)"

definition db_zscore :: "nat \<Rightarrow> string \<Rightarrow> string \<Rightarrow> store \<Rightarrow> (store_error + f64 option) \<times> store" where
  "db_zscore now key member =
     read_entry now key (Inr None)
       (\<lambda>e. case en_value e of VSortedSet z \<Rightarrow> Inr (zs_zscore member z) | _ \<Rightarrow> Inl WrongType)"

definition db_zcard :: "nat \<Rightarrow> string \<Rightarrow> store \<Rightarrow> (store_error + nat) \<times> store" where
  "db_zcard now key =
     read_entry now key (Inr 0)
       (\<lambda>e. case en_value e of VSortedSet z \<Rightarrow> Inr (zs_zcard z) | _ \<Rightarrow> Inl WrongType)"

definition db_zrank :: "nat \<Rightarrow> string \<Rightarrow> string \<Rightarrow> store \<Rightarrow> (store_error + nat option) \<times> store" where
  "db_zrank now key member =
     read_entry now key (Inr None)
       (\<lambda>e. case en_value e of VSortedSet z \<Rightarrow> Inr (zs_zrank member z) | _ \<Rightarrow> Inl WrongType)"

definition db_zincrby ::
    "float_order \<Rightarrow> nat \<Rightarrow> string \<Rightarrow> f64 \<Rightarrow> string \<Rightarrow> store \<Rightarrow> (store_error + f64) \<times> store" where
  "db_zincrby fo now key increment member =
     grow sorted_set_or_create VSortedSet
       (\<lambda>z. let old = (case zs_zscore member z of Some x \<Rightarrow> x | None \<Rightarrow> f64_zero);
               new_score = f64_add old increment
            in if is_nan new_score then Inl ScoreNaN
               else Inr (new_score, snd (zs_zadd fo new_score member z)))
       now key"

definition db_zrange_with_scores ::
    "nat \<Rightarrow> string \<Rightarrow> i64 \<Rightarrow> i64 \<Rightarrow> store \<Rightarrow> (store_error + (string \<times> f64) list) \<times> store" where
  "db_zrange_with_scores now key start stop =
     read_entry now key (Inr [])
       (\<lambda>e. case en_value e of
              VSortedSet z \<Rightarrow> Inr (zs_zrange_with_scores start stop z) | _ \<Rightarrow> Inl WrongType)"

definition db_zrange_by_score ::
    "nat \<Rightarrow> string \<Rightarrow> f64 \<Rightarrow> bool \<Rightarrow> f64 \<Rightarrow> bool \<Rightarrow> store \<Rightarrow> (store_error + string list) \<times> store" where
  "db_zrange_by_score now key min_score min_inclusive max_score max_inclusive =
     read_entry now key (Inr [])
       (\<lambda>e. case en_value e of
              VSortedSet z \<Rightarrow>
                Inr (zs_zrange_by_score min_score min_inclusive max_score max_inclusive z)
            | _ \<Rightarrow> Inl WrongType)"

section \<open>Hashes\<close>

definition db_hset ::
    "nat \<Rightarrow> string \<Rightarrow> string \<Rightarrow> string \<Rightarrow> store \<Rightarrow> (store_error + bool) \<times> store" where
  "db_hset now key field val =
     grow hash_or_create VHash (\<lambda>h. Inr (rh_hset field val h)) now key"

definition db_hget ::
    "nat \<Rightarrow> string \<Rightarrow> string \<Rightarrow> store \<Rightarrow> (store_error + string option) \<times> store" where
  "db_hget now key field =
     read_entry now key (Inr None)
       (\<lambda>e. case en_value e of VHash h \<Rightarrow> Inr (rh_hget field h) | _ \<Rightarrow> Inl WrongType)"

definition db_hdel :: "nat \<Rightarrow> string \<Rightarrow> string \<Rightarrow> store \<Rightarrow> (store_error + bool) \<times> store" where
  "db_hdel now key field = shrink as_hash VHash (\<lambda>h. h = []) (rh_hdel field) False now key"

fun flatten_pairs :: "(string \<times> string) list \<Rightarrow> string list" where
  "flatten_pairs [] = []"
| "flatten_pairs ((field, val) # rest) = field # val # flatten_pairs rest"

definition db_hgetall :: "nat \<Rightarrow> string \<Rightarrow> store \<Rightarrow> (store_error + string list) \<times> store" where
  "db_hgetall now key =
     read_entry now key (Inr [])
       (\<lambda>e. case en_value e of
              VHash h \<Rightarrow> Inr (flatten_pairs (rh_hgetall h)) | _ \<Rightarrow> Inl WrongType)"

definition db_hkeys :: "nat \<Rightarrow> string \<Rightarrow> store \<Rightarrow> (store_error + string list) \<times> store" where
  "db_hkeys now key =
     read_entry now key (Inr [])
       (\<lambda>e. case en_value e of VHash h \<Rightarrow> Inr (rh_hkeys h) | _ \<Rightarrow> Inl WrongType)"

definition db_hvals :: "nat \<Rightarrow> string \<Rightarrow> store \<Rightarrow> (store_error + string list) \<times> store" where
  "db_hvals now key =
     read_entry now key (Inr [])
       (\<lambda>e. case en_value e of VHash h \<Rightarrow> Inr (rh_hvals h) | _ \<Rightarrow> Inl WrongType)"

definition db_hlen :: "nat \<Rightarrow> string \<Rightarrow> store \<Rightarrow> (store_error + nat) \<times> store" where
  "db_hlen now key =
     read_entry now key (Inr 0)
       (\<lambda>e. case en_value e of VHash h \<Rightarrow> Inr (rh_hlen h) | _ \<Rightarrow> Inl WrongType)"

definition db_hexists :: "nat \<Rightarrow> string \<Rightarrow> string \<Rightarrow> store \<Rightarrow> (store_error + bool) \<times> store" where
  "db_hexists now key field =
     read_entry now key (Inr False)
       (\<lambda>e. case en_value e of VHash h \<Rightarrow> Inr (rh_hexists field h) | _ \<Rightarrow> Inl WrongType)"

definition db_hincrby ::
    "nat \<Rightarrow> string \<Rightarrow> string \<Rightarrow> i64 \<Rightarrow> store \<Rightarrow> (store_error + i64) \<times> store" where
  "db_hincrby now key field delta =
     grow hash_or_create VHash
       (\<lambda>h. case (case rh_hget field h of
                    Some v \<Rightarrow> (case parse_i64 v of None \<Rightarrow> Inl NotAHashInteger | Some i \<Rightarrow> Inr i)
                  | None \<Rightarrow> Inr 0) of
              Inl err \<Rightarrow> Inl err
            | Inr current \<Rightarrow>
                (case checked_add current delta of
                   None \<Rightarrow> Inl Overflow
                 | Some next_val \<Rightarrow>
                     Inr (next_val, snd (rh_hset field (show_i64 next_val) h))))
       now key"

section \<open>Generic key operations\<close>

definition db_exists :: "nat \<Rightarrow> string list \<Rightarrow> store \<Rightarrow> nat" where
  "db_exists now keys s =
     length (filter (\<lambda>key. case hm_get s key of
                        Some e \<Rightarrow> \<not> is_expired now e | None \<Rightarrow> False) keys)"

definition db_type_of :: "nat \<Rightarrow> string \<Rightarrow> store \<Rightarrow> string \<times> store" where
  "db_type_of now key =
     read_entry now key ''none''
       (\<lambda>e. case en_value e of
              VStr _ \<Rightarrow> ''string''
            | VList _ \<Rightarrow> ''list''
            | VSet _ \<Rightarrow> ''set''
            | VSortedSet _ \<Rightarrow> ''zset''
            | VHash _ \<Rightarrow> ''hash'')"

definition db_keys :: "nat \<Rightarrow> string \<Rightarrow> store \<Rightarrow> string list" where
  "db_keys now pattern s =
     map fst (filter (\<lambda>(key, _). glob_match pattern key)
       (filter (\<lambda>(_, e). \<not> is_expired now e) s))"

definition db_expire :: "nat \<Rightarrow> string \<Rightarrow> i64 \<Rightarrow> store \<Rightarrow> bool \<times> store" where
  "db_expire now key seconds s =
     (case live_entry now key s of
        (None, s1) \<Rightarrow> (False, s1)
      | (Some _, s1) \<Rightarrow>
          (True,
           if sint seconds \<le> 0 then hm_remove key s1
           else case hm_get s1 key of
               Some e \<Rightarrow>
                 hm_insert key (e\<lparr>en_expires_at := deadline_after now (unat seconds)\<rparr>) s1
             | None \<Rightarrow> s1))"

definition db_ttl :: "nat \<Rightarrow> string \<Rightarrow> store \<Rightarrow> i64 \<times> store" where
  "db_ttl now key =
     read_entry now key (- 2)
       (\<lambda>e. case en_expires_at e of
              Some deadline \<Rightarrow> of_nat ((deadline - now) div nanos)
            | None \<Rightarrow> - 1)"

definition db_persist :: "nat \<Rightarrow> string \<Rightarrow> store \<Rightarrow> bool \<times> store" where
  "db_persist now key s =
     (case live_entry now key s of
        (Some e, s1) \<Rightarrow>
          (if en_expires_at e \<noteq> None
           then (True, hm_insert key (e\<lparr>en_expires_at := None\<rparr>) s1)
           else (False, s1))
      | (None, s1) \<Rightarrow> (False, s1))"

definition db_rename :: "nat \<Rightarrow> string \<Rightarrow> string \<Rightarrow> store \<Rightarrow> bool \<times> store" where
  "db_rename now key new_key s =
     (case live_entry now key s of
        (None, s1) \<Rightarrow> (False, s1)
      | (Some _, s1) \<Rightarrow>
          (case hm_get s1 key of
             Some e \<Rightarrow> (True, hm_insert new_key e (hm_remove key s1))
           | None \<Rightarrow> (False, s1)))"

definition db_dbsize :: "nat \<Rightarrow> store \<Rightarrow> nat" where
  "db_dbsize now s = length (filter (\<lambda>e. \<not> is_expired now e) (map snd s))"

definition db_flushall :: "store \<Rightarrow> store" where
  "db_flushall s = []"

definition db_sweep_expired :: "nat \<Rightarrow> store \<Rightarrow> nat \<times> store" where
  "db_sweep_expired now s =
     (let s' = filter (\<lambda>(_, e). \<not> is_expired now e) s in (length s - length s', s'))"

end
