(* ===== verification/Snapshot.thy ===== *)
theory Snapshot
  imports Db_Ops
begin

text \<open>
  The snapshot format of \<open>src/src/database/snapshot.rs\<close> and the conversions
  \<open>Database::snapshot\<close> and \<open>Database::load_snapshot\<close> of \<open>src/src/database/db.rs\<close>.
  Sorted-set scores are stored as text; deadlines as remaining whole seconds.
\<close>

datatype ser_value =
    SStr string
  | SList "string list"
  | SSet "string list"
  | SZSet "(string \<times> string) list"
  | SHash "(string \<times> string) list"

record snapshot_entry =
  se_key :: string
  se_ttl_secs :: "nat option"
  se_value :: ser_value

record snapshot =
  sn_entries :: "snapshot_entry list"

fun ser_of_value :: "db_value \<Rightarrow> ser_value" where
  "ser_of_value (VStr v) = SStr v"
| "ser_of_value (VList l) = SList (rl_lrange 0 (- 1) l)"
| "ser_of_value (VSet x) = SSet (rs_smembers x)"
| "ser_of_value (VSortedSet z) =
     SZSet (map (\<lambda>(member, score). (member, f64_to_string score))
       (zs_zrange_with_scores 0 (- 1) z))"
| "ser_of_value (VHash h) = SHash (rh_hgetall h)"

definition db_snapshot :: "nat \<Rightarrow> store \<Rightarrow> snapshot" where
  "db_snapshot now s =
     \<lparr>sn_entries =
        map (\<lambda>(key, e).
            \<lparr>se_key = key,
             se_ttl_secs = map_option (\<lambda>deadline. (deadline - now) div nanos) (en_expires_at e),
             se_value = ser_of_value (en_value e)\<rparr>)
          (filter (\<lambda>(_, e). \<not> is_expired now e) s)\<rparr>"

definition score_of_text :: "string \<Rightarrow> f64" where
  "score_of_text t = (case parse_f64 t of Some x \<Rightarrow> x | None \<Rightarrow> f64_zero)"

fun value_of_ser :: "float_order \<Rightarrow> ser_value \<Rightarrow> db_value" where
  "value_of_ser fo (SStr v) = VStr v"
| "value_of_ser fo (SList items) = VList (fold rl_rpush items rlist_new)"
| "value_of_ser fo (SSet items) = VSet (fold (\<lambda>item x. snd (rs_sadd item x)) items rset_new)"
| "value_of_ser fo (SZSet items) =
     VSortedSet (fold (\<lambda>(member, score) z. snd (zs_zadd fo (score_of_text score) member z))
       items zset_new)"
| "value_of_ser fo (SHash items) =
     VHash (fold (\<lambda>(field, val) h. snd (rh_hset field val h)) items rhash_new)"

definition db_load_snapshot :: "float_order \<Rightarrow> nat \<Rightarrow> snapshot \<Rightarrow> store \<Rightarrow> store" where
  "db_load_snapshot fo now sn s =
     fold (\<lambda>entry st.
         hm_insert (se_key entry)
           \<lparr>en_value = value_of_ser fo (se_value entry),
            en_expires_at = Option.bind (se_ttl_secs entry) (deadline_after now)\<rparr> st)
       (sn_entries sn) []"

end
