(* ===== verification/Resp.thy ===== *)
theory Resp
  imports Prelude
begin

text \<open>
  The wire format, \<open>src/src/resp.rs\<close>: the reply encoders, one function each.  What a reply
  promises is stated against a RESP2 client: \<open>decode\<close> reads one reply value from a stream of
  bytes (nested at most as deep as its fuel), and \<open>reads_as d r s\<close> says that the client
  reads the bytes \<open>s\<close> as the single value \<open>r\<close> and leaves whatever follows untouched, so
  a pipelining client stays in step.
\<close>

named_theorems reply_intros \<open>what a client reads for each encoder\<close>

section \<open>Encoders\<close>

definition simple_string :: "string \<Rightarrow> string" where
  "simple_string value = ''+'' @ value @ crlf"

definition sanitize :: "string \<Rightarrow> string" where
  "sanitize message = map (\<lambda>c. if c = CR \<or> c = LF then CHR '' '' else c) message"

definition resp_error :: "string \<Rightarrow> string" where
  "resp_error message =
     (if CR \<in> set message \<or> LF \<in> set message
      then ''-'' @ sanitize message @ crlf
      else ''-'' @ message @ crlf)"

definition resp_integer :: "i64 \<Rightarrow> string" where
  "resp_integer value = '':'' @ show_i64 value @ crlf"

definition bulk_string :: "string \<Rightarrow> string" where
  "bulk_string value = ''$'' @ show_nat (length value) @ crlf @ value @ crlf"

definition resp_null :: string where
  "resp_null = ''$-1'' @ crlf"

fun push_bulks :: "string \<Rightarrow> string list \<Rightarrow> string" where
  "push_bulks out [] = out"
| "push_bulks out (item # items) = push_bulks (out @ bulk_string item) items"

definition resp_array :: "string list \<Rightarrow> string" where
  "resp_array items = push_bulks (''*'' @ show_nat (length items) @ crlf) items"

fun push_nullables :: "string \<Rightarrow> string option list \<Rightarrow> string" where
  "push_nullables out [] = out"
| "push_nullables out (Some value # items) = push_nullables (out @ bulk_string value) items"
| "push_nullables out (None # items) = push_nullables (out @ resp_null) items"

definition nullable_array :: "string option list \<Rightarrow> string" where
  "nullable_array items = push_nullables (''*'' @ show_nat (length items) @ crlf) items"

section \<open>A RESP2 client\<close>

datatype reply =
    RSimple string | RError string | RInt int | RBulk string | RNull | RArray "reply list"

fun split_crlf :: "string \<Rightarrow> (string \<times> string) option" where
  "split_crlf (c # d # t) =
     (if c = CR \<and> d = LF then Some ([], t)
      else map_option (\<lambda>(l, r). (c # l, r)) (split_crlf (d # t)))"
| "split_crlf s = None"

definition parse_nat :: "string \<Rightarrow> nat option" where
  "parse_nat s = (if s = [] then None else parse_digits 0 s)"

definition parse_int :: "string \<Rightarrow> int option" where
  "parse_int s =
     (case strip_prefix_char CHR ''-'' s of
        Some r \<Rightarrow> map_option (\<lambda>n. - int n) (parse_nat r)
      | None \<Rightarrow> map_option int (parse_nat s))"

fun decode_seq :: "(string \<Rightarrow> ('a \<times> string) option) \<Rightarrow> nat \<Rightarrow> string \<Rightarrow> ('a list \<times> string) option" where
  "decode_seq p 0 s = Some ([], s)"
| "decode_seq p (Suc n) s =
     (case p s of
        None \<Rightarrow> None
      | Some (x, t) \<Rightarrow>
          (case decode_seq p n t of None \<Rightarrow> None | Some (xs, u) \<Rightarrow> Some (x # xs, u)))"

definition decode_bulk :: "string \<Rightarrow> string \<Rightarrow> (reply \<times> string) option" where
  "decode_bulk line rest =
     (if line = ''-1'' then Some (RNull, rest)
      else case parse_nat line of
          None \<Rightarrow> None
        | Some n \<Rightarrow>
            (if n + 2 \<le> length rest \<and> take 2 (drop n rest) = crlf
             then Some (RBulk (take n rest), drop (n + 2) rest) else None))"

fun decode :: "nat \<Rightarrow> string \<Rightarrow> (reply \<times> string) option" where
  "decode 0 s = None"
| "decode (Suc d) [] = None"
| "decode (Suc d) (c # s) =
     (case split_crlf s of
        None \<Rightarrow> None
      | Some (line, rest) \<Rightarrow>
          (if c = CHR ''+'' then Some (RSimple line, rest)
           else if c = CHR ''-'' then Some (RError line, rest)
           else if c = CHR '':'' then map_option (\<lambda>i. (RInt i, rest)) (parse_int line)
           else if c = CHR ''$'' then decode_bulk line rest
           else if c = CHR ''*'' then
             (case parse_nat line of
                None \<Rightarrow> None
              | Some n \<Rightarrow>
                  (case decode_seq (decode d) n rest of
                     None \<Rightarrow> None
                   | Some (rs, u) \<Rightarrow> Some (RArray rs, u)))
           else None))"

definition reads_as :: "nat \<Rightarrow> reply \<Rightarrow> string \<Rightarrow> bool" where
  "reads_as d r s \<longleftrightarrow> (\<forall>rest. decode d (s @ rest) = Some (r, rest))"

section \<open>What the client reads\<close>

lemma split_crlf_line:
  "CR \<notin> set l \<Longrightarrow> split_crlf (l @ CR # LF # r) = Some (l, r)"
proof (induction l)
  case Nil
  then show ?case by simp
next
  case (Cons c l)
  obtain d t where dt: "l @ CR # LF # r = d # t" by (cases "l @ CR # LF # r") auto
  have "split_crlf (d # t) = Some (l, r)" using Cons by (simp add: dt [symmetric])
  then show ?case using Cons.prems by (auto simp: dt)
qed

lemma parse_nat_show_nat [simp]: "parse_nat (show_nat n) = Some n"
  by (simp add: parse_nat_def)

lemma show_nat_not_minus: "show_nat n \<noteq> CHR ''-'' # s"
  using show_nat_hd_digit [of n] by auto

lemma parse_int_show_int [simp]: "parse_int (show_int i) = Some i"
proof (cases "i < 0")
  case True
  then show ?thesis by (simp add: parse_int_def show_int_def)
next
  case False
  obtain c r where cr: "show_nat (nat i) = c # r" "is_digit c" by (rule show_nat_Cons)
  then have "strip_prefix_char CHR ''-'' (show_nat (nat i)) = None" by auto
  with False show ?thesis by (simp add: parse_int_def show_int_def)
qed

lemma sanitize_no_crlf: "CR \<notin> set (sanitize m)" "LF \<notin> set (sanitize m)"
  by (auto simp: sanitize_def)

lemma reads_as_simple [reply_intros]:
  "CR \<notin> set v \<Longrightarrow> reads_as (Suc d) (RSimple v) (simple_string v)"
  by (simp add: reads_as_def simple_string_def split_crlf_line)

lemma reads_as_error [reply_intros]:
  "reads_as (Suc d) (RError (sanitize m)) (resp_error m)"
proof -
  have "sanitize m = m" if "CR \<notin> set m" "LF \<notin> set m"
    unfolding sanitize_def using that by (intro map_idI) auto
  then show ?thesis
    by (auto simp: reads_as_def resp_error_def split_crlf_line sanitize_no_crlf)
qed

lemma reads_as_integer [reply_intros]: "reads_as (Suc d) (RInt (sint v)) (resp_integer v)"
  by (simp add: reads_as_def resp_integer_def show_i64_def split_crlf_line bytes_simps)

lemma reads_as_bulk [reply_intros]: "reads_as (Suc d) (RBulk v) (bulk_string v)"
  by (simp add: reads_as_def bulk_string_def split_crlf_line bytes_simps decode_bulk_def
      show_nat_not_minus)

lemma reads_as_null [reply_intros]: "reads_as (Suc d) RNull resp_null"
proof -
  have "split_crlf (''-1'' @ CR # LF # rest) = Some (''-1'', rest)" for rest
    by (rule split_crlf_line) simp
  then show ?thesis by (simp add: reads_as_def resp_null_def decode_bulk_def)
qed

lemma decode_seq_concat:
  "list_all2 (reads_as d) rs ss \<Longrightarrow>
     decode_seq (decode d) (length rs) (concat ss @ rest) = Some (rs, rest)"
  by (induction rs ss rule: list_all2_induct) (simp_all add: reads_as_def)

lemma reads_as_array:
  assumes "list_all2 (reads_as d) rs ss"
  shows "reads_as (Suc d) (RArray rs) (''*'' @ show_nat (length ss) @ crlf @ concat ss)"
  using assms decode_seq_concat [OF assms]
  by (simp add: reads_as_def split_crlf_line bytes_simps list_all2_lengthD [symmetric])

lemma push_bulks_concat: "push_bulks out items = out @ concat (map bulk_string items)"
  by (induction items arbitrary: out) simp_all

lemma resp_array_concat:
  "resp_array items = ''*'' @ show_nat (length items) @ crlf @ concat (map bulk_string items)"
  by (simp add: resp_array_def push_bulks_concat)

lemma reads_as_resp_array [reply_intros]:
  "reads_as (Suc (Suc d)) (RArray (map RBulk items)) (resp_array items)"
  using reads_as_array [of "Suc d" "map RBulk items" "map bulk_string items"]
  by (simp add: resp_array_concat list_all2_map1 list_all2_map2 list_all2_refl reads_as_bulk)

definition nullable_reply :: "string option \<Rightarrow> reply" where
  "nullable_reply v = (case v of None \<Rightarrow> RNull | Some s \<Rightarrow> RBulk s)"

definition nullable_bytes :: "string option \<Rightarrow> string" where
  "nullable_bytes v = (case v of None \<Rightarrow> resp_null | Some s \<Rightarrow> bulk_string s)"

lemma push_nullables_concat:
  "push_nullables out items = out @ concat (map nullable_bytes items)"
  by (induction out items rule: push_nullables.induct) (simp_all add: nullable_bytes_def)

lemma reads_as_nullable: "reads_as (Suc d) (nullable_reply v) (nullable_bytes v)"
  by (cases v) (simp_all add: nullable_reply_def nullable_bytes_def reply_intros)

lemma reads_as_nullable_array [reply_intros]:
  "reads_as (Suc (Suc d)) (RArray (map nullable_reply items)) (nullable_array items)"
  using reads_as_array [of "Suc d" "map nullable_reply items" "map nullable_bytes items"]
  by (simp add: nullable_array_def push_nullables_concat list_all2_map1 list_all2_map2
      list_all2_refl reads_as_nullable)

section \<open>Error replies\<close>

definition is_error_reply :: "string \<Rightarrow> bool" where
  "is_error_reply s \<longleftrightarrow> (case s of [] \<Rightarrow> False | c # _ \<Rightarrow> c = CHR ''-'')"

lemma is_error_reply_simps [simp]:
  "\<not> is_error_reply []" "\<not> is_error_reply (simple_string v)" "is_error_reply (resp_error m)"
  "\<not> is_error_reply (resp_integer i)" "\<not> is_error_reply (bulk_string v)"
  "\<not> is_error_reply resp_null" "\<not> is_error_reply (resp_array vs)"
  "\<not> is_error_reply (nullable_array items)"
  by (simp_all add: is_error_reply_def simple_string_def resp_error_def resp_integer_def
      bulk_string_def resp_null_def resp_array_concat nullable_array_def push_nullables_concat)

section \<open>Properties\<close>

text \<open>C26: an error reply is exactly one RESP error frame, whatever bytes the client put into the
  message, and its text holds no carriage return and no line feed.\<close>

theorem error_reply_never_splits:
  "decode 1 (resp_error message @ rest) = Some (RError (sanitize message), rest) \<and>
   CR \<notin> set (sanitize message) \<and> LF \<notin> set (sanitize message)"
  using reads_as_error [of 0 message] by (simp add: reads_as_def sanitize_no_crlf)

text \<open>An array reply, and an array with nil elements, are read back as exactly the items that
  were encoded, with the rest of the stream untouched.\<close>

lemma array_reply_roundtrip:
  "decode 2 (resp_array items @ rest) = Some (RArray (map RBulk items), rest) \<and>
   decode 2 (nullable_array nitems @ rest) = Some (RArray (map nullable_reply nitems), rest)"
  using reads_as_resp_array [of 0 items] reads_as_nullable_array [of 0 nitems]
  by (simp add: reads_as_def numeral_2_eq_2)

end
