(* ===== verification/Pubsub.thy ===== *)
theory Pubsub
  imports Resp Collections
begin

text \<open>
  The publish/subscribe registry of \<open>src/src/database/pubsub.rs\<close>: a map from channel to the
  subscribers' senders, keyed by subscriber id.  A sender is identified with the mailbox it
  feeds; \<open>open_boxes\<close>, an argument of \<open>ps_publish\<close>, tells which mailboxes still have
  their receiver, which is when \<open>send\<close> succeeds.  Delivery is the list of (mailbox, message)
  pairs that were sent.
\<close>

record pubsub =
  ps_channels :: "(string, (nat, nat) hash_map) hash_map"
  ps_next_id :: nat

definition pubsub_new :: pubsub where
  "pubsub_new = \<lparr>ps_channels = [], ps_next_id = 0\<rparr>"

text \<open>\<open>fetch_add\<close> on an \<open>AtomicU64\<close>: the old value, and wrap-around at the width.\<close>

definition ps_fresh_id :: "pubsub \<Rightarrow> nat \<times> pubsub" where
  "ps_fresh_id p = (ps_next_id p, p\<lparr>ps_next_id := (ps_next_id p + 1) mod 2 ^ 64\<rparr>)"

definition ps_subscribe :: "string \<Rightarrow> nat \<Rightarrow> nat \<Rightarrow> pubsub \<Rightarrow> pubsub" where
  "ps_subscribe channel sid sender p =
     (let subscribers =
        (case hm_get (ps_channels p) channel of Some subs \<Rightarrow> subs | None \<Rightarrow> [])
      in p\<lparr>ps_channels := hm_insert channel (hm_insert sid sender subscribers) (ps_channels p)\<rparr>)"

definition ps_unsubscribe :: "string \<Rightarrow> nat \<Rightarrow> pubsub \<Rightarrow> pubsub" where
  "ps_unsubscribe channel sid p =
     (case hm_get (ps_channels p) channel of
        None \<Rightarrow> p
      | Some subs \<Rightarrow>
          (let subs' = hm_remove sid subs in
           if subs' = [] then p\<lparr>ps_channels := hm_remove channel (ps_channels p)\<rparr>
           else p\<lparr>ps_channels := hm_insert channel subs' (ps_channels p)\<rparr>))"

definition ps_publish ::
    "nat set \<Rightarrow> string \<Rightarrow> string \<Rightarrow> pubsub \<Rightarrow> nat \<times> (nat \<times> string) list" where
  "ps_publish open_boxes channel payload p =
     (case hm_get (ps_channels p) channel of
        None \<Rightarrow> (0, [])
      | Some subs \<Rightarrow>
          (let message = resp_array [''message'', channel, payload];
               reached = filter (\<lambda>sender. sender \<in> open_boxes) (map snd subs)
           in (length reached, map (\<lambda>sender. (sender, message)) reached)))"

section \<open>The registry's invariant\<close>

text \<open>Who is subscribed to what; a channel entry never outlives its last subscriber.\<close>

definition subscribed :: "pubsub \<Rightarrow> string \<Rightarrow> nat \<Rightarrow> nat option" where
  "subscribed p channel sid =
     (case hm_get (ps_channels p) channel of None \<Rightarrow> None | Some subs \<Rightarrow> hm_get subs sid)"

definition pubsub_inv :: "pubsub \<Rightarrow> bool" where
  "pubsub_inv p \<longleftrightarrow>
     hm_wf (ps_channels p) \<and>
     (\<forall>(channel, subs) \<in> set (ps_channels p). subs \<noteq> [] \<and> hm_wf subs)"

lemma pubsub_inv_alt:
  "pubsub_inv p \<longleftrightarrow> hm_wf (ps_channels p) \<and>
     (\<forall>channel subs. hm_get (ps_channels p) channel = Some subs \<longrightarrow> subs \<noteq> [] \<and> hm_wf subs)"
  by (auto simp: pubsub_inv_def dest: map_of_SomeD map_of_is_SomeI)

lemma pubsub_inv_subscribe: "pubsub_inv p \<Longrightarrow> pubsub_inv (ps_subscribe channel i b p)"
  by (auto simp: pubsub_inv_alt ps_subscribe_def Let_def distinct_update update_nonempty
      split: option.splits)

lemma pubsub_inv_unsubscribe: "pubsub_inv p \<Longrightarrow> pubsub_inv (ps_unsubscribe channel i p)"
  by (auto simp: pubsub_inv_alt ps_unsubscribe_def Let_def distinct_update hash_map.invar_del
      split: option.splits if_splits)

lemma subscribed_subscribe:
  "subscribed (ps_subscribe channel i b p) c j =
     (if c = channel \<and> j = i then Some b else subscribed p c j)"
  by (auto simp: subscribed_def ps_subscribe_def Let_def split: option.splits)

lemma hm_remove_Nil_get: "hm_remove i m = [] \<Longrightarrow> j \<noteq> i \<Longrightarrow> hm_get m j = None"
  using hm_get_remove [of i m j] by simp

lemma subscribed_unsubscribe:
  "subscribed (ps_unsubscribe channel i p) c j =
     (if c = channel \<and> j = i then None else subscribed p c j)"
  by (auto simp: subscribed_def ps_unsubscribe_def Let_def hm_remove_Nil_get
      split: option.splits)

text \<open>PUBLISH delivers the one encoded message to exactly the open mailboxes subscribed to the
  channel, once per subscriber, and reports their number.\<close>

lemma publish_reaches:
  assumes "pubsub_inv p"
  shows "fst (ps_publish open_boxes channel payload p) =
           card {i. \<exists>b. subscribed p channel i = Some b \<and> b \<in> open_boxes} \<and>
         set (snd (ps_publish open_boxes channel payload p)) =
           {(b, resp_array [''message'', channel, payload]) | b i.
              subscribed p channel i = Some b \<and> b \<in> open_boxes}"
proof (cases "hm_get (ps_channels p) channel")
  case None
  then show ?thesis by (simp add: ps_publish_def subscribed_def)
next
  case (Some subs)
  then have wf: "hm_wf subs" using assms by (auto simp: pubsub_inv_alt)
  have "card {i. \<exists>b. hm_get subs i = Some b \<and> b \<in> open_boxes} =
      card (fst ` set (filter (\<lambda>(i, b). b \<in> open_boxes) subs))"
    using wf by (auto intro!: arg_cong [of _ _ card] simp: image_iff map_of_eq_Some_iff)
  also have "\<dots> = length (filter (\<lambda>b. b \<in> open_boxes) (map snd subs))"
  proof -
    have "distinct (map fst (filter (\<lambda>(i, b). b \<in> open_boxes) subs))"
      using wf by (rule distinct_map_filter)
    then have "card (set (map fst (filter (\<lambda>(i, b). b \<in> open_boxes) subs))) =
        length (filter (\<lambda>(i, b). b \<in> open_boxes) subs)"
      by (simp only: distinct_card length_map)
    then show ?thesis by (simp add: filter_map o_def case_prod_unfold)
  qed
  finally show ?thesis
    using Some wf
    by (auto simp: ps_publish_def subscribed_def Let_def image_iff map_of_eq_Some_iff) force
qed

end
