(* ===== verification/Database.thy ===== *)
theory Database
  imports Snapshot Pubsub
begin

text \<open>
  The shared \<open>Database\<close> handle of \<open>src/src/database/db.rs\<close>: the store, the counters behind
  \<open>INFO\<close>, the persistence settings and the pub/sub registry, with the append-only log of
  \<open>src/src/database/aof.rs\<close>.  What the outside world decides during one request is its
  \<open>env\<close>: the clock, whether a file operation fails, and which mailboxes are still open.  The
  crates the source calls are the record \<open>libs\<close>: the float order and the JSON codec.  The
  files' contents are part of the state, so that what survives a restart can be stated.
\<close>

datatype fsync_policy = FsyncAlways | FsyncEverySec | FsyncNo

definition fsync_policy_from_str :: "string \<Rightarrow> string + fsync_policy" where
  "fsync_policy_from_str val =
     (let l = to_ascii_lowercase val in
      if l = ''always'' then Inr FsyncAlways
      else if l = ''everysec'' then Inr FsyncEverySec
      else if l = ''no'' then Inr FsyncNo
      else Inl (''unknown fsync policy '' @ [CHR 0x27] @ l @ [CHR 0x27] @
                '' (expected always, everysec, or no)''))"

record libs =
  lib_float :: float_order
  lib_to_json :: "snapshot \<Rightarrow> string"
  lib_from_json :: "string \<Rightarrow> snapshot option"

record env =
  ev_now :: nat
  ev_save_error :: "string option"
  ev_append_failure :: "nat option"
  ev_open_boxes :: "nat set"

record database =
  db_store :: store
  db_started_at :: nat
  db_clients :: nat
  db_snapshot_path :: "string option"
  db_aof :: "string option"
  db_replaying :: bool
  db_pubsub :: pubsub
  db_snapshot_file :: "string option"
  db_pending_saves :: nat
  db_delivered :: "(nat \<times> string) list"

definition database_new :: "nat \<Rightarrow> database" where
  "database_new now =
     \<lparr>db_store = [], db_started_at = now, db_clients = 0, db_snapshot_path = None,
      db_aof = None, db_replaying = False, db_pubsub = pubsub_new, db_snapshot_file = None,
      db_pending_saves = 0, db_delivered = []\<rparr>"

definition with_persistence :: "nat \<Rightarrow> string option \<Rightarrow> string option \<Rightarrow> database" where
  "with_persistence now path aof =
     (database_new now)\<lparr>db_snapshot_path := path, db_aof := aof, db_replaying := False\<rparr>"

definition on_store :: "(store \<Rightarrow> 'r \<times> store) \<Rightarrow> database \<Rightarrow> 'r \<times> database" where
  "on_store f db = (let (r, s) = f (db_store db) in (r, db\<lparr>db_store := s\<rparr>))"

section \<open>Counters and INFO\<close>

text \<open>\<open>AtomicUsize\<close> counters wrap around at 64 bits.\<close>

definition client_connected :: "database \<Rightarrow> nat \<times> database" where
  "client_connected db =
     (let n = (db_clients db + 1) mod 2 ^ 64 in (n, db\<lparr>db_clients := n\<rparr>))"

definition client_disconnected :: "database \<Rightarrow> database" where
  "client_disconnected db = db\<lparr>db_clients := (db_clients db + (2 ^ 64 - 1)) mod 2 ^ 64\<rparr>"

definition db_info :: "nat \<Rightarrow> database \<Rightarrow> string" where
  "db_info now db =
     ''# Server'' @ crlf @ ''server_name:redis_clone'' @ crlf @
     ''uptime_in_seconds:'' @ show_nat ((now - db_started_at db) div nanos) @ crlf @
     crlf @ ''# Clients'' @ crlf @
     ''connected_clients:'' @ show_nat (db_clients db) @ crlf @
     crlf @ ''# Keyspace'' @ crlf @
     ''keys:'' @ show_nat (db_dbsize now (db_store db)) @ crlf"

section \<open>Persistence\<close>

text \<open>
  \<open>save_to\<close> writes a temporary file and renames it over the snapshot, so a failure leaves the
  old file in place; without a configured path \<open>save\<close> does nothing.
\<close>

definition db_save :: "libs \<Rightarrow> env \<Rightarrow> database \<Rightarrow> (string + unit) \<times> database" where
  "db_save lib ev db =
     (case db_snapshot_path db of
        None \<Rightarrow> (Inr (), db)
      | Some path \<Rightarrow>
          (case ev_save_error ev of
             Some cause \<Rightarrow> (Inl cause, db)
           | None \<Rightarrow>
               (Inr (), db\<lparr>db_snapshot_file :=
                  Some (lib_to_json lib (db_snapshot (ev_now ev) (db_store db)))\<rparr>)))"

text \<open>\<open>load_from\<close>: \<open>Inr False\<close> when there is no file, an error when it does not parse.\<close>

definition db_load_from :: "libs \<Rightarrow> env \<Rightarrow> database \<Rightarrow> (unit + bool) \<times> database" where
  "db_load_from lib ev db =
     (case db_snapshot_file db of
        None \<Rightarrow> (Inr False, db)
      | Some bytes \<Rightarrow>
          (case lib_from_json lib bytes of
             None \<Rightarrow> (Inl (), db)
           | Some sn \<Rightarrow>
               (Inr True, db\<lparr>db_store :=
                  db_load_snapshot (lib_float lib) (ev_now ev) sn (db_store db)\<rparr>)))"

text \<open>
  \<open>Aof::append\<close> writes one RESP array; when the write fails, some first part of it is in the
  file.  \<open>log_write\<close> skips it during replay.
\<close>

definition aof_append :: "env \<Rightarrow> string list \<Rightarrow> string \<Rightarrow> string" where
  "aof_append ev tokens bytes =
     (case ev_append_failure ev of
        None \<Rightarrow> bytes @ resp_array tokens
      | Some n \<Rightarrow> bytes @ take n (resp_array tokens))"

definition log_write :: "env \<Rightarrow> string list \<Rightarrow> database \<Rightarrow> database" where
  "log_write ev tokens db =
     (if db_replaying db then db
      else case db_aof db of
          Some bytes \<Rightarrow> db\<lparr>db_aof := Some (aof_append ev tokens bytes)\<rparr>
        | None \<Rightarrow> db)"

definition begin_replay :: "database \<Rightarrow> database" where
  "begin_replay db = db\<lparr>db_replaying := True\<rparr>"

definition end_replay :: "database \<Rightarrow> database" where
  "end_replay db = db\<lparr>db_replaying := False\<rparr>"

section \<open>Pub/Sub and the sweeper\<close>

definition db_publish :: "env \<Rightarrow> string \<Rightarrow> string \<Rightarrow> database \<Rightarrow> nat \<times> database" where
  "db_publish ev channel payload db =
     (let (n, sent) = ps_publish (ev_open_boxes ev) channel payload (db_pubsub db)
      in (n, db\<lparr>db_delivered := db_delivered db @ sent\<rparr>))"

definition db_subscribe :: "string \<Rightarrow> nat \<Rightarrow> nat \<Rightarrow> database \<Rightarrow> database" where
  "db_subscribe channel sid sender db =
     db\<lparr>db_pubsub := ps_subscribe channel sid sender (db_pubsub db)\<rparr>"

definition db_unsubscribe :: "string \<Rightarrow> nat \<Rightarrow> database \<Rightarrow> database" where
  "db_unsubscribe channel sid db =
     db\<lparr>db_pubsub := ps_unsubscribe channel sid (db_pubsub db)\<rparr>"

definition next_subscriber_id :: "database \<Rightarrow> nat \<times> database" where
  "next_subscriber_id db =
     (let (i, p) = ps_fresh_id (db_pubsub db) in (i, db\<lparr>db_pubsub := p\<rparr>))"

definition sweep :: "env \<Rightarrow> database \<Rightarrow> nat \<times> database" where
  "sweep ev db = on_store (db_sweep_expired (ev_now ev)) db"

section \<open>Frame facts\<close>

lemma on_store_simps [simp]:
  "fst (on_store f db) = fst (f (db_store db))"
  "snd (on_store f db) = db\<lparr>db_store := snd (f (db_store db))\<rparr>"
  by (simp_all add: on_store_def case_prod_unfold Let_def)

lemma on_store_eq: "on_store f db = (fst (f (db_store db)), db\<lparr>db_store := snd (f (db_store db))\<rparr>)"
  by (simp add: prod_eq_iff)

lemma log_write_frame [simp]:
  "db_store (log_write ev tokens db) = db_store db"
  "db_pubsub (log_write ev tokens db) = db_pubsub db"
  "db_replaying (log_write ev tokens db) = db_replaying db"
  "db_snapshot_file (log_write ev tokens db) = db_snapshot_file db"
  "db_delivered (log_write ev tokens db) = db_delivered db"
  by (simp_all add: log_write_def split: option.splits)

lemma db_save_frame [simp]:
  "db_store (snd (db_save lib ev db)) = db_store db"
  "db_aof (snd (db_save lib ev db)) = db_aof db"
  "db_pubsub (snd (db_save lib ev db)) = db_pubsub db"
  "db_replaying (snd (db_save lib ev db)) = db_replaying db"
  by (simp_all add: db_save_def split: option.splits)

lemma db_publish_frame [simp]:
  "db_store (snd (db_publish ev c p db)) = db_store db"
  "db_aof (snd (db_publish ev c p db)) = db_aof db"
  "db_pubsub (snd (db_publish ev c p db)) = db_pubsub db"
  "db_replaying (snd (db_publish ev c p db)) = db_replaying db"
  by (simp_all add: db_publish_def case_prod_unfold Let_def)

end
