(* ===== verification/Execute.thy ===== *)
theory Execute
  imports Command Database
begin

text \<open>
  The second and third stage of \<open>src/src/command/mod.rs\<close>: \<open>execute\<close> runs a parsed command
  against the database and encodes its reply, one equation per arm; \<open>dispatch\<close> parses,
  executes and logs a request.  Both return the reply together with the new database.
\<close>

section \<open>Reply helpers\<close>

definition error_of :: "store_error \<Rightarrow> string" where
  "error_of err = resp_error (store_error_string err)"

definition of_bool_i64 :: "bool \<Rightarrow> i64" where
  "of_bool_i64 b = (if b then 1 else 0)"

definition reply_optional :: "store_error + string option \<Rightarrow> string" where
  "reply_optional r =
     (case r of Inr (Some v) \<Rightarrow> bulk_string v | Inr None \<Rightarrow> resp_null | Inl err \<Rightarrow> error_of err)"

definition reply_array :: "store_error + string list \<Rightarrow> string" where
  "reply_array r = (case r of Inr vs \<Rightarrow> resp_array vs | Inl err \<Rightarrow> error_of err)"

definition reply_bool :: "store_error + bool \<Rightarrow> string" where
  "reply_bool r = (case r of Inr b \<Rightarrow> resp_integer (of_bool_i64 b) | Inl err \<Rightarrow> error_of err)"

definition reply_count :: "store_error + nat \<Rightarrow> string" where
  "reply_count r = (case r of Inr n \<Rightarrow> resp_integer (of_nat n) | Inl err \<Rightarrow> error_of err)"

definition reply_signed :: "store_error + i64 \<Rightarrow> string" where
  "reply_signed r = (case r of Inr v \<Rightarrow> resp_integer v | Inl err \<Rightarrow> error_of err)"

definition reply_status :: "store_error + unit \<Rightarrow> string" where
  "reply_status r = (case r of Inr _ \<Rightarrow> simple_string ''OK'' | Inl err \<Rightarrow> error_of err)"

definition format_score :: "f64 \<Rightarrow> string" where
  "format_score score = f64_to_string score"

definition reply_score :: "store_error + f64 \<Rightarrow> string" where
  "reply_score r =
     (case r of Inr score \<Rightarrow> bulk_string (format_score score) | Inl err \<Rightarrow> error_of err)"

definition reply_score_option :: "store_error + f64 option \<Rightarrow> string" where
  "reply_score_option r =
     (case r of
        Inr (Some score) \<Rightarrow> bulk_string (format_score score)
      | Inr None \<Rightarrow> resp_null
      | Inl err \<Rightarrow> error_of err)"

definition reply_rank :: "store_error + nat option \<Rightarrow> string" where
  "reply_rank r =
     (case r of
        Inr (Some rank) \<Rightarrow> resp_integer (of_nat rank)
      | Inr None \<Rightarrow> resp_null
      | Inl err \<Rightarrow> error_of err)"

definition reply_scored :: "store_error + (string \<times> f64) list \<Rightarrow> string" where
  "reply_scored r =
     (case r of
        Inr pairs \<Rightarrow>
          resp_array (flatten_pairs (map (\<lambda>(member, score). (member, format_score score)) pairs))
      | Inl err \<Rightarrow> error_of err)"

section \<open>Execution\<close>

text \<open>\<open>run reply f\<close> runs a store operation and encodes its result.\<close>

definition run :: "('r \<Rightarrow> string) \<Rightarrow> (store \<Rightarrow> 'r \<times> store) \<Rightarrow> database \<Rightarrow> string \<times> database" where
  "run reply f db = (case on_store f db of (r, db') \<Rightarrow> (reply r, db'))"

definition peek :: "('r \<Rightarrow> string) \<Rightarrow> (store \<Rightarrow> 'r) \<Rightarrow> database \<Rightarrow> string \<times> database" where
  "peek reply f db = (reply (f (db_store db)), db)"

abbreviation ok_reply :: "'a \<Rightarrow> string" where
  "ok_reply x \<equiv> simple_string ''OK''"

abbreviation count_reply :: "nat \<Rightarrow> string" where
  "count_reply n \<equiv> resp_integer (of_nat n)"

abbreviation flag_reply :: "bool \<Rightarrow> string" where
  "flag_reply b \<equiv> resp_integer (of_bool_i64 b)"

primrec execute :: "command \<Rightarrow> libs \<Rightarrow> env \<Rightarrow> database \<Rightarrow> string \<times> database" where
  "execute (CSet key val ttl) lib ev = run ok_reply (\<lambda>s. ((), db_set (ev_now ev) key val ttl s))"
| "execute (CGet key) lib ev = run reply_optional (db_get (ev_now ev) key)"
| "execute (CDel keys) lib ev = run count_reply (db_del (ev_now ev) keys)"
| "execute (CLPush key vals) lib ev = run reply_count (db_lpush (ev_now ev) key vals)"
| "execute (CRPush key vals) lib ev = run reply_count (db_rpush (ev_now ev) key vals)"
| "execute (CLPop key) lib ev = run reply_optional (db_lpop (ev_now ev) key)"
| "execute (CRPop key) lib ev = run reply_optional (db_rpop (ev_now ev) key)"
| "execute (CLRange key start stop) lib ev = run reply_array (db_lrange (ev_now ev) key start stop)"
| "execute (CSAdd key vals) lib ev = run reply_count (db_sadd (ev_now ev) key vals)"
| "execute (CSRem key vals) lib ev = run reply_count (db_srem (ev_now ev) key vals)"
| "execute (CSMembers key) lib ev = run reply_array (db_smembers (ev_now ev) key)"
| "execute (CSIsMember key val) lib ev = run reply_bool (db_sismember (ev_now ev) key val)"
| "execute (CZAdd key members) lib ev =
     run reply_count (db_zadd (lib_float lib) (ev_now ev) key members)"
| "execute (CZRem key member) lib ev =
     run reply_bool (db_zrem (lib_float lib) (ev_now ev) key member)"
| "execute (CZRange key start stop with_scores) lib ev =
     (if with_scores then run reply_scored (db_zrange_with_scores (ev_now ev) key start stop)
      else run reply_array (db_zrange (ev_now ev) key start stop))"
| "execute (CZScore key member) lib ev = run reply_score_option (db_zscore (ev_now ev) key member)"
| "execute (CHSet key field val) lib ev = run reply_bool (db_hset (ev_now ev) key field val)"
| "execute (CHGet key field) lib ev = run reply_optional (db_hget (ev_now ev) key field)"
| "execute (CHDel key field) lib ev = run reply_bool (db_hdel (ev_now ev) key field)"
| "execute (CHGetAll key) lib ev = run reply_array (db_hgetall (ev_now ev) key)"
| "execute (CHKeys key) lib ev = run reply_array (db_hkeys (ev_now ev) key)"
| "execute (CHVals key) lib ev = run reply_array (db_hvals (ev_now ev) key)"
| "execute (CHLen key) lib ev = run reply_count (db_hlen (ev_now ev) key)"
| "execute (CHExists key field) lib ev = run reply_bool (db_hexists (ev_now ev) key field)"
| "execute (CHIncrBy key field delta) lib ev =
     run reply_signed (db_hincrby (ev_now ev) key field delta)"
| "execute (CExists keys) lib ev = peek count_reply (db_exists (ev_now ev) keys)"
| "execute (CType key) lib ev = run simple_string (db_type_of (ev_now ev) key)"
| "execute (CKeys pattern) lib ev = peek resp_array (db_keys (ev_now ev) pattern)"
| "execute (CExpire key seconds) lib ev = run flag_reply (db_expire (ev_now ev) key seconds)"
| "execute (CTtl key) lib ev = run resp_integer (db_ttl (ev_now ev) key)"
| "execute (CPersist key) lib ev = run flag_reply (db_persist (ev_now ev) key)"
| "execute (CRename key new_key) lib ev =
     run (\<lambda>ok. if ok then simple_string ''OK'' else resp_error ''ERR no such key'')
       (db_rename (ev_now ev) key new_key)"
| "execute (CPing message) lib ev =
     (\<lambda>db. (case message of Some m \<Rightarrow> bulk_string m | None \<Rightarrow> simple_string ''PONG'', db))"
| "execute (CEcho message) lib ev = (\<lambda>db. (bulk_string message, db))"
| "execute CDbSize lib ev = peek count_reply (db_dbsize (ev_now ev))"
| "execute CFlushAll lib ev = run ok_reply (\<lambda>s. ((), db_flushall s))"
| "execute CInfo lib ev = (\<lambda>db. (bulk_string (db_info (ev_now ev) db), db))"
| "execute CSave lib ev =
     (\<lambda>db. case db_save lib ev db of
             (Inr _, db') \<Rightarrow> (simple_string ''OK'', db')
           | (Inl cause, db') \<Rightarrow> (resp_error (''ERR '' @ cause), db'))"
| "execute CBgSave lib ev =
     (\<lambda>db. (simple_string ''Background saving started'',
             db\<lparr>db_pending_saves := db_pending_saves db + 1\<rparr>))"
| "execute (CPublish channel message) lib ev =
     (\<lambda>db. case db_publish ev channel message db of (n, db') \<Rightarrow> (resp_integer (of_nat n), db'))"
| "execute (CIncrBy key delta) lib ev = run reply_signed (db_incr_by (ev_now ev) key delta)"
| "execute (CAppend key val) lib ev = run reply_count (db_append (ev_now ev) key val)"
| "execute (CStrLen key) lib ev = run reply_count (db_strlen (ev_now ev) key)"
| "execute (CMGet keys) lib ev = peek nullable_array (db_mget (ev_now ev) keys)"
| "execute (CMSet pairs) lib ev = run ok_reply (\<lambda>s. ((), db_mset pairs s))"
| "execute (CSetNx key val) lib ev = run flag_reply (db_setnx (ev_now ev) key val)"
| "execute (CGetSet key val) lib ev = run reply_optional (db_getset (ev_now ev) key val)"
| "execute (CLLen key) lib ev = run reply_count (db_llen (ev_now ev) key)"
| "execute (CLIndex key index) lib ev = run reply_optional (db_lindex (ev_now ev) key index)"
| "execute (CLSet key index val) lib ev = run reply_status (db_lset (ev_now ev) key index val)"
| "execute (CSCard key) lib ev = run reply_count (db_scard (ev_now ev) key)"
| "execute (CSPop key) lib ev = run reply_optional (db_spop (ev_now ev) key)"
| "execute (CSInter keys) lib ev = peek reply_array (db_sinter (ev_now ev) keys)"
| "execute (CSUnion keys) lib ev = peek reply_array (db_sunion (ev_now ev) keys)"
| "execute (CSDiff keys) lib ev = peek reply_array (db_sdiff (ev_now ev) keys)"
| "execute (CZCard key) lib ev = run reply_count (db_zcard (ev_now ev) key)"
| "execute (CZRank key member) lib ev = run reply_rank (db_zrank (ev_now ev) key member)"
| "execute (CZIncrBy key increment member) lib ev =
     run reply_score (db_zincrby (lib_float lib) (ev_now ev) key increment member)"
| "execute (CZRangeByScore key lo lo_incl hi hi_incl) lib ev =
     run reply_array (db_zrange_by_score (ev_now ev) key lo lo_incl hi hi_incl)"

section \<open>Dispatch\<close>

definition dispatch_spop :: "libs \<Rightarrow> env \<Rightarrow> string \<Rightarrow> database \<Rightarrow> string \<times> database" where
  "dispatch_spop lib ev key db =
     (case on_store (db_spop (ev_now ev) key) db of
        (popped, db1) \<Rightarrow>
          (reply_optional popped,
           case popped of
             Inr (Some member) \<Rightarrow> log_write ev [''SREM'', key, member] db1
           | _ \<Rightarrow> db1))"

definition dispatch_command ::
    "libs \<Rightarrow> env \<Rightarrow> string list \<Rightarrow> command \<Rightarrow> database \<Rightarrow> string \<times> database" where
  "dispatch_command lib ev tokens cmd db =
     (case execute cmd lib ev db of
        (reply, db1) \<Rightarrow>
          (reply, if is_write cmd \<and> \<not> is_error_reply reply then log_write ev tokens db1 else db1))"

definition dispatch :: "libs \<Rightarrow> env \<Rightarrow> string list \<Rightarrow> database \<Rightarrow> string \<times> database" where
  "dispatch lib ev tokens db =
     (if tokens = [] then ([], db)
      else case parse tokens of
          Inr cmd \<Rightarrow>
            (case cmd of
               CSPop key \<Rightarrow> dispatch_spop lib ev key db
             | _ \<Rightarrow> dispatch_command lib ev tokens cmd db)
        | Inl err \<Rightarrow> (resp_error (command_error_string err), db))"

end
