(* ===== verification/Session.thy ===== *)
theory Session
  imports Execute
begin

text \<open>
  Per-connection state, \<open>src/src/session.rs\<close>: transactions and subscribe mode.  The receiving
  end of the mailbox belongs to the connection loop; here a mailbox is its number.  Every
  command that \<open>EXEC\<close> runs awaits the store on its own, so the environment of the \<open>i\<close>-th
  command of one request is \<open>evs i\<close>: the clock may advance in between.
\<close>

section \<open>State\<close>

record transaction =
  tx_commands :: "string list list"
  tx_dirty :: bool

record session =
  ss_id :: nat
  ss_mailbox :: nat
  ss_channels :: "string hash_set"
  ss_transaction :: "transaction option"

definition session_new :: "nat \<Rightarrow> database \<Rightarrow> session \<times> database" where
  "session_new mailbox db =
     (case next_subscriber_id db of
        (i, db') \<Rightarrow>
          (\<lparr>ss_id = i, ss_mailbox = mailbox, ss_channels = [], ss_transaction = None\<rparr>, db'))"

definition is_subscribed :: "session \<Rightarrow> bool" where
  "is_subscribed ss \<longleftrightarrow> ss_channels ss \<noteq> []"

section \<open>Transactions\<close>

definition begin_multi :: "session \<Rightarrow> string \<times> session" where
  "begin_multi ss =
     (if ss_transaction ss \<noteq> None then (resp_error ''ERR MULTI calls can not be nested'', ss)
      else (simple_string ''OK'',
            ss\<lparr>ss_transaction := Some \<lparr>tx_commands = [], tx_dirty = False\<rparr>\<rparr>))"

definition discard :: "session \<Rightarrow> string \<times> session" where
  "discard ss =
     (case ss_transaction ss of
        Some _ \<Rightarrow> (simple_string ''OK'', ss\<lparr>ss_transaction := None\<rparr>)
      | None \<Rightarrow> (resp_error ''ERR DISCARD without MULTI'', ss))"

text \<open>The loop of \<open>exec\<close>, which appends each queued command's raw reply.\<close>

fun exec_loop ::
    "libs \<Rightarrow> (nat \<Rightarrow> env) \<Rightarrow> nat \<Rightarrow> string list list \<Rightarrow> string \<Rightarrow> database \<Rightarrow> string \<times> database" where
  "exec_loop lib evs i [] reply db = (reply, db)"
| "exec_loop lib evs i (cmd # cmds) reply db =
     (case dispatch lib (evs i) cmd db of
        (r, db') \<Rightarrow> exec_loop lib evs (i + 1) cmds (reply @ r) db')"

definition exec ::
    "libs \<Rightarrow> (nat \<Rightarrow> env) \<Rightarrow> session \<Rightarrow> database \<Rightarrow> string \<times> session \<times> database" where
  "exec lib evs ss db =
     (case ss_transaction ss of
        None \<Rightarrow> (resp_error ''ERR EXEC without MULTI'', ss, db)
      | Some tx \<Rightarrow>
          (let ss' = ss\<lparr>ss_transaction := None\<rparr> in
           if tx_dirty tx
           then (resp_error ''EXECABORT Transaction discarded because of previous errors.'', ss', db)
           else case exec_loop lib evs 0 (tx_commands tx)
                  (''*'' @ show_nat (length (tx_commands tx)) @ crlf) db of
               (reply, db') \<Rightarrow> (reply, ss', db')))"

section \<open>Pub/Sub\<close>

definition subscription_reply :: "string \<Rightarrow> string \<Rightarrow> nat \<Rightarrow> string" where
  "subscription_reply kind channel n =
     ''*3'' @ crlf @ bulk_string kind @ bulk_string channel @ resp_integer (of_nat n)"

definition subscription_reply_null :: "string \<Rightarrow> string" where
  "subscription_reply_null kind = ''*3'' @ crlf @ bulk_string kind @ resp_null @ resp_integer 0"

fun subscribe_loop ::
    "string list \<Rightarrow> string \<Rightarrow> session \<Rightarrow> database \<Rightarrow> string \<times> session \<times> database" where
  "subscribe_loop [] reply ss db = (reply, ss, db)"
| "subscribe_loop (channel # cs) reply ss db =
     (let inserted = channel \<notin> set (ss_channels ss);
          ss' = ss\<lparr>ss_channels := hs_insert channel (ss_channels ss)\<rparr>;
          db' = (if inserted then db_subscribe channel (ss_id ss) (ss_mailbox ss) db else db)
      in subscribe_loop cs
           (reply @ subscription_reply ''subscribe'' channel (length (ss_channels ss'))) ss' db')"

definition subscribe :: "string list \<Rightarrow> session \<Rightarrow> database \<Rightarrow> string \<times> session \<times> database" where
  "subscribe channels ss db =
     (if channels = []
      then (resp_error (''ERR wrong number of arguments for '' @ [CHR 0x27] @ ''subscribe'' @
              [CHR 0x27] @ '' command''), ss, db)
      else subscribe_loop channels [] ss db)"

fun unsubscribe_loop ::
    "string list \<Rightarrow> string \<Rightarrow> session \<Rightarrow> database \<Rightarrow> string \<times> session \<times> database" where
  "unsubscribe_loop [] reply ss db = (reply, ss, db)"
| "unsubscribe_loop (channel # cs) reply ss db =
     (let removed = channel \<in> set (ss_channels ss);
          ss' = ss\<lparr>ss_channels := hs_remove channel (ss_channels ss)\<rparr>;
          db' = (if removed then db_unsubscribe channel (ss_id ss) db else db)
      in unsubscribe_loop cs
           (reply @ subscription_reply ''unsubscribe'' channel (length (ss_channels ss'))) ss' db')"

definition unsubscribe :: "string list \<Rightarrow> session \<Rightarrow> database \<Rightarrow> string \<times> session \<times> database" where
  "unsubscribe channels ss db =
     (let targets = (if channels = [] then ss_channels ss else channels) in
      if targets = [] then (subscription_reply_null ''unsubscribe'', ss, db)
      else unsubscribe_loop targets [] ss db)"

definition cleanup :: "session \<Rightarrow> database \<Rightarrow> database" where
  "cleanup ss db = fold (\<lambda>channel. db_unsubscribe channel (ss_id ss)) (ss_channels ss) db"

section \<open>The request handler\<close>

definition subscribe_mode_error :: "string \<Rightarrow> string" where
  "subscribe_mode_error name =
     resp_error (''ERR Can'' @ [CHR 0x27] @ ''t execute '' @ [CHR 0x27] @ to_ascii_lowercase name @
       [CHR 0x27] @ '': only (UN)SUBSCRIBE / PING are allowed in subscribe mode'')"

definition enqueue :: "string \<Rightarrow> string list \<Rightarrow> transaction \<Rightarrow> string \<times> transaction" where
  "enqueue name tokens tx =
     (if name \<in> {''SUBSCRIBE'', ''UNSUBSCRIBE''}
      then (resp_error (''ERR '' @ name @ '' is not allowed in transactions''), tx\<lparr>tx_dirty := True\<rparr>)
      else case parse tokens of
          Inr _ \<Rightarrow> (simple_string ''QUEUED'', tx\<lparr>tx_commands := tx_commands tx @ [tokens]\<rparr>)
        | Inl err \<Rightarrow> (resp_error (command_error_string err), tx\<lparr>tx_dirty := True\<rparr>))"

definition handle ::
    "libs \<Rightarrow> (nat \<Rightarrow> env) \<Rightarrow> string list \<Rightarrow> session \<Rightarrow> database \<Rightarrow> string \<times> session \<times> database" where
  "handle lib evs tokens ss db =
     (case tokens of
        [] \<Rightarrow> ([], ss, db)
      | first # args \<Rightarrow>
          (let name = to_ascii_uppercase first in
           if is_subscribed ss \<and> name \<notin> {''SUBSCRIBE'', ''UNSUBSCRIBE'', ''PING''}
           then (subscribe_mode_error name, ss, db)
           else if name = ''MULTI'' then (case begin_multi ss of (r, ss') \<Rightarrow> (r, ss', db))
           else if name = ''EXEC'' then exec lib evs ss db
           else if name = ''DISCARD'' then (case discard ss of (r, ss') \<Rightarrow> (r, ss', db))
           else
             (case ss_transaction ss of
                Some tx \<Rightarrow>
                  (case enqueue name tokens tx of
                     (r, tx') \<Rightarrow> (r, ss\<lparr>ss_transaction := Some tx'\<rparr>, db))
              | None \<Rightarrow>
                  (if name = ''SUBSCRIBE'' then subscribe args ss db
                   else if name = ''UNSUBSCRIBE'' then unsubscribe args ss db
                   else case dispatch lib (evs 0) tokens db of (r, db') \<Rightarrow> (r, ss, db')))))"

end
