(* ===== verification/Effect.thy ===== *)
theory Effect
  imports Execute
begin

text \<open>
  The abstract specification of the keyspace: what each command does to the map of live keys,
  \<open>effect\<close>, without eviction, accessors, loops or reply encoding.  A client cannot tell an
  expired key from a missing one, so this map is all it can observe.  \<open>refines\<close> says that a
  reply and a new database implement an outcome of the specification; the lemmas per shape
  (\<open>grow\<close>, \<open>shrink\<close>, reads) reduce every command to a comparison of its two updates.
\<close>

named_theorems effect_intros \<open>commands that implement their effect\<close>

type_synonym keyspace = "string \<Rightarrow> entry option"

section \<open>The specification\<close>

text \<open>
  Change the value at a key from what \<open>f\<close> sees of it (\<open>None\<close> when absent) to what \<open>f\<close>
  returns (\<open>None\<close> to remove it), keeping the deadline of a key that exists.
\<close>

definition alter ::
    "(db_value \<Rightarrow> 'c option) \<Rightarrow> ('c \<Rightarrow> db_value) \<Rightarrow> ('c option \<Rightarrow> store_error + 'c option) \<Rightarrow>
     string \<Rightarrow> keyspace \<Rightarrow> store_error + keyspace" where
  "alter unwrap wrap f k m =
     (case m k of
        None \<Rightarrow>
          map_sum id (\<lambda>c. m(k := map_option (\<lambda>c. \<lparr>en_value = wrap c, en_expires_at = None\<rparr>) c))
            (f None)
      | Some e \<Rightarrow>
          (case unwrap (en_value e) of
             None \<Rightarrow> Inl WrongType
           | Some c \<Rightarrow>
               map_sum id (\<lambda>c. m(k := map_option (\<lambda>c. e\<lparr>en_value := wrap c\<rparr>) c)) (f (Some c))))"

definition on_present :: "('c \<Rightarrow> 'd option) \<Rightarrow> 'c option \<Rightarrow> store_error + 'd option" where
  "on_present f c = Inr (Option.bind c f)"

definition with_default :: "'c \<Rightarrow> ('c \<Rightarrow> 'c) \<Rightarrow> 'c option \<Rightarrow> store_error + 'c option" where
  "with_default c0 f c = Inr (Some (f (case c of None \<Rightarrow> c0 | Some x \<Rightarrow> x)))"

definition keep_if :: "('c \<Rightarrow> bool) \<Rightarrow> 'c \<Rightarrow> 'c option" where
  "keep_if P c = (if P c then Some c else None)"

text \<open>A command that only reads needs the key to be absent or of the right type.\<close>

definition requires :: "(db_value \<Rightarrow> 'c option) \<Rightarrow> string \<Rightarrow> keyspace \<Rightarrow> store_error + keyspace" where
  "requires unwrap k m =
     (case m k of
        Some e \<Rightarrow> (if unwrap (en_value e) = None then Inl WrongType else Inr m)
      | None \<Rightarrow> Inr m)"

definition requires_all ::
    "(db_value \<Rightarrow> 'c option) \<Rightarrow> string list \<Rightarrow> keyspace \<Rightarrow> store_error + keyspace" where
  "requires_all unwrap ks m =
     (if \<forall>k \<in> set ks. requires unwrap k m = Inr m then Inr m else Inl WrongType)"

definition number_of :: "store_error \<Rightarrow> string option \<Rightarrow> store_error + i64" where
  "number_of err v =
     (case v of
        None \<Rightarrow> Inr 0
      | Some t \<Rightarrow> (case parse_i64 t of None \<Rightarrow> Inl err | Some i \<Rightarrow> Inr i))"

definition add_to :: "i64 \<Rightarrow> store_error + i64 \<Rightarrow> store_error + i64" where
  "add_to delta r =
     (case r of
        Inl err \<Rightarrow> Inl err
      | Inr i \<Rightarrow> (case checked_add i delta of None \<Rightarrow> Inl Overflow | Some j \<Rightarrow> Inr j))"

primrec effect :: "command \<Rightarrow> float_order \<Rightarrow> nat \<Rightarrow> keyspace \<Rightarrow> store_error + keyspace" where
  "effect (CSet k v ttl) fo now m =
     (let e = \<lparr>en_value = VStr v, en_expires_at = Option.bind ttl (deadline_after now)\<rparr>
      in Inr (m(k := if is_expired now e then None else Some e)))"
| "effect (CGet k) fo now m = requires as_str k m"
| "effect (CDel ks) fo now m = Inr (m |` (- set ks))"
| "effect (CLPush k vs) fo now m = alter as_list VList (with_default [] (\<lambda>l. rev vs @ l)) k m"
| "effect (CRPush k vs) fo now m = alter as_list VList (with_default [] (\<lambda>l. l @ vs)) k m"
| "effect (CLPop k) fo now m =
     alter as_list VList (on_present (\<lambda>l. keep_if (\<lambda>l. l \<noteq> []) (tl l))) k m"
| "effect (CRPop k) fo now m =
     alter as_list VList (on_present (\<lambda>l. keep_if (\<lambda>l. l \<noteq> []) (butlast l))) k m"
| "effect (CLRange k a b) fo now m = requires as_list k m"
| "effect (CSAdd k vs) fo now m = alter as_set VSet (with_default [] (fold hs_insert vs)) k m"
| "effect (CSRem k vs) fo now m =
     alter as_set VSet (on_present (\<lambda>x. keep_if (\<lambda>x. x \<noteq> []) (fold hs_remove vs x))) k m"
| "effect (CSMembers k) fo now m = requires as_set k m"
| "effect (CSIsMember k v) fo now m = requires as_set k m"
| "effect (CZAdd k ms) fo now m =
     alter as_zset VSortedSet
       (with_default zset_new (fold (\<lambda>(sc, mb) z. snd (zs_zadd fo sc mb z)) ms)) k m"
| "effect (CZRem k mb) fo now m =
     alter as_zset VSortedSet
       (on_present (\<lambda>z. keep_if (\<lambda>z. \<not> zs_is_empty z) (snd (zs_zrem fo mb z)))) k m"
| "effect (CZRange k a b w) fo now m = requires as_zset k m"
| "effect (CZScore k mb) fo now m = requires as_zset k m"
| "effect (CHSet k f v) fo now m = alter as_hash VHash (with_default [] (hm_insert f v)) k m"
| "effect (CHGet k f) fo now m = requires as_hash k m"
| "effect (CHDel k f) fo now m =
     alter as_hash VHash (on_present (\<lambda>h. keep_if (\<lambda>h. h \<noteq> []) (hm_remove f h))) k m"
| "effect (CHGetAll k) fo now m = requires as_hash k m"
| "effect (CHKeys k) fo now m = requires as_hash k m"
| "effect (CHVals k) fo now m = requires as_hash k m"
| "effect (CHLen k) fo now m = requires as_hash k m"
| "effect (CHExists k f) fo now m = requires as_hash k m"
| "effect (CHIncrBy k f delta) fo now m =
     alter as_hash VHash
       (\<lambda>h. let h0 = (case h of None \<Rightarrow> [] | Some x \<Rightarrow> x) in
          map_sum id (\<lambda>i. Some (hm_insert f (show_i64 i) h0))
            (add_to delta (number_of NotAHashInteger (hm_get h0 f)))) k m"
| "effect (CExists ks) fo now m = Inr m"
| "effect (CType k) fo now m = Inr m"
| "effect (CKeys p) fo now m = Inr m"
| "effect (CExpire k n) fo now m =
     Inr (m(k := if sint n \<le> 0 then None
                 else map_option (\<lambda>e. e\<lparr>en_expires_at := deadline_after now (nat (sint n))\<rparr>) (m k)))"
| "effect (CTtl k) fo now m = Inr m"
| "effect (CPersist k) fo now m =
     Inr (m(k := map_option (\<lambda>e. e\<lparr>en_expires_at := None\<rparr>) (m k)))"
| "effect (CRename k k') fo now m =
     (case m k of None \<Rightarrow> Inl NoSuchKey | Some e \<Rightarrow> Inr (m(k := None, k' := Some e)))"
| "effect (CPing msg) fo now m = Inr m"
| "effect (CEcho msg) fo now m = Inr m"
| "effect CDbSize fo now m = Inr m"
| "effect CFlushAll fo now m = Inr Map.empty"
| "effect CInfo fo now m = Inr m"
| "effect CSave fo now m = Inr m"
| "effect CBgSave fo now m = Inr m"
| "effect (CPublish c p) fo now m = Inr m"
| "effect (CIncrBy k delta) fo now m =
     alter as_str VStr (\<lambda>v. map_sum id (\<lambda>i. Some (show_i64 i)) (add_to delta (number_of NotAnInteger v)))
       k m"
| "effect (CAppend k v) fo now m = alter as_str VStr (with_default [] (\<lambda>t. t @ v)) k m"
| "effect (CStrLen k) fo now m = requires as_str k m"
| "effect (CMGet ks) fo now m = Inr m"
| "effect (CMSet pairs) fo now m =
     Inr (m ++ map_of (rev (map (\<lambda>(k, v). (k, \<lparr>en_value = VStr v, en_expires_at = None\<rparr>)) pairs)))"
| "effect (CSetNx k v) fo now m =
     Inr (if m k = None then m(k \<mapsto> \<lparr>en_value = VStr v, en_expires_at = None\<rparr>) else m)"
| "effect (CGetSet k v) fo now m =
     map_sum id (\<lambda>_. m(k \<mapsto> \<lparr>en_value = VStr v, en_expires_at = None\<rparr>)) (requires as_str k m)"
| "effect (CLLen k) fo now m = requires as_list k m"
| "effect (CLIndex k i) fo now m = requires as_list k m"
| "effect (CLSet k i v) fo now m =
     alter as_list VList
       (\<lambda>l. case l of
              None \<Rightarrow> Inl NoSuchKey
            | Some l \<Rightarrow>
                (case normalize_index i (length l) of
                   None \<Rightarrow> Inl IndexOutOfRange | Some j \<Rightarrow> Inr (Some (l[j := v])))) k m"
| "effect (CSCard k) fo now m = requires as_set k m"
| "effect (CSPop k) fo now m =
     alter as_set VSet
       (on_present (\<lambda>x. keep_if (\<lambda>x. x \<noteq> []) (if x = [] then x else hs_remove (hd x) x))) k m"
| "effect (CSInter ks) fo now m = requires_all as_set ks m"
| "effect (CSUnion ks) fo now m = requires_all as_set ks m"
| "effect (CSDiff ks) fo now m = requires_all as_set ks m"
| "effect (CZCard k) fo now m = requires as_zset k m"
| "effect (CZRank k mb) fo now m = requires as_zset k m"
| "effect (CZIncrBy k incr mb) fo now m =
     alter as_zset VSortedSet
       (\<lambda>z. let z0 = (case z of None \<Rightarrow> zset_new | Some x \<Rightarrow> x);
                sum = f64_add (case zs_zscore mb z0 of None \<Rightarrow> f64_zero | Some x \<Rightarrow> x) incr
            in if is_nan sum then Inl ScoreNaN else Inr (Some (snd (zs_zadd fo sum mb z0)))) k m"
| "effect (CZRangeByScore k a ai b bi) fo now m = requires as_zset k m"

section \<open>Implementing an outcome\<close>

definition implements :: "nat \<Rightarrow> store \<Rightarrow> ('e + 'r) \<times> store \<Rightarrow> 'e + keyspace \<Rightarrow> bool" where
  "implements now s out spec \<longleftrightarrow>
     (case spec of
        Inl err \<Rightarrow> fst out = Inl err \<and> live now (snd out) = live now s
      | Inr m \<Rightarrow> (\<exists>r. fst out = Inr r) \<and> live now (snd out) = m)"

definition refines :: "nat \<Rightarrow> database \<Rightarrow> string \<times> database \<Rightarrow> store_error + keyspace \<Rightarrow> bool" where
  "refines now db out spec \<longleftrightarrow>
     (case spec of
        Inl err \<Rightarrow> fst out = error_of err \<and> live now (db_store (snd out)) = live now (db_store db)
      | Inr m \<Rightarrow> \<not> is_error_reply (fst out) \<and> live now (db_store (snd out)) = m)"

lemma error_of_is_error [simp]: "is_error_reply (error_of err)"
  by (simp add: error_of_def)

definition encodes :: "(store_error + 'r \<Rightarrow> string) \<Rightarrow> bool" where
  "encodes reply \<longleftrightarrow>
     (\<forall>err. reply (Inl err) = error_of err) \<and> (\<forall>r. \<not> is_error_reply (reply (Inr r)))"

lemma encodes_replies [simp]:
  "encodes reply_optional" "encodes reply_array" "encodes reply_bool" "encodes reply_count"
  "encodes reply_signed" "encodes reply_status" "encodes reply_score" "encodes reply_score_option"
  "encodes reply_rank" "encodes reply_scored"
  by (simp_all add: encodes_def reply_optional_def reply_array_def reply_bool_def
      reply_count_def reply_signed_def reply_status_def reply_score_def reply_score_option_def
      reply_rank_def reply_scored_def split: option.splits)

lemma run_eq:
  "run reply f db = (reply (fst (f (db_store db))), db\<lparr>db_store := snd (f (db_store db))\<rparr>)"
  by (simp add: run_def on_store_eq)

lemma refines_run:
  "encodes reply \<Longrightarrow> implements now (db_store db) (f (db_store db)) spec \<Longrightarrow>
     refines now db (run reply f db) spec"
  by (auto simp: refines_def implements_def run_eq encodes_def split: sum.splits)

lemma refines_peek:
  "encodes reply \<Longrightarrow> implements now (db_store db) (f (db_store db), db_store db) spec \<Longrightarrow>
     refines now db (peek reply f db) spec"
  by (auto simp: refines_def implements_def peek_def encodes_def split: sum.splits)

lemma refines_run_total:
  "(\<And>r. \<not> is_error_reply (reply r)) \<Longrightarrow> live now (snd (f (db_store db))) = m \<Longrightarrow>
     refines now db (run reply f db) (Inr m)"
  by (simp add: refines_def run_eq)

lemma refines_peek_total:
  "(\<And>r. \<not> is_error_reply (reply r)) \<Longrightarrow>
     refines now db (peek reply f db) (Inr (live now (db_store db)))"
  by (simp add: refines_def peek_def)

section \<open>The shapes of the operations\<close>

text \<open>A growing writer implements \<open>alter\<close> when their updates agree and a fresh key never fails.\<close>

definition grow_spec ::
    "'c \<Rightarrow> ('c \<Rightarrow> store_error + 'r \<times> 'c) \<Rightarrow> ('c option \<Rightarrow> store_error + 'c option) \<Rightarrow> bool" where
  "grow_spec c0 f g \<longleftrightarrow>
     (\<forall>c. g (Some c) = map_sum id (\<lambda>rc. Some (snd rc)) (f c)) \<and>
     (\<exists>rc. f c0 = Inr rc \<and> g None = Inr (Some (snd rc)))"

definition shrink_spec ::
    "('c \<Rightarrow> bool) \<Rightarrow> ('c \<Rightarrow> 'r \<times> 'c) \<Rightarrow> ('c option \<Rightarrow> store_error + 'c option) \<Rightarrow> bool" where
  "shrink_spec is_emp f g \<longleftrightarrow>
     g None = Inr None \<and> (\<forall>c. g (Some c) = Inr (keep_if (\<lambda>c. \<not> is_emp c) (snd (f c))))"

context value_variant
begin

lemma grow_implements:
  assumes "grow_spec c0 f g"
  shows "implements now s (grow (or_create unwrap (wrap c0)) wrap f now k s)
           (alter unwrap wrap g k (live now s))"
proof -
  obtain rc where rc: "f c0 = Inr rc" "g None = Inr (Some (snd rc))"
    using assms by (auto simp: grow_spec_def)
  have g: "g (Some c) = map_sum id (\<lambda>rc. Some (snd rc)) (f c)" for c
    using assms by (simp add: grow_spec_def)
  show ?thesis
    by (auto simp: implements_def alter_def fst_grow live_grow rc g
        split: option.splits sum.splits prod.splits)
qed

lemma shrink_implements:
  assumes "shrink_spec is_emp f g"
  shows "implements now s (shrink unwrap wrap is_emp f absent now k s)
           (alter unwrap wrap g k (live now s))"
  using assms
  by (auto simp: implements_def alter_def fst_shrink live_shrink shrink_spec_def keep_if_def
      fun_upd_idem split: option.splits sum.splits prod.splits)

lemma read_implements:
  assumes "\<And>c. \<exists>r. g (wrap c) = Inr r" and "\<And>v. unwrap v = None \<Longrightarrow> g v = Inl WrongType"
  shows "implements now s (read_entry now k (Inr absent) (\<lambda>e. g (en_value e)) s)
           (requires unwrap k (live now s))"
  using assms
  by (auto simp: implements_def requires_def fst_read_entry live_read_entry
      split: option.splits dest!: unwrap_Some)

end

section \<open>Every operation implements its effect\<close>

lemma fold_lpush: "fold rl_lpush vs l = rev vs @ l"
  by (induction vs arbitrary: l) (simp_all add: rl_lpush_def)

lemma fold_rpush: "fold rl_rpush vs l = l @ vs"
  by (induction vs arbitrary: l) (simp_all add: rl_rpush_def)

lemma snd_sadd_all: "snd (sadd_all vs n x) = fold hs_insert vs x"
  by (induction vs n x rule: sadd_all.induct) (simp_all add: rs_sadd_def)

lemma snd_srem_all: "snd (srem_all vs n x) = fold hs_remove vs x"
  by (induction vs n x rule: srem_all.induct) (simp_all add: rs_srem_def)

lemma snd_zadd_all: "snd (zadd_all fo ms n z) = fold (\<lambda>(sc, mb) z. snd (zs_zadd fo sc mb z)) ms z"
  by (induction fo ms n z rule: zadd_all.induct) (simp_all add: Let_def case_prod_unfold)

lemmas shape_specs = grow_spec_def shrink_spec_def with_default_def on_present_def

lemma checked_add_zero: "checked_add 0 d = Some d"
  by (simp add: checked_add_def)

lemma parse_i64_zero: "parse_i64 ''0'' = Some 0"
  by (simp add: parse_i64_def digit_val_def i64_checked_def in_i64_def)

lemma round_units_bound: "round_units p q \<le> inf_mag"
  by (simp add: round_units_def Let_def)

lemma mk_f64_not_nan: "b \<le> inf_mag \<Longrightarrow> \<not> is_nan (mk_f64 neg b)"
  by (simp add: is_nan_def inf_mag_def)

lemma add_from_zero_not_nan: "\<not> is_nan y \<Longrightarrow> \<not> is_nan (f64_add f64_zero y)"
proof -
  have "\<not> is_infinite f64_zero"
    by (simp add: is_infinite_def f64_zero_def inf_mag_def)
  then show "\<not> is_nan y \<Longrightarrow> \<not> is_nan (f64_add f64_zero y)"
    by (simp add: f64_add_def Let_def mk_f64_not_nan round_units_bound)
qed

lemma push_implements [effect_intros]:
  "implements now s (db_lpush now k vs s) (effect (CLPush k vs) fo now (live now s))"
  "implements now s (db_rpush now k vs s) (effect (CRPush k vs) fo now (live now s))"
  unfolding db_lpush_def db_rpush_def list_or_create_def rlist_new_def effect.simps
  by (rule list_variant.grow_implements; simp add: shape_specs fold_lpush fold_rpush Let_def)+

lemma pop_implements [effect_intros]:
  "implements now s (db_lpop now k s) (effect (CLPop k) fo now (live now s))"
  "implements now s (db_rpop now k s) (effect (CRPop k) fo now (live now s))"
  unfolding db_lpop_def db_rpop_def db_pop_def effect.simps
  by (rule list_variant.shrink_implements;
      auto simp: shape_specs keep_if_def rl_lpop_def rl_rpop_def split: list.splits)+

lemma set_writers_implement [effect_intros]:
  "implements now s (db_sadd now k vs s) (effect (CSAdd k vs) fo now (live now s))"
  "implements now s (db_srem now k vs s) (effect (CSRem k vs) fo now (live now s))"
  "implements now s (db_spop now k s) (effect (CSPop k) fo now (live now s))"
  unfolding db_sadd_def db_srem_def db_spop_def set_or_create_def rset_new_def effect.simps
  subgoal by (rule set_variant.grow_implements) (simp add: shape_specs snd_sadd_all)
  subgoal by (rule set_variant.shrink_implements) (simp add: shape_specs snd_srem_all)
  subgoal by (rule set_variant.shrink_implements)
      (simp add: shape_specs rs_spop_def split: list.splits)
  done

lemma zset_writers_implement [effect_intros]:
  "implements now s (db_zadd fo now k ms s) (effect (CZAdd k ms) fo now (live now s))"
  "implements now s (db_zrem fo now k mb s) (effect (CZRem k mb) fo now (live now s))"
  unfolding db_zadd_def db_zrem_def sorted_set_or_create_def effect.simps
  subgoal by (rule zset_variant.grow_implements) (simp add: shape_specs snd_zadd_all)
  subgoal by (rule zset_variant.shrink_implements) (simp add: shape_specs)
  done

lemma zincrby_implements [effect_intros]:
  "\<not> is_nan incr \<Longrightarrow>
     implements now s (db_zincrby fo now k incr mb s) (effect (CZIncrBy k incr mb) fo now (live now s))"
  unfolding db_zincrby_def sorted_set_or_create_def effect.simps
  by (rule zset_variant.grow_implements)
    (simp add: shape_specs Let_def zs_zscore_def zset_new_def add_from_zero_not_nan)

lemma hash_writers_implement [effect_intros]:
  "implements now s (db_hset now k f v s) (effect (CHSet k f v) fo now (live now s))"
  "implements now s (db_hdel now k f s) (effect (CHDel k f) fo now (live now s))"
  unfolding db_hset_def db_hdel_def hash_or_create_def rhash_new_def effect.simps
  subgoal by (rule hash_variant.grow_implements) (simp add: shape_specs rh_hset_def)
  subgoal by (rule hash_variant.shrink_implements) (simp add: shape_specs rh_hdel_def)
  done

lemma hincrby_implements [effect_intros]:
  "implements now s (db_hincrby now k f d s) (effect (CHIncrBy k f d) fo now (live now s))"
  unfolding db_hincrby_def hash_or_create_def rhash_new_def effect.simps
  by (rule hash_variant.grow_implements)
    (simp add: shape_specs Let_def number_of_def add_to_def rh_hget_def rh_hset_def
      checked_add_zero split: option.splits)

lemma string_writers_implement [effect_intros]:
  "implements now s (db_incr_by now k d s) (effect (CIncrBy k d) fo now (live now s))"
  "implements now s (db_append now k v s) (effect (CAppend k v) fo now (live now s))"
  unfolding db_incr_by_def db_append_def effect.simps
  subgoal by (rule str_variant.grow_implements)
      (simp add: shape_specs number_of_def add_to_def parse_i64_zero checked_add_zero
        split: option.splits)
  subgoal by (rule str_variant.grow_implements) (simp add: shape_specs Let_def)
  done

lemma lset_implements [effect_intros]:
  "implements now s (db_lset now k i v s) (effect (CLSet k i v) fo now (live now s))"
proof (cases "live now s k")
  case None
  then show ?thesis
    by (simp add: implements_def db_lset_def live_entry_eq alter_def live_simps)
next
  case (Some e)
  have keep: "(live now s)(k \<mapsto> e\<lparr>en_value := en_value e\<rparr>) = live now s"
    using Some by (simp add: fun_upd_idem)
  show ?thesis
  proof (cases "as_list (en_value e)")
    case None
    with Some show ?thesis
      by (cases "en_value e")
        (simp_all add: implements_def db_lset_def live_entry_eq alter_def live_simps)
  next
    case (Some l)
    then have "en_value e = VList l" by (simp add: as_iffs)
    with \<open>live now s k = Some e\<close> keep show ?thesis
      by (auto simp: implements_def db_lset_def live_entry_eq alter_def live_simps rl_lset_def
          split: option.splits)
  qed
qed

lemma live_set:
  "live now (db_set now k v ttl s) =
     (let e = \<lparr>en_value = VStr v, en_expires_at = Option.bind ttl (deadline_after now)\<rparr>
      in (live now s)(k := if is_expired now e then None else Some e))"
  by (simp add: db_set_def live_insert Let_def)

lemma live_del: "live now (snd (db_del now ks s)) = live now s |` (- set ks)"
proof -
  have "live now (snd (db_del_loop now n ks s)) = live now s |` (- set ks)" for n
  proof (induction ks arbitrary: n s)
    case Nil
    then show ?case by (simp add: restrict_map_def fun_eq_iff)
  next
    case (Cons k ks)
    then show ?case
      by (auto simp: live_entry_eq live_simps restrict_map_def fun_eq_iff split: option.splits)
  qed
  then show ?thesis by (simp add: db_del_def)
qed

lemma live_mset:
  "live now (db_mset pairs s) =
     live now s ++ map_of (rev (map (\<lambda>(k, v). (k, \<lparr>en_value = VStr v, en_expires_at = None\<rparr>)) pairs))"
  by (induction pairs s rule: db_mset.induct)
    (auto simp: live_insert is_expired_def fun_eq_iff map_add_def split: option.splits)

lemma live_setnx:
  "live now (snd (db_setnx now k v s)) =
     (if live now s k = None then (live now s)(k \<mapsto> \<lparr>en_value = VStr v, en_expires_at = None\<rparr>)
      else live now s)"
  by (auto simp: db_setnx_def live_entry_eq live_simps is_expired_def split: option.splits)

lemma getset_implements [effect_intros]:
  "implements now s (db_getset now k v s) (effect (CGetSet k v) fo now (live now s))"
  by (auto simp: implements_def db_getset_def Let_def live_entry_eq live_simps requires_def
      is_expired_def split: option.splits db_value.splits)

lemma live_expire:
  "live now (snd (db_expire now k n s)) =
     (live now s)(k := if sint n \<le> 0 then None
        else map_option (\<lambda>e. e\<lparr>en_expires_at := deadline_after now (nat (sint n))\<rparr>) (live now s k))"
  by (auto simp: db_expire_def live_entry_eq live_simps get_evict_same is_expired_def
      deadline_after_def nanos_def unat_i64 fun_upd_idem split: option.splits if_splits)

lemma live_persist:
  "live now (snd (db_persist now k s)) =
     (live now s)(k := map_option (\<lambda>e. e\<lparr>en_expires_at := None\<rparr>) (live now s k))"
proof (cases "live now s k")
  case None
  then show ?thesis by (simp add: db_persist_def live_entry_eq live_simps fun_upd_idem)
next
  case (Some e)
  show ?thesis
  proof (cases "en_expires_at e")
    case None
    then have "e\<lparr>en_expires_at := None\<rparr> = e" by simp
    with Some None show ?thesis
      by (simp add: db_persist_def live_entry_eq live_simps fun_upd_idem)
  next
    case (Some d)
    with \<open>live now s k = Some e\<close> show ?thesis
      by (simp add: db_persist_def live_entry_eq live_simps is_expired_def)
  qed
qed

lemma rename_fst: "fst (db_rename now k k' s) \<longleftrightarrow> live now s k \<noteq> None"
  by (auto simp: db_rename_def live_entry_eq get_evict_same split: option.splits)

lemma live_rename:
  "live now (snd (db_rename now k k' s)) =
     (case live now s k of
        None \<Rightarrow> live now s | Some e \<Rightarrow> (live now s)(k := None, k' := Some e))"
  by (cases "live now s k")
    (auto simp: db_rename_def live_entry_eq live_simps get_evict_same,
      auto simp: live_Some_iff)

lemma live_flushall: "live now (db_flushall s) = Map.empty"
  by (simp add: db_flushall_def live_simps)

section \<open>Reads\<close>

lemma members_requires:
  "set_members_of now s k =
     (case live now s k of
        None \<Rightarrow> Inr []
      | Some e \<Rightarrow>
          (case as_set (en_value e) of
             None \<Rightarrow> Inl WrongType | Some x \<Rightarrow> Inr (fold hs_insert x [])))"
  by (auto simp: set_members_of_def live_def rs_smembers_def split: option.splits db_value.splits)

text \<open>The set at a key as a mathematical set; \<open>None\<close> when the key holds another type.\<close>

definition set_at :: "keyspace \<Rightarrow> string \<Rightarrow> string set option" where
  "set_at m k = (case m k of None \<Rightarrow> Some {} | Some e \<Rightarrow> map_option set (as_set (en_value e)))"

lemma members_set_at:
  "set_members_of now s k = Inl err \<longleftrightarrow> err = WrongType \<and> set_at (live now s) k = None"
  "set_members_of now s k = Inr x \<Longrightarrow> set_at (live now s) k = Some (set x) \<and> distinct x"
  by (auto simp: members_requires set_at_def hs_simps hs_wf split: option.splits)

lemma requires_set_at: "requires as_set k m = Inr m \<longleftrightarrow> set_at m k \<noteq> None"
  by (auto simp: requires_def set_at_def split: option.splits)

definition all_sets :: "string list \<Rightarrow> keyspace \<Rightarrow> bool" where
  "all_sets ks m \<longleftrightarrow> (\<forall>k \<in> set ks. set_at m k \<noteq> None)"

lemma set_loop:
  fixes loop :: "string hash_set \<Rightarrow> string list \<Rightarrow> store_error + string list"
  assumes "\<And>x. loop x [] = Inr x"
    and "\<And>x k ks. loop x (k # ks) =
      (case set_members_of now s k of Inl err \<Rightarrow> Inl err | Inr y \<Rightarrow> loop (f x y) ks)"
    and "\<And>x y. set (f x y) = g (set x) (set y)" "\<And>x y. distinct x \<Longrightarrow> distinct (f x y)"
  shows "(\<not> all_sets ks (live now s) \<longrightarrow> loop x ks = Inl WrongType) \<and>
         (all_sets ks (live now s) \<longrightarrow> distinct x \<longrightarrow>
            (\<exists>r. loop x ks = Inr r \<and> distinct r \<and>
               set r = fold (\<lambda>k a. g a (the (set_at (live now s) k))) ks (set x)))"
proof (induction ks arbitrary: x)
  case Nil
  then show ?case by (simp add: assms(1) all_sets_def)
next
  case (Cons k ks)
  show ?case
  proof (cases "set_members_of now s k")
    case (Inl err)
    then show ?thesis using members_set_at(1) [of now s k err] by (simp add: assms(2) all_sets_def)
  next
    case (Inr y)
    then have "set_at (live now s) k = Some (set y)" using members_set_at(2) by blast
    then show ?thesis
      using Cons [of "f x y"] Inr by (simp add: assms all_sets_def)
  qed
qed

lemma fold_set_ops:
  "fold (\<lambda>k a. a \<inter> F k) ks A = A \<inter> (\<Inter>k \<in> set ks. F k)"
  "fold (\<lambda>k a. a \<union> F k) ks A = A \<union> (\<Union>k \<in> set ks. F k)"
  "fold (\<lambda>k a. a - F k) ks A = A - (\<Union>k \<in> set ks. F k)"
  by (induction ks arbitrary: A) auto

text \<open>What an operation on several sets returns, up to the order of the elements.\<close>

definition set_result ::
    "string list \<Rightarrow> keyspace \<Rightarrow> string set \<Rightarrow> store_error + string list \<Rightarrow> bool" where
  "set_result ks m expected r \<longleftrightarrow>
     (if all_sets ks m then \<exists>xs. r = Inr xs \<and> distinct xs \<and> set xs = expected
      else r = Inl WrongType)"

lemma sinter_loop_result:
  "distinct x \<Longrightarrow> set_result ks (live now s) (set x \<inter> (\<Inter>k \<in> set ks. the (set_at (live now s) k)))
     (sinter_loop now s x ks)"
  using set_loop [where loop = "sinter_loop now s" and now = now and s = s and ks = ks and x = x
      and f = "\<lambda>x y. filter (\<lambda>m. m \<in> set y) x" and g = "\<lambda>a b. a \<inter> b"]
  by (auto simp: fold_set_ops set_result_def)

lemma sunion_loop_result:
  "distinct x \<Longrightarrow> set_result ks (live now s) (set x \<union> (\<Union>k \<in> set ks. the (set_at (live now s) k)))
     (sunion_loop now s x ks)"
  using set_loop [where loop = "sunion_loop now s" and now = now and s = s and ks = ks and x = x
      and f = "\<lambda>x y. fold hs_insert y x" and g = "\<lambda>a b. a \<union> b"]
  by (auto simp: fold_set_ops set_result_def hs_simps hs_wf)

lemma sdiff_loop_result:
  "distinct x \<Longrightarrow> set_result ks (live now s) (set x - (\<Union>k \<in> set ks. the (set_at (live now s) k)))
     (sdiff_loop now s x ks)"
  using set_loop [where loop = "sdiff_loop now s" and now = now and s = s and ks = ks and x = x
      and f = "\<lambda>x y. fold hs_remove y x" and g = "\<lambda>a b. a - b"]
  by (auto simp: fold_set_ops set_result_def hs_simps hs_wf)

lemma sinter_result:
  assumes "ks \<noteq> []"
  shows "set_result ks (live now s) (\<Inter>k \<in> set ks. the (set_at (live now s) k)) (db_sinter now ks s)"
proof -
  obtain k rest where ks: "ks = k # rest" using assms by (cases ks) auto
  show ?thesis
  proof (cases "set_members_of now s k")
    case (Inl err)
    then show ?thesis
      using members_set_at(1) [of now s k err] by (simp add: ks db_sinter_def set_result_def all_sets_def)
  next
    case (Inr x)
    then show ?thesis
      using members_set_at(2) [OF Inr] sinter_loop_result [of x rest now s]
      by (auto simp: ks db_sinter_def set_result_def all_sets_def)
  qed
qed

lemma sdiff_result:
  "set_result (k # rest) (live now s)
     (the (set_at (live now s) k) - (\<Union>k \<in> set rest. the (set_at (live now s) k)))
     (db_sdiff now (k # rest) s)"
proof (cases "set_members_of now s k")
  case (Inl err)
  then show ?thesis
    using members_set_at(1) [of now s k err] by (simp add: db_sdiff_def set_result_def all_sets_def)
next
  case (Inr x)
  then show ?thesis
    using members_set_at(2) [OF Inr] sdiff_loop_result [of x rest now s]
    by (auto simp: db_sdiff_def set_result_def all_sets_def)
qed

lemma sunion_result:
  "set_result ks (live now s) (\<Union>k \<in> set ks. the (set_at (live now s) k)) (db_sunion now ks s)"
  using sunion_loop_result [of "[]" ks now s] by (simp add: db_sunion_def)

lemma set_result_implements:
  "set_result ks (live now s) expected r \<Longrightarrow>
     implements now s (r, s) (requires_all as_set ks (live now s))"
  by (auto simp: set_result_def implements_def requires_all_def requires_set_at all_sets_def
      split: if_splits)

lemma multi_set_implements [effect_intros]:
  "implements now s (db_sinter now ks s, s) (requires_all as_set ks (live now s))"
  "implements now s (db_sunion now ks s, s) (requires_all as_set ks (live now s))"
  "implements now s (db_sdiff now ks s, s) (requires_all as_set ks (live now s))"
proof -
  have empty: "set_result [] (live now s) {} (Inr [])" by (simp add: set_result_def all_sets_def)
  show "implements now s (db_sinter now ks s, s) (requires_all as_set ks (live now s))"
    using set_result_implements [OF sinter_result] set_result_implements [OF empty]
    by (cases "ks = []") (simp_all add: db_sinter_def)
  show "implements now s (db_sunion now ks s, s) (requires_all as_set ks (live now s))"
    by (rule set_result_implements, rule sunion_result)
  show "implements now s (db_sdiff now ks s, s) (requires_all as_set ks (live now s))"
    using set_result_implements [OF sdiff_result] set_result_implements [OF empty]
    by (cases ks) (simp_all add: db_sdiff_def)
qed

text \<open>The single-key reads, each under the type it needs.\<close>

lemma string_reads_implement [effect_intros]:
  "implements now s (db_get now k s) (requires as_str k (live now s))"
  "implements now s (db_strlen now k s) (requires as_str k (live now s))"
  unfolding db_get_def db_strlen_def
  by (rule str_variant.read_implements; auto split: db_value.splits)+

lemma list_reads_implement [effect_intros]:
  "implements now s (db_lrange now k a b s) (requires as_list k (live now s))"
  "implements now s (db_llen now k s) (requires as_list k (live now s))"
  "implements now s (db_lindex now k i s) (requires as_list k (live now s))"
  unfolding db_lrange_def db_llen_def db_lindex_def
  by (rule list_variant.read_implements; auto split: db_value.splits)+

lemma set_reads_implement [effect_intros]:
  "implements now s (db_smembers now k s) (requires as_set k (live now s))"
  "implements now s (db_sismember now k v s) (requires as_set k (live now s))"
  "implements now s (db_scard now k s) (requires as_set k (live now s))"
  unfolding db_smembers_def db_sismember_def db_scard_def
  by (rule set_variant.read_implements; auto split: db_value.splits)+

lemma zset_reads_implement [effect_intros]:
  "implements now s (db_zrange now k a b s) (requires as_zset k (live now s))"
  "implements now s (db_zscore now k mb s) (requires as_zset k (live now s))"
  "implements now s (db_zcard now k s) (requires as_zset k (live now s))"
  "implements now s (db_zrank now k mb s) (requires as_zset k (live now s))"
  "implements now s (db_zrange_with_scores now k a b s) (requires as_zset k (live now s))"
  "implements now s (db_zrange_by_score now k x xi y yi s) (requires as_zset k (live now s))"
  unfolding db_zrange_def db_zscore_def db_zcard_def db_zrank_def db_zrange_with_scores_def
    db_zrange_by_score_def
  by (rule zset_variant.read_implements; auto split: db_value.splits)+

lemma hash_reads_implement [effect_intros]:
  "implements now s (db_hget now k f s) (requires as_hash k (live now s))"
  "implements now s (db_hgetall now k s) (requires as_hash k (live now s))"
  "implements now s (db_hkeys now k s) (requires as_hash k (live now s))"
  "implements now s (db_hvals now k s) (requires as_hash k (live now s))"
  "implements now s (db_hlen now k s) (requires as_hash k (live now s))"
  "implements now s (db_hexists now k f s) (requires as_hash k (live now s))"
  unfolding db_hget_def db_hgetall_def db_hkeys_def db_hvals_def db_hlen_def db_hexists_def
  by (rule hash_variant.read_implements; auto split: db_value.splits)+

section \<open>Execution refines the specification\<close>

text \<open>What the parser guarantees of a command's arguments.\<close>

fun command_wf :: "command \<Rightarrow> bool" where
  "command_wf (CZIncrBy k incr mb) = (\<not> is_nan incr)"
| "command_wf (CZAdd k ms) = (ms \<noteq> [] \<and> (\<forall>(sc, mb) \<in> set ms. \<not> is_nan sc))"
| "command_wf (CLPush k vs) = (vs \<noteq> [])"
| "command_wf (CRPush k vs) = (vs \<noteq> [])"
| "command_wf (CSAdd k vs) = (vs \<noteq> [])"
| "command_wf (CZRangeByScore k a ai b bi) = (\<not> is_nan a \<and> \<not> is_nan b)"
| "command_wf (CSet k v (Some ttl)) = (ttl < 2 ^ 64)"
| "command_wf (CSInter ks) = (ks \<noteq> [])"
| "command_wf (CSUnion ks) = (ks \<noteq> [])"
| "command_wf (CSDiff ks) = (ks \<noteq> [])"
| "command_wf _ = True"

lemma refines_same:
  "\<not> is_error_reply (fst out) \<Longrightarrow> live now (db_store (snd out)) = live now (db_store db) \<Longrightarrow>
     refines now db out (Inr (live now (db_store db)))"
  by (simp add: refines_def)

lemmas effect_rules = effect_intros [unfolded effect.simps]

lemma rename_refines:
  "refines now db
     (run (\<lambda>ok. if ok then simple_string ''OK'' else resp_error ''ERR no such key'')
       (db_rename now k k') db) (effect (CRename k k') fo now (live now (db_store db)))"
  by (auto simp: refines_def run_eq rename_fst live_rename error_of_def split: option.splits)

lemma zrange_refines:
  "refines now db
     ((if w then run reply_scored (db_zrange_with_scores now k a b)
       else run reply_array (db_zrange now k a b)) db) (requires as_zset k (live now (db_store db)))"
  by (simp add: refines_run zset_reads_implement)

lemma other_refines:
  "refines now db (case db_publish ev c p db of (n, db') \<Rightarrow> (resp_integer (of_nat n), db'))
     (Inr (live now (db_store db)))"
  "refines now db (simple_string t, db\<lparr>db_pending_saves := n\<rparr>) (Inr (live now (db_store db)))"
  "refines now db (bulk_string t, db) (Inr (live now (db_store db)))"
  "refines now db (case msg of Some m \<Rightarrow> bulk_string m | None \<Rightarrow> simple_string ''PONG'', db)
     (Inr (live now (db_store db)))"
  using db_publish_frame(1) [of ev c p db]
  by (simp_all add: refines_def case_prod_unfold split: option.splits)

lemma peek_refines:
  "refines now db (peek count_reply f db) (Inr (live now (db_store db)))"
  "refines now db (peek resp_array g db) (Inr (live now (db_store db)))"
  "refines now db (peek nullable_array h db) (Inr (live now (db_store db)))"
  by (simp_all add: refines_def peek_def)

lemma live_type_ttl:
  "live now (snd (db_type_of now k s)) = live now s" "live now (snd (db_ttl now k s)) = live now s"
  by (simp_all add: db_type_of_def db_ttl_def live_read_entry)

lemma total_refines:
  "refines now db (run ok_reply (\<lambda>s. ((), db_set now k v ttl s)) db)
     (effect (CSet k v ttl) fo now (live now (db_store db)))"
  "refines now db (run count_reply (db_del now ks) db) (effect (CDel ks) fo now (live now (db_store db)))"
  "refines now db (run simple_string (db_type_of now k) db) (Inr (live now (db_store db)))"
  "refines now db (run flag_reply (db_expire now k n) db)
     (effect (CExpire k n) fo now (live now (db_store db)))"
  "refines now db (run resp_integer (db_ttl now k) db) (Inr (live now (db_store db)))"
  "refines now db (run flag_reply (db_persist now k) db)
     (effect (CPersist k) fo now (live now (db_store db)))"
  "refines now db (run ok_reply (\<lambda>s. ((), db_flushall s)) db)
     (effect CFlushAll fo now (live now (db_store db)))"
  "refines now db (run ok_reply (\<lambda>s. ((), db_mset pairs s)) db)
     (effect (CMSet pairs) fo now (live now (db_store db)))"
  "refines now db (run flag_reply (db_setnx now k v) db)
     (effect (CSetNx k v) fo now (live now (db_store db)))"
  by (simp_all add: refines_def run_eq live_set live_del live_expire live_persist live_flushall
      live_mset live_setnx live_type_ttl Let_def)

lemmas all_refines = other_refines peek_refines zrange_refines total_refines [unfolded effect.simps]
  rename_refines [unfolded effect.simps]

lemma execute_refines_effect:
  "command_wf cmd \<Longrightarrow> cmd \<noteq> CSave \<Longrightarrow>
     refines (ev_now ev) db (execute cmd lib ev db)
       (effect cmd (lib_float lib) (ev_now ev) (live (ev_now ev) (db_store db)))"
  by (cases cmd; hypsubst; simp only: execute.simps effect.simps command_wf.simps;
      (rule all_refines
        | (rule refines_run, rule encodes_replies, rule effect_rules; assumption?)
        | (rule refines_peek, rule encodes_replies, rule effect_rules)
        | simp))

lemma save_keeps_store: "db_store (snd (execute CSave lib ev db)) = db_store db"
  using db_save_frame(1) [of lib ev db] by (simp add: case_prod_unfold split: sum.splits)

section \<open>Consequences of the refinement\<close>

text \<open>A command never errs and changes the live keys.\<close>

lemma execute_error_live:
  assumes "command_wf cmd" "is_error_reply (fst (execute cmd lib ev db))"
  shows "live (ev_now ev) (db_store (snd (execute cmd lib ev db))) = live (ev_now ev) (db_store db)"
proof (cases "cmd = CSave")
  case True
  then show ?thesis by (simp only: save_keeps_store)
next
  case False
  then show ?thesis
    using execute_refines_effect [OF assms(1) False, of ev db lib] assms(2)
    by (auto simp: refines_def split: sum.splits)
qed

text \<open>A command that is not in the list of writes leaves every key alone, apart from SPOP.\<close>

lemma read_effect:
  "\<not> is_write cmd \<Longrightarrow> (\<And>k. cmd \<noteq> CSPop k) \<Longrightarrow> effect cmd fo now m = Inr m' \<Longrightarrow> m' = m"
  by (cases cmd) (auto simp: requires_def requires_all_def split: option.splits if_splits)

lemma read_keeps_live:
  assumes "command_wf cmd" "\<not> is_write cmd" "\<And>k. cmd \<noteq> CSPop k"
  shows "live (ev_now ev) (db_store (snd (execute cmd lib ev db))) = live (ev_now ev) (db_store db)"
proof (cases "cmd = CSave")
  case True
  then show ?thesis by (simp only: save_keeps_store)
next
  case False
  then show ?thesis
    using execute_refines_effect [OF assms(1) False, of ev db lib] read_effect [OF assms(2,3)]
    by (auto simp: refines_def split: sum.splits)
qed

end
