(* ===== verification/Dispatch.thy ===== *)
theory Dispatch
  imports Effect
begin

text \<open>
  What the parser and \<open>dispatch\<close> guarantee together: parsed commands are well formed, every
  request gets exactly one reply, a refused request changes nothing, and the log receives
  exactly the writes that succeeded.
\<close>

section \<open>Parsed commands are well formed\<close>

lemma bind_err_eq_Inr [simp]: "bind_err r f = Inr y \<longleftrightarrow> (\<exists>x. r = Inr x \<and> f x = Inr y)"
  by (cases r) (auto simp: bind_err_def)

lemma map_sum_Inr [simp]: "map_sum f g r = Inr y \<longleftrightarrow> (\<exists>x. r = Inr x \<and> y = g x)"
  by (cases r) auto

lemma helper_results:
  "parse_score raw = Inr x \<Longrightarrow> \<not> is_nan x"
  "parse_score_bound raw = Inr (x, b) \<Longrightarrow> \<not> is_nan x"
  "parse_u64_arg raw = Inr n \<Longrightarrow> n < 2 ^ 64"
  "key_and_values args c = Inr (k, vs) \<Longrightarrow> vs \<noteq> []"
  "non_empty_args args c = Inr vs \<Longrightarrow> vs \<noteq> []"
  by (auto simp: parse_score_def parse_score_bound_def parse_u64_arg_def key_and_values_def
      non_empty_args_def Let_def dest!: parse_u64_bound split: option.splits if_splits list.splits)

lemma parse_members_wf:
  "parse_members ps = Inr ms \<Longrightarrow> length ms = length ps \<and> (\<forall>(sc, mb) \<in> set ms. \<not> is_nan sc)"
  by (induction ps arbitrary: ms rule: parse_members.induct) (auto dest: helper_results)

lemma length_chunks2: "length (chunks2 xs) = length xs div 2"
  by (induction xs rule: chunks2.induct) auto

lemma chunks2_nonempty: "xs \<noteq> [] \<Longrightarrow> even (length xs) \<Longrightarrow> chunks2 xs \<noteq> []"
  by (cases xs rule: chunks2.cases) auto

text \<open>The arms of the parser, taken apart without their conditions.\<close>

lemma arm_cases:
  "(if b then x else y) = Inr c \<Longrightarrow> (x = Inr c \<Longrightarrow> P) \<Longrightarrow> (y = Inr c \<Longrightarrow> P) \<Longrightarrow> P"
  by (simp split: if_splits)

lemma parse_rest_wf: "parse_rest upper args name = Inr cmd \<Longrightarrow> command_wf cmd"
  unfolding parse_rest_def
  by (elim arm_cases; auto split: if_splits list.splits dest: helper_results)

lemma parse_string_wf: "parse_string upper args name = Inr cmd \<Longrightarrow> command_wf cmd"
  unfolding parse_string_def
  by (elim arm_cases; auto split: if_splits list.splits dest: parse_rest_wf)

lemma parse_generic_wf: "parse_generic upper args name = Inr cmd \<Longrightarrow> command_wf cmd"
  unfolding parse_generic_def
  by (elim arm_cases; auto split: if_splits list.splits dest: parse_string_wf)

lemma zadd_arm_wf:
  "vs \<noteq> [] \<Longrightarrow> length vs mod 2 = 0 \<Longrightarrow> parse_members (chunks2 vs) = Inr ms \<Longrightarrow>
     command_wf (CZAdd k ms)"
  using parse_members_wf [of "chunks2 vs" ms] chunks2_nonempty [of vs]
  by (auto simp: even_iff_mod_2_eq_zero)

lemma parse_zset_hash_wf: "parse_zset_hash upper args name = Inr cmd \<Longrightarrow> command_wf cmd"
  unfolding parse_zset_hash_def
  by (elim arm_cases;
      auto simp del: command_wf.simps split: if_splits list.splits
        dest: parse_generic_wf zadd_arm_wf; simp)

lemma parse_basic_wf: "parse_basic upper args name = Inr cmd \<Longrightarrow> command_wf cmd"
  unfolding parse_basic_def
  by (elim arm_cases; auto split: if_splits list.splits dest: parse_zset_hash_wf helper_results)

lemma parse_wf: "parse tokens = Inr cmd \<Longrightarrow> command_wf cmd"
  by (auto simp: parse_def split: list.splits dest: parse_basic_wf)

section \<open>Every request gets one reply\<close>

definition one_reply :: "string \<Rightarrow> bool" where
  "one_reply s \<longleftrightarrow> (\<exists>r. reads_as 2 r s)"

lemma reads_as_2:
  "CR \<notin> set t \<Longrightarrow> one_reply (simple_string t)" "one_reply (resp_error t)"
  "one_reply (resp_integer i)" "one_reply (bulk_string t)" "one_reply resp_null"
  "one_reply (resp_array ts)" "one_reply (nullable_array vs)"
  unfolding one_reply_def numeral_2_eq_2 by (blast intro: reply_intros)+

lemma one_reply_helpers:
  "one_reply (error_of err)" "one_reply (reply_optional r1)" "one_reply (reply_array r2)"
  "one_reply (reply_bool r3)" "one_reply (reply_count r4)" "one_reply (reply_signed r5)"
  "one_reply (reply_status r6)" "one_reply (reply_score r7)" "one_reply (reply_score_option r8)"
  "one_reply (reply_rank r9)" "one_reply (reply_scored r10)"
  by (simp_all add: error_of_def reply_optional_def reply_array_def reply_bool_def reply_count_def
      reply_signed_def reply_status_def reply_score_def reply_score_option_def reply_rank_def
      reply_scored_def reads_as_2 split: sum.splits option.splits)

lemma type_of_line: "CR \<notin> set (fst (db_type_of now k s))"
  by (auto simp: db_type_of_def fst_read_entry split: option.splits db_value.splits)

lemma execute_one_reply: "one_reply (fst (execute cmd lib ev db))"
  by (cases cmd;
      simp add: run_eq peek_def one_reply_helpers reads_as_2 type_of_line case_prod_unfold
        split: option.splits sum.splits)

text \<open>The three ways through \<open>dispatch\<close>.\<close>

lemma dispatch_simps:
  "dispatch lib ev [] db = ([], db)"
  "tokens \<noteq> [] \<Longrightarrow> parse tokens = Inl err \<Longrightarrow>
     dispatch lib ev tokens db = (resp_error (command_error_string err), db)"
  "parse tokens = Inr (CSPop key) \<Longrightarrow> dispatch lib ev tokens db = dispatch_spop lib ev key db"
  "parse tokens = Inr cmd \<Longrightarrow> (\<And>key. cmd \<noteq> CSPop key) \<Longrightarrow>
     dispatch lib ev tokens db = dispatch_command lib ev tokens cmd db"
  subgoal by (simp add: dispatch_def)
  subgoal by (simp add: dispatch_def)
  subgoal by (cases tokens) (simp_all add: dispatch_def parse_def)
  subgoal premises p
  proof -
    have "tokens \<noteq> []" using p(1) by (auto simp: parse_def)
    then show ?thesis using p by (cases cmd; simp add: dispatch_def)
  qed
  done

lemma dispatch_cases [case_names empty error spop command]:
  assumes "tokens = [] \<Longrightarrow> P"
    and "\<And>err. tokens \<noteq> [] \<Longrightarrow> parse tokens = Inl err \<Longrightarrow> P"
    and "\<And>key. tokens \<noteq> [] \<Longrightarrow> parse tokens = Inr (CSPop key) \<Longrightarrow> P"
    and "\<And>cmd. tokens \<noteq> [] \<Longrightarrow> parse tokens = Inr cmd \<Longrightarrow> (\<And>key. cmd \<noteq> CSPop key) \<Longrightarrow> P"
  shows P
  using assms by (cases "parse tokens") blast+

lemma fst_dispatch_spop:
  "fst (dispatch_spop lib ev key db) = reply_optional (fst (db_spop (ev_now ev) key (db_store db)))"
  by (simp add: dispatch_spop_def on_store_eq)

lemma store_dispatch_spop:
  "db_store (snd (dispatch_spop lib ev key db)) = snd (db_spop (ev_now ev) key (db_store db))"
  by (simp add: dispatch_spop_def on_store_eq split: sum.splits option.splits)

lemma dispatch_command_results:
  "fst (dispatch_command lib ev tokens cmd db) = fst (execute cmd lib ev db)"
  "db_store (snd (dispatch_command lib ev tokens cmd db)) = db_store (snd (execute cmd lib ev db))"
  by (simp_all add: dispatch_command_def case_prod_unfold)

lemma dispatch_execute:
  assumes "parse tokens = Inr cmd"
  shows "fst (dispatch lib ev tokens db) = fst (execute cmd lib ev db)"
    and "db_store (snd (dispatch lib ev tokens db)) = db_store (snd (execute cmd lib ev db))"
proof -
  have "fst (dispatch lib ev tokens db) = fst (execute cmd lib ev db) \<and>
      db_store (snd (dispatch lib ev tokens db)) = db_store (snd (execute cmd lib ev db))"
  proof (cases "\<exists>key. cmd = CSPop key")
    case True
    then show ?thesis
      using assms by (auto simp: dispatch_simps fst_dispatch_spop store_dispatch_spop run_eq)
  next
    case False
    then show ?thesis using assms by (simp add: dispatch_simps dispatch_command_results)
  qed
  then show "fst (dispatch lib ev tokens db) = fst (execute cmd lib ev db)"
    and "db_store (snd (dispatch lib ev tokens db)) = db_store (snd (execute cmd lib ev db))"
    by blast+
qed

lemma dispatch_one_reply: "tokens \<noteq> [] \<Longrightarrow> one_reply (fst (dispatch lib ev tokens db))"
  by (cases tokens rule: dispatch_cases)
    (simp_all add: dispatch_simps(2) dispatch_execute(1) execute_one_reply reads_as_2
      del: execute.simps)

section \<open>Refinement and failed requests\<close>

lemma dispatch_refines:
  assumes "parse tokens = Inr cmd" "cmd \<noteq> CSave"
  shows "refines (ev_now ev) db (dispatch lib ev tokens db)
           (effect cmd (lib_float lib) (ev_now ev) (live (ev_now ev) (db_store db)))"
  using execute_refines_effect [OF parse_wf [OF assms(1)] assms(2), of ev db lib]
  by (simp add: refines_def dispatch_execute [OF assms(1)] split: sum.splits)

lemma dispatch_error_live:
  assumes "is_error_reply (fst (dispatch lib ev tokens db))"
  shows "live (ev_now ev) (db_store (snd (dispatch lib ev tokens db))) =
           live (ev_now ev) (db_store db)"
proof (cases "parse tokens")
  case (Inl err)
  then show ?thesis using assms by (cases "tokens = []") (simp_all add: dispatch_simps)
next
  case (Inr cmd)
  then show ?thesis
    using execute_error_live [OF parse_wf [OF Inr]] assms by (simp add: dispatch_execute [OF Inr])
qed

lemma execute_aof [simp]: "db_aof (snd (execute cmd lib ev db)) = db_aof db"
  using db_publish_frame(2) [of ev _ _ db] db_save_frame(2) [of lib ev db]
  by (cases cmd; simp add: run_eq peek_def case_prod_unfold split: sum.splits)

lemma execute_replaying [simp]: "db_replaying (snd (execute cmd lib ev db)) = db_replaying db"
  using db_publish_frame(4) [of ev _ _ db] db_save_frame(4) [of lib ev db]
  by (cases cmd; simp add: run_eq peek_def case_prod_unfold split: sum.splits)

lemma execute_pubsub [simp]: "db_pubsub (snd (execute cmd lib ev db)) = db_pubsub db"
  using db_publish_frame(3) [of ev _ _ db] db_save_frame(3) [of lib ev db]
  by (cases cmd; simp add: run_eq peek_def case_prod_unfold split: sum.splits)

lemma dispatch_error_aof:
  assumes "is_error_reply (fst (dispatch lib ev tokens db))"
  shows "db_aof (snd (dispatch lib ev tokens db)) = db_aof db"
  using assms
proof (cases tokens rule: dispatch_cases)
  case (spop key)
  then show ?thesis
    using assms
    by (auto simp: dispatch_simps dispatch_spop_def on_store_eq reply_optional_def
        split: sum.splits option.splits)
next
  case (command cmd)
  then show ?thesis
    using assms by (simp add: dispatch_simps dispatch_command_def case_prod_unfold)
qed (simp_all add: dispatch_simps)

end
