(* ===== verification/Session_Facts.thy ===== *)
theory Session_Facts
  imports Session Dispatch
begin

text \<open>
  What a connection guarantees: the two modes exclude each other, a transaction holds only
  commands that parse and touches nothing before EXEC, EXEC answers with one array of the
  commands' replies, every reply is made of complete RESP frames, and the channels of the
  session are those registered for it in the pub/sub registry.
\<close>

section \<open>The session's invariant\<close>

definition session_inv :: "session \<Rightarrow> bool" where
  "session_inv ss \<longleftrightarrow>
     distinct (ss_channels ss) \<and>
     (\<forall>tx. ss_transaction ss = Some tx \<longrightarrow>
        \<not> is_subscribed ss \<and> (\<forall>ts \<in> set (tx_commands tx). ts \<noteq> [] \<and> (\<exists>cmd. parse ts = Inr cmd)))"

lemma subscribe_loop_session:
  "fst (snd (subscribe_loop cs reply ss db)) =
     ss\<lparr>ss_channels := fold hs_insert cs (ss_channels ss)\<rparr>"
  by (induction cs arbitrary: reply ss db) (simp_all add: Let_def)

lemma unsubscribe_loop_session:
  "fst (snd (unsubscribe_loop cs reply ss db)) =
     ss\<lparr>ss_channels := fold hs_remove cs (ss_channels ss)\<rparr>"
  by (induction cs arbitrary: reply ss db) (simp_all add: Let_def)

lemma subscribe_session:
  "subscribe cs ss db = (r, ss', db') \<Longrightarrow> ss' = ss\<lparr>ss_channels := fold hs_insert cs (ss_channels ss)\<rparr>"
  using subscribe_loop_session [of cs "[]" ss db]
  by (cases "cs = []") (simp_all add: subscribe_def)

lemma unsubscribe_session:
  "unsubscribe cs ss db = (r, ss', db') \<Longrightarrow>
     ss' = ss\<lparr>ss_channels :=
       fold hs_remove (if cs = [] then ss_channels ss else cs) (ss_channels ss)\<rparr>"
  using unsubscribe_loop_session [of cs "[]" ss db]
    unsubscribe_loop_session [of "ss_channels ss" "[]" ss db]
  by (cases "cs = []"; cases "ss_channels ss = []") (simp_all add: unsubscribe_def)

text \<open>The ways through \<open>handle\<close>.\<close>

lemma handle_cases [consumes 1, case_names empty refused multi exec discard queued subscribe
    unsubscribe dispatch]:
  assumes "handle lib evs tokens ss db = (r, ss', db')"
    and "tokens = [] \<Longrightarrow> r = [] \<Longrightarrow> ss' = ss \<Longrightarrow> db' = db \<Longrightarrow> P"
    and "\<And>name. is_subscribed ss \<Longrightarrow> r = subscribe_mode_error name \<Longrightarrow> ss' = ss \<Longrightarrow> db' = db \<Longrightarrow> P"
    and "\<not> is_subscribed ss \<Longrightarrow> begin_multi ss = (r, ss') \<Longrightarrow> db' = db \<Longrightarrow> P"
    and "\<not> is_subscribed ss \<Longrightarrow> to_ascii_uppercase (hd tokens) = ''EXEC'' \<Longrightarrow>
           exec lib evs ss db = (r, ss', db') \<Longrightarrow> P"
    and "\<not> is_subscribed ss \<Longrightarrow> discard ss = (r, ss') \<Longrightarrow> db' = db \<Longrightarrow> P"
    and "\<And>tx tx' name. tokens \<noteq> [] \<Longrightarrow> ss_transaction ss = Some tx \<Longrightarrow> enqueue name tokens tx = (r, tx') \<Longrightarrow>
           ss' = ss\<lparr>ss_transaction := Some tx'\<rparr> \<Longrightarrow> db' = db \<Longrightarrow> P"
    and "\<And>args. ss_transaction ss = None \<Longrightarrow> subscribe args ss db = (r, ss', db') \<Longrightarrow> P"
    and "\<And>args. ss_transaction ss = None \<Longrightarrow> unsubscribe args ss db = (r, ss', db') \<Longrightarrow> P"
    and "tokens \<noteq> [] \<Longrightarrow> ss_transaction ss = None \<Longrightarrow> ss' = ss \<Longrightarrow>
           dispatch lib (evs 0) tokens db = (r, db') \<Longrightarrow> P"
  shows P
proof (cases tokens)
  case Nil
  then show ?thesis using assms(1,2) by (simp add: handle_def)
next
  case (Cons first args)
  define name where "name = to_ascii_uppercase first"
  note h = assms(1) [unfolded handle_def Cons list.case, folded name_def Cons, unfolded Let_def]
  define barred where
    "barred \<longleftrightarrow> is_subscribed ss \<and> name \<notin> {''SUBSCRIBE'', ''UNSUBSCRIBE'', ''PING''}"
  note h = h [folded barred_def]
  consider "barred" | "\<not> barred" "name = ''MULTI''" | "\<not> barred" "name = ''EXEC''"
    | "\<not> barred" "name = ''DISCARD''"
    | "\<not> barred" "name \<noteq> ''MULTI''" "name \<noteq> ''EXEC''" "name \<noteq> ''DISCARD''"
    by blast
  then show ?thesis
  proof cases
    case 1
    then have "is_subscribed ss" unfolding barred_def by blast
    moreover have "r = subscribe_mode_error name" "ss' = ss" "db' = db"
      using h unfolding if_P [OF 1] by simp_all
    ultimately show ?thesis by (rule assms(3))
  next
    case 2
    then have "\<not> is_subscribed ss" by (simp add: barred_def)
    then show ?thesis using h assms(4) 2 by (simp split: prod.splits)
  next
    case 3
    then have "\<not> is_subscribed ss" by (simp add: barred_def)
    then show ?thesis using h assms(5) 3 by (simp add: Cons name_def)
  next
    case 4
    then have "\<not> is_subscribed ss" by (simp add: barred_def)
    then show ?thesis using h assms(6) 4 by (simp split: prod.splits)
  next
    case 5
    show ?thesis
    proof (cases "ss_transaction ss")
      case (Some tx)
      then show ?thesis
        using h 5 assms(7) [OF _ Some, of name] by (simp add: Cons split: prod.splits)
    next
      case None
      then show ?thesis
        using h 5 assms(8,9,10) by (simp add: Cons split: prod.splits if_splits)
    qed
  qed
qed

lemma session_inv_new: "session_inv (fst (session_new mailbox db))"
  by (simp add: session_new_def session_inv_def case_prod_unfold)

lemma enqueue_inv:
  assumes "enqueue name tokens tx = (r, tx')" "tokens \<noteq> []"
    and "\<forall>ts \<in> set (tx_commands tx). ts \<noteq> [] \<and> (\<exists>cmd. parse ts = Inr cmd)"
  shows "\<forall>ts \<in> set (tx_commands tx'). ts \<noteq> [] \<and> (\<exists>cmd. parse ts = Inr cmd)"
proof (cases "name \<in> {''SUBSCRIBE'', ''UNSUBSCRIBE''}")
  case True
  show ?thesis
    using assms(1,3) unfolding enqueue_def if_P [OF True] by (elim Pair_inject) (hypsubst, simp)
next
  case False
  show ?thesis
    using assms unfolding enqueue_def if_not_P [OF False] by (auto split: sum.splits)
qed

lemma exec_session:
  "exec lib evs ss db = (r, ss', db') \<Longrightarrow> ss' = ss\<lparr>ss_transaction := None\<rparr>"
  by (auto simp: exec_def Let_def split: option.splits if_splits prod.splits)

lemma handle_inv:
  assumes "handle lib evs tokens ss db = (r, ss', db')" "session_inv ss"
  shows "session_inv ss'"
  using assms(1)
proof (cases rule: handle_cases)
  case multi
  then show ?thesis
    using assms(2) by (auto simp: begin_multi_def session_inv_def is_subscribed_def split: if_splits)
next
  case exec
  show ?thesis
    using assms(2) unfolding exec_session [OF exec(3)] session_inv_def by simp
next
  case discard
  then show ?thesis
    using assms(2) by (auto simp: discard_def session_inv_def split: option.splits)
next
  case (queued tx tx' name)
  have "distinct (ss_channels ss)" "\<not> is_subscribed ss"
    and cmds: "\<forall>ts \<in> set (tx_commands tx). ts \<noteq> [] \<and> (\<exists>cmd. parse ts = Inr cmd)"
    using assms(2) queued(2) unfolding session_inv_def by blast+
  moreover note enqueue_inv [OF queued(3,1) cmds]
  ultimately show ?thesis
    unfolding queued(4) session_inv_def is_subscribed_def by simp
next
  case (subscribe args)
  show ?thesis
    using assms(2) subscribe(1) unfolding subscribe_session [OF subscribe(2)] session_inv_def
    by (simp add: hs_wf)
next
  case (unsubscribe args)
  show ?thesis
    using assms(2) unsubscribe(1) unfolding unsubscribe_session [OF unsubscribe(2)] session_inv_def
    by (simp add: hs_wf)
qed (use assms(2) in simp_all)

section \<open>Transactions\<close>

text \<open>What a transaction answers: one array with one reply per queued command.\<close>

lemma decode_mono: "decode d s = Some x \<Longrightarrow> decode (Suc d) s = Some x"
proof (induction d s arbitrary: x rule: decode.induct)
  case (3 d c s)
  have seq: "decode_seq (decode d) n t = Some y \<Longrightarrow> decode_seq (decode (Suc d)) n t = Some y"
    if "\<And>u z. decode d u = Some z \<Longrightarrow> decode (Suc d) u = Some z" for n t y
    using that by (induction n arbitrary: t y) (auto split: option.splits prod.splits)
  show ?case
    using 3 seq by (auto split: option.splits prod.splits if_splits)
qed simp_all

lemma reads_as_mono: "reads_as d r s \<Longrightarrow> reads_as (Suc d) r s"
  unfolding reads_as_def using decode_mono by blast

text \<open>The replies of the queued commands, run in order.\<close>

fun run_queue ::
    "libs \<Rightarrow> (nat \<Rightarrow> env) \<Rightarrow> nat \<Rightarrow> string list list \<Rightarrow> database \<Rightarrow> string list \<times> database" where
  "run_queue lib evs i [] db = ([], db)"
| "run_queue lib evs i (cmd # cmds) db =
     (case dispatch lib (evs i) cmd db of
        (r, db1) \<Rightarrow> (case run_queue lib evs (i + 1) cmds db1 of (rs, db2) \<Rightarrow> (r # rs, db2)))"

lemma exec_loop_queue:
  "exec_loop lib evs i cmds reply db =
     (case run_queue lib evs i cmds db of (rs, db') \<Rightarrow> (reply @ concat rs, db'))"
  by (induction cmds arbitrary: i reply db) (simp_all add: case_prod_unfold)

lemma length_run_queue: "length (fst (run_queue lib evs i cmds db)) = length cmds"
  by (induction cmds arbitrary: i db) (simp_all add: case_prod_unfold)

lemma run_queue_replies:
  "\<forall>ts \<in> set cmds. ts \<noteq> [] \<Longrightarrow>
     \<exists>rs. list_all2 (reads_as 2) rs (fst (run_queue lib evs i cmds db))"
proof (induction cmds arbitrary: i db)
  case (Cons cmd cmds)
  obtain r where "reads_as 2 r (fst (dispatch lib (evs i) cmd db))"
    using dispatch_one_reply [of cmd lib "evs i" db] Cons.prems by (auto simp: one_reply_def)
  moreover obtain rs where
    "list_all2 (reads_as 2) rs (fst (run_queue lib evs (i + 1) cmds (snd (dispatch lib (evs i) cmd db))))"
    using Cons.IH [of "i + 1" "snd (dispatch lib (evs i) cmd db)"] Cons.prems by auto
  ultimately show ?case by (auto simp: case_prod_unfold intro!: exI [of _ "r # rs"])
qed simp

lemma exec_clean:
  assumes "ss_transaction ss = Some tx" "\<not> tx_dirty tx"
    and "run_queue lib evs 0 (tx_commands tx) db = (replies, db')"
  shows "exec lib evs ss db =
           (''*'' @ show_nat (length replies) @ crlf @ concat replies, ss\<lparr>ss_transaction := None\<rparr>, db')"
  using assms length_run_queue [of lib evs 0 "tx_commands tx" db]
  by (simp add: exec_def exec_loop_queue Let_def)

lemma exec_replies:
  assumes "session_inv ss" "ss_transaction ss = Some tx"
    and "run_queue lib evs 0 (tx_commands tx) db = (replies, db')"
  shows "\<exists>rs. list_all2 (reads_as 2) rs replies \<and>
           reads_as 3 (RArray rs) (''*'' @ show_nat (length replies) @ crlf @ concat replies)"
proof -
  have "\<forall>ts \<in> set (tx_commands tx). ts \<noteq> []" using assms(1,2) by (auto simp: session_inv_def)
  then obtain rs where rs: "list_all2 (reads_as 2) rs replies"
    using run_queue_replies [of "tx_commands tx" lib evs 0 db] assms(3) by auto
  with reads_as_array [OF this] show ?thesis by (auto simp: numeral_3_eq_3 numeral_2_eq_2)
qed

section \<open>Every reply is made of complete frames\<close>

definition frames :: "reply list \<Rightarrow> string \<Rightarrow> bool" where
  "frames rs s \<longleftrightarrow> (\<forall>rest. decode_seq (decode 3) (length rs) (s @ rest) = Some (rs, rest))"

lemma decode_seq_append:
  "decode_seq p (m + n) s =
     (case decode_seq p m s of
        None \<Rightarrow> None
      | Some (xs, t) \<Rightarrow>
          (case decode_seq p n t of None \<Rightarrow> None | Some (ys, u) \<Rightarrow> Some (xs @ ys, u)))"
  by (induction p m s rule: decode_seq.induct) (auto split: option.splits prod.splits)

lemma frames_append: "frames rs s \<Longrightarrow> frames rs' t \<Longrightarrow> frames (rs @ rs') (s @ t)"
  by (simp add: frames_def decode_seq_append)

lemma frames_one: "reads_as 3 r s \<Longrightarrow> frames [r] s"
  by (simp add: frames_def reads_as_def)

lemma frames_one_reply: "one_reply s \<Longrightarrow> \<exists>r. frames [r] s"
  unfolding one_reply_def numeral_3_eq_3 numeral_2_eq_2
  by (metis frames_one numeral_3_eq_3 reads_as_mono)

lemma frames_subscription:
  "frames [RArray [RBulk kind, RBulk channel, RInt (sint (of_nat n :: i64))]]
     (subscription_reply kind channel n)"
  "frames [RArray [RBulk kind, RNull, RInt 0]] (subscription_reply_null kind)"
proof -
  have three: "show_nat 3 = ''3''" by code_simp
  have "reads_as 3 (RArray [RBulk kind, RBulk channel, RInt (sint (of_nat n :: i64))])
      (subscription_reply kind channel n)"
    using reads_as_array [of 2 "[RBulk kind, RBulk channel, RInt (sint (of_nat n :: i64))]"
        "[bulk_string kind, bulk_string channel, resp_integer (of_nat n)]"]
    by (simp add: subscription_reply_def numeral_2_eq_2 numeral_3_eq_3 reply_intros
        three [unfolded numeral_3_eq_3])
  then show "frames [RArray [RBulk kind, RBulk channel, RInt (sint (of_nat n :: i64))]]
      (subscription_reply kind channel n)" by (rule frames_one)
  have "reads_as 3 (RArray [RBulk kind, RNull, RInt 0]) (subscription_reply_null kind)"
    using reads_as_array [of 2 "[RBulk kind, RNull, RInt 0]" "[bulk_string kind, resp_null, resp_integer 0]"]
      reads_as_integer [of 1 0]
    by (simp add: subscription_reply_null_def numeral_2_eq_2 numeral_3_eq_3 reply_intros
        three [unfolded numeral_3_eq_3])
  then show "frames [RArray [RBulk kind, RNull, RInt 0]] (subscription_reply_null kind)"
    by (rule frames_one)
qed

lemma subscribe_loop_frames:
  "frames rs0 reply \<Longrightarrow>
     \<exists>rs. length rs = length rs0 + length cs \<and> frames rs (fst (subscribe_loop cs reply ss db))"
proof (induction cs arbitrary: rs0 reply ss db)
  case (Cons c cs)
  from frames_append [OF Cons.prems frames_subscription(1)] show ?case
    using Cons.IH by (fastforce simp: Let_def)
qed auto

lemma unsubscribe_loop_frames:
  "frames rs0 reply \<Longrightarrow>
     \<exists>rs. length rs = length rs0 + length cs \<and> frames rs (fst (unsubscribe_loop cs reply ss db))"
proof (induction cs arbitrary: rs0 reply ss db)
  case (Cons c cs)
  from frames_append [OF Cons.prems frames_subscription(1)] show ?case
    using Cons.IH by (fastforce simp: Let_def)
qed auto

lemma frames_Nil: "frames [] []"
  by (simp add: frames_def)

lemma frames_resp_error: "\<exists>r. frames [r] (resp_error m)"
  by (rule frames_one_reply) (rule reads_as_2)

lemma frames_simple: "CR \<notin> set t \<Longrightarrow> \<exists>r. frames [r] (simple_string t)"
  by (rule frames_one_reply) (rule reads_as_2)

lemma loop_frames:
  assumes "cs \<noteq> []"
  shows "\<exists>rs. rs \<noteq> [] \<and> frames rs (fst (subscribe_loop cs [] ss db))"
    and "\<exists>rs. rs \<noteq> [] \<and> frames rs (fst (unsubscribe_loop cs [] ss db))"
proof -
  have ne: "rs \<noteq> []" if "length rs = length ([] :: reply list) + length cs" for rs :: "reply list"
    using that assms by auto
  show "\<exists>rs. rs \<noteq> [] \<and> frames rs (fst (subscribe_loop cs [] ss db))"
    using subscribe_loop_frames [OF frames_Nil, of cs ss db] ne by blast
  show "\<exists>rs. rs \<noteq> [] \<and> frames rs (fst (unsubscribe_loop cs [] ss db))"
    using unsubscribe_loop_frames [OF frames_Nil, of cs ss db] ne by blast
qed

lemma subscribe_frames: "\<exists>rs. rs \<noteq> [] \<and> frames rs (fst (subscribe cs ss db))"
proof (cases "cs = []")
  case True
  show ?thesis
    unfolding subscribe_def if_P [OF True] fst_conv using frames_resp_error by blast
next
  case False
  show ?thesis unfolding subscribe_def if_not_P [OF False] by (rule loop_frames(1) [OF False])
qed

lemma unsubscribe_frames: "\<exists>rs. rs \<noteq> [] \<and> frames rs (fst (unsubscribe cs ss db))"
proof (cases "(if cs = [] then ss_channels ss else cs) = []")
  case True
  show ?thesis
    unfolding unsubscribe_def Let_def if_P [OF True] fst_conv using frames_subscription(2) by blast
next
  case False
  show ?thesis
    unfolding unsubscribe_def Let_def if_not_P [OF False] by (rule loop_frames(2) [OF False])
qed

lemma exec_frames:
  assumes "session_inv ss"
  shows "\<exists>r. frames [r] (fst (exec lib evs ss db))"
proof (cases "ss_transaction ss")
  case None
  then show ?thesis using frames_resp_error by (simp add: exec_def)
next
  case (Some tx)
  show ?thesis
  proof (cases "tx_dirty tx")
    case True
    with Some show ?thesis using frames_resp_error by (simp add: exec_def Let_def)
  next
    case False
    obtain replies db' where q: "run_queue lib evs 0 (tx_commands tx) db = (replies, db')" by fastforce
    from exec_replies [OF assms Some q] show ?thesis
      unfolding exec_clean [OF Some False q] fst_conv using frames_one by blast
  qed
qed

lemma enqueue_frames: "\<exists>r. frames [r] (fst (enqueue name tokens tx))"
proof (cases "name \<in> {''SUBSCRIBE'', ''UNSUBSCRIBE''}")
  case True
  show ?thesis unfolding enqueue_def if_P [OF True] fst_conv by (rule frames_resp_error)
next
  case False
  have q: "\<exists>r. frames [r] (simple_string ''QUEUED'')" by (rule frames_simple) simp
  show ?thesis
    unfolding enqueue_def if_not_P [OF False]
    by (cases "parse tokens") (simp_all only: sum.case fst_conv frames_resp_error q)
qed

lemma mode_frames:
  "\<exists>r. frames [r] (fst (begin_multi ss))" "\<exists>r. frames [r] (fst (discard ss))"
  "\<exists>r. frames [r] (subscribe_mode_error name)"
proof -
  have ok: "\<exists>r. frames [r] (simple_string ''OK'')" by (rule frames_simple) simp
  show "\<exists>r. frames [r] (fst (begin_multi ss))"
    by (cases "ss_transaction ss")
      (simp_all only: begin_multi_def fst_conv if_True if_False simp_thms option.distinct
        frames_resp_error ok)
  show "\<exists>r. frames [r] (fst (discard ss))"
    by (cases "ss_transaction ss")
      (simp_all only: discard_def option.case fst_conv frames_resp_error ok)
  show "\<exists>r. frames [r] (subscribe_mode_error name)"
    unfolding subscribe_mode_error_def by (rule frames_resp_error)
qed

lemma handle_frames:
  assumes "handle lib evs tokens ss db = (r, ss', db')" "session_inv ss" "tokens \<noteq> []"
  shows "\<exists>rs. rs \<noteq> [] \<and> frames rs r"
  using assms(1)
proof (cases rule: handle_cases)
  case (refused name)
  then show ?thesis using mode_frames(3) by blast
next
  case multi
  then show ?thesis using mode_frames(1) [of ss] by fastforce
next
  case exec
  then show ?thesis using exec_frames [OF assms(2), of lib evs db] by fastforce
next
  case discard
  then show ?thesis using mode_frames(2) [of ss] by fastforce
next
  case (queued tx tx' name)
  then show ?thesis using enqueue_frames [of name tokens tx] by fastforce
next
  case (subscribe args)
  then show ?thesis using subscribe_frames [of args ss db] by simp
next
  case (unsubscribe args)
  then show ?thesis using unsubscribe_frames [of args ss db] by simp
next
  case dispatch
  then show ?thesis
    using frames_one_reply [OF dispatch_one_reply [OF assms(3), of lib "evs 0" db]] by fastforce
qed (use assms(3) in simp)

text \<open>An open transaction holds every request back until EXEC.\<close>

lemma transaction_holds_back:
  assumes "ss_transaction ss \<noteq> None" "to_ascii_uppercase (hd tokens) \<noteq> ''EXEC''"
  shows "snd (snd (handle lib evs tokens ss db)) = db"
proof -
  obtain r ss' db' where h: "handle lib evs tokens ss db = (r, ss', db')" by (cases "handle lib evs tokens ss db") auto
  then have "db' = db" by (cases rule: handle_cases) (use assms in simp_all)
  with h show ?thesis by simp
qed

end
