(* ===== verification/Store_Inv.thy ===== *)
theory Store_Inv
  imports Dispatch
begin

text \<open>
  The representation invariant of the store: distinct keys, every collection in its own
  well-formed shape (a sorted set with its two indexes in step and no NaN score), and no empty
  collection.
  Every operation preserves it, so every request does.
\<close>

named_theorems inv_intros \<open>operations that preserve the store's invariant\<close>

definition no_nan :: "rsorted_set \<Rightarrow> bool" where
  "no_nan z \<longleftrightarrow> (\<forall>mb sc. hm_get (zs_members z) mb = Some sc \<longrightarrow> \<not> is_nan sc)"

fun scores_ok :: "db_value \<Rightarrow> bool" where
  "scores_ok (VSortedSet z) = no_nan z"
| "scores_ok _ = True"

definition value_ok :: "float_order \<Rightarrow> db_value \<Rightarrow> bool" where
  "value_ok fo v \<longleftrightarrow> value_wf fo v \<and> value_nonempty v \<and> scores_ok v"

definition store_inv :: "float_order \<Rightarrow> store \<Rightarrow> bool" where
  "store_inv fo s \<longleftrightarrow> store_all (value_ok fo) s"

lemma value_ok_simps [simp]:
  "value_ok fo (VStr t)" "value_ok fo (VList l) \<longleftrightarrow> l \<noteq> []"
  "value_ok fo (VSet x) \<longleftrightarrow> distinct x \<and> x \<noteq> []"
  "value_ok fo (VHash h) \<longleftrightarrow> hm_wf h \<and> h \<noteq> []"
  "value_ok fo (VSortedSet z) \<longleftrightarrow> zset_inv fo z \<and> zs_members z \<noteq> [] \<and> no_nan z"
  by (auto simp: value_ok_def)

lemma fold_preserves: "(\<And>x a. x \<in> set xs \<Longrightarrow> P a \<Longrightarrow> P (f x a)) \<Longrightarrow> P a \<Longrightarrow> P (fold f xs a)"
  by (induction xs arbitrary: a) auto

section \<open>Strings, lists, sets and hashes\<close>

lemma set_inv [inv_intros]: "store_all (value_ok fo) s \<Longrightarrow> store_all (value_ok fo) (db_set now k v ttl s)"
  by (simp add: db_set_def store_all_insert)

lemma mset_inv [inv_intros]: "store_all (value_ok fo) s \<Longrightarrow> store_all (value_ok fo) (db_mset pairs s)"
  by (induction pairs s rule: db_mset.induct) (simp_all add: store_all_insert)

lemma del_inv [inv_intros]: "store_all P s \<Longrightarrow> store_all P (snd (db_del now ks s))"
proof -
  have "store_all P s \<Longrightarrow> store_all P (snd (db_del_loop now n ks s))" for n
    by (induction ks arbitrary: n s)
      (auto simp: live_entry_eq store_all_evict store_all_remove split: option.splits)
  then show "store_all P s \<Longrightarrow> store_all P (snd (db_del now ks s))" by (simp add: db_del_def)
qed

lemma setnx_inv [inv_intros]:
  "store_all (value_ok fo) s \<Longrightarrow> store_all (value_ok fo) (snd (db_setnx now k v s))"
  by (simp add: db_setnx_def live_entry_eq store_all_insert store_all_evict split: option.splits)

lemma getset_inv [inv_intros]:
  "store_all (value_ok fo) s \<Longrightarrow> store_all (value_ok fo) (snd (db_getset now k v s))"
  by (simp add: db_getset_def Let_def live_entry_eq store_all_insert store_all_evict
      split: option.splits db_value.splits)

lemma string_writers_inv [inv_intros]:
  "store_all (value_ok fo) s \<Longrightarrow> store_all (value_ok fo) (snd (db_incr_by now k d s))"
  "store_all (value_ok fo) s \<Longrightarrow> store_all (value_ok fo) (snd (db_append now k v s))"
  unfolding db_incr_by_def db_append_def
  by (rule store_all_grow; simp add: as_iffs)+

lemma push_inv [inv_intros]:
  "vs \<noteq> [] \<Longrightarrow> store_all (value_ok fo) s \<Longrightarrow> store_all (value_ok fo) (snd (db_lpush now k vs s))"
  "vs \<noteq> [] \<Longrightarrow> store_all (value_ok fo) s \<Longrightarrow> store_all (value_ok fo) (snd (db_rpush now k vs s))"
  unfolding db_lpush_def db_rpush_def list_or_create_def
  by (rule store_all_grow; auto simp: as_iffs Let_def fold_lpush fold_rpush)+

lemma pop_inv [inv_intros]:
  "store_all (value_ok fo) s \<Longrightarrow> store_all (value_ok fo) (snd (db_lpop now k s))"
  "store_all (value_ok fo) s \<Longrightarrow> store_all (value_ok fo) (snd (db_rpop now k s))"
  unfolding db_lpop_def db_rpop_def db_pop_def
  by (rule store_all_shrink; auto simp: as_iffs)+

lemma lset_inv [inv_intros]:
  assumes "store_all (value_ok fo) s"
  shows "store_all (value_ok fo) (snd (db_lset now k i v s))"
proof (cases "live now s k")
  case None
  with assms show ?thesis by (simp add: db_lset_def live_entry_eq store_all_evict)
next
  case (Some e)
  have "l \<noteq> []" if "en_value e = VList l" for l
    using store_all_live [OF assms Some] that by simp
  with assms Some show ?thesis
    by (auto simp: db_lset_def live_entry_eq rl_lset_def store_all_write_value store_all_evict
        split: option.splits db_value.splits)
qed

lemma sadd_all_facts:
  "vs \<noteq> [] \<Longrightarrow> snd (sadd_all vs n x) \<noteq> []"
  "distinct x \<Longrightarrow> distinct (snd (sadd_all vs n x))"
  "distinct x \<Longrightarrow> distinct (snd (srem_all vs n x))"
proof -
  assume "vs \<noteq> []"
  then have "set (fold hs_insert vs x) \<noteq> {}" by (simp add: hs_simps)
  then show "snd (sadd_all vs n x) \<noteq> []" by (auto simp: snd_sadd_all)
qed (simp_all add: snd_sadd_all snd_srem_all hs_wf)

lemma set_writers_inv [inv_intros]:
  "vs \<noteq> [] \<Longrightarrow> store_all (value_ok fo) s \<Longrightarrow> store_all (value_ok fo) (snd (db_sadd now k vs s))"
  "store_all (value_ok fo) s \<Longrightarrow> store_all (value_ok fo) (snd (db_srem now k vs s))"
  "store_all (value_ok fo) s \<Longrightarrow> store_all (value_ok fo) (snd (db_spop now k s))"
  unfolding db_sadd_def db_srem_def db_spop_def set_or_create_def
  subgoal
    by (rule store_all_grow)
      (auto simp: as_iffs rset_new_def prod_eq_iff sadd_all_facts)
  subgoal by (rule store_all_shrink) (auto simp: as_iffs sadd_all_facts)
  subgoal by (rule store_all_shrink) (auto simp: as_iffs rs_spop_def hs_wf split: list.splits)
  done

lemma hash_writers_inv [inv_intros]:
  "store_all (value_ok fo) s \<Longrightarrow> store_all (value_ok fo) (snd (db_hset now k f v s))"
  "store_all (value_ok fo) s \<Longrightarrow> store_all (value_ok fo) (snd (db_hdel now k f s))"
  "store_all (value_ok fo) s \<Longrightarrow> store_all (value_ok fo) (snd (db_hincrby now k f d s))"
  unfolding db_hset_def db_hdel_def db_hincrby_def hash_or_create_def rhash_new_def
  subgoal by (rule store_all_grow) (auto simp: as_iffs rh_hset_def update_nonempty)
  subgoal by (rule store_all_shrink) (auto simp: as_iffs rh_hdel_def)
  subgoal by (rule store_all_grow)
      (auto simp: as_iffs rh_hset_def rh_hget_def update_nonempty checked_add_zero split: option.splits)
  done

section \<open>Sorted sets\<close>

lemma zadd_nonempty:
  "zs_members z \<noteq> [] \<Longrightarrow> zs_members (snd (zs_zadd fo sc mb z)) \<noteq> []"
  "zs_members (snd (zs_zadd fo sc mb z)) \<noteq> []"
  by (auto simp: zs_zadd_def Let_def update_nonempty split: option.splits)

lemma fold_zadd_nonempty:
  "ms \<noteq> [] \<Longrightarrow> zs_members (fold (\<lambda>(sc, mb) z. snd (zs_zadd fo sc mb z)) ms z) \<noteq> []"
  by (induction ms rule: rev_induct) (auto simp: zadd_nonempty)

lemma no_nan_new: "no_nan zset_new"
  by (simp add: no_nan_def zset_new_def)

lemma no_nan_zadd: "no_nan z \<Longrightarrow> \<not> is_nan sc \<Longrightarrow> no_nan (snd (zs_zadd fo sc mb z))"
  by (auto simp: no_nan_def zs_zadd_def Let_def split: option.splits)

lemma no_nan_zrem: "no_nan z \<Longrightarrow> no_nan (snd (zs_zrem fo mb z))"
  by (auto simp: no_nan_def zs_zrem_def split: option.splits)

lemma no_nan_fold_zadd:
  "\<forall>(sc, mb) \<in> set ms. \<not> is_nan sc \<Longrightarrow> no_nan z \<Longrightarrow>
     no_nan (fold (\<lambda>(sc, mb) z. snd (zs_zadd fo sc mb z)) ms z)"
  by (rule fold_preserves) (auto intro: no_nan_zadd)

context ordered_float
begin

lemma fold_zadd_inv: "zset_inv fo z \<Longrightarrow> zset_inv fo (fold (\<lambda>(sc, mb) z. snd (zs_zadd fo sc mb z)) ms z)"
  by (rule fold_preserves) (auto intro: zset_inv_zadd)

lemma zset_writers_inv:
  "ms \<noteq> [] \<Longrightarrow> \<forall>(sc, mb) \<in> set ms. \<not> is_nan sc \<Longrightarrow> store_all (value_ok fo) s \<Longrightarrow>
     store_all (value_ok fo) (snd (db_zadd fo now k ms s))"
  "store_all (value_ok fo) s \<Longrightarrow> store_all (value_ok fo) (snd (db_zrem fo now k mb s))"
  "\<not> is_nan incr \<Longrightarrow> store_all (value_ok fo) s \<Longrightarrow>
     store_all (value_ok fo) (snd (db_zincrby fo now k incr mb s))"
  unfolding db_zadd_def db_zrem_def db_zincrby_def sorted_set_or_create_def
  subgoal
    using fold_zadd_nonempty [of ms fo] fold_zadd_inv [of _ ms] no_nan_fold_zadd [of ms]
    by (intro store_all_grow)
      (auto simp: as_iffs zset_inv_new no_nan_new prod_eq_iff snd_zadd_all)
  subgoal by (rule store_all_shrink) (auto simp: as_iffs zset_inv_zrem no_nan_zrem zs_is_empty_def)
  subgoal by (rule store_all_grow)
      (auto simp: as_iffs Let_def zadd_nonempty no_nan_new [unfolded zset_new_def] no_nan_zadd
        zset_inv_new [unfolded zset_new_def] zset_inv_zadd zs_zscore_def
        zset_new_def add_from_zero_not_nan split: if_splits)
  done

end

section \<open>Keys and requests\<close>

lemma key_ops_inv [inv_intros]:
  "store_all P s \<Longrightarrow> store_all P (snd (db_expire now k n s))"
  "store_all P s \<Longrightarrow> store_all P (snd (db_persist now k s))"
  "store_all P s \<Longrightarrow> store_all P (snd (db_rename now k k' s))"
  "store_all P s \<Longrightarrow> store_all P (db_flushall s)"
  "store_all P s \<Longrightarrow> store_all P (snd (db_sweep_expired now s))"
  by (auto simp: db_expire_def db_persist_def db_rename_def db_flushall_def db_sweep_expired_def
      live_entry_eq get_evict_same store_wf_intros Let_def split: option.splits
      intro!: store_all_insert dest: store_allD store_all_live)

lemma reads_inv [inv_intros]:
  "store_all P s \<Longrightarrow> store_all P (snd (read_entry now k absent g s))"
  by (rule store_all_read_entry)

lemmas read_defs = db_get_def db_strlen_def db_lrange_def db_llen_def db_lindex_def
  db_smembers_def db_sismember_def db_scard_def db_zrange_def db_zscore_def db_zcard_def
  db_zrank_def db_zrange_with_scores_def db_zrange_by_score_def db_hget_def db_hgetall_def
  db_hkeys_def db_hvals_def db_hlen_def db_hexists_def db_type_of_def db_ttl_def

lemma execute_inv:
  assumes "ordered_float (lib_float lib)" "command_wf cmd" "store_inv (lib_float lib) (db_store db)"
  shows "store_inv (lib_float lib) (db_store (snd (execute cmd lib ev db)))"
proof -
  have s: "store_all (value_ok (lib_float lib)) (db_store db)"
    using assms(3) by (simp add: store_inv_def)
  show ?thesis
    unfolding store_inv_def using assms(2)
    by (cases cmd; simp only: execute.simps run_eq peek_def command_wf.simps snd_conv;
        simp add: run_eq read_defs inv_intros s ordered_float.zset_writers_inv [OF assms(1)]
          save_keeps_store [unfolded execute.simps] case_prod_unfold split: sum.splits)
qed

lemma dispatch_inv:
  assumes "ordered_float (lib_float lib)" "store_inv (lib_float lib) (db_store db)"
  shows "store_inv (lib_float lib) (db_store (snd (dispatch lib ev tokens db)))"
proof (cases "parse tokens")
  case (Inl err)
  then show ?thesis using assms(2) by (cases "tokens = []") (simp_all add: dispatch_simps)
next
  case (Inr cmd)
  then show ?thesis
    using execute_inv [OF assms(1) parse_wf [OF Inr] assms(2)] by (simp add: dispatch_execute [OF Inr])
qed

end
