(* ===== verification/Server.thy ===== *)
theory Server
  imports Session
begin

text \<open>
  The front end, \<open>src/src/server/mod.rs\<close>: request framing, recovery at startup, and the
  connection.  A reader is the list of the bytes it has left; the functions of tokio that the
  source calls on it (\<open>read_line\<close>, \<open>read_exact\<close>) are written out on that list, with
  the UTF-8 check that \<open>read_line\<close> and \<open>String::from_utf8\<close> make.
\<close>

section \<open>Text\<close>

definition byte_in :: "nat \<Rightarrow> nat \<Rightarrow> char \<Rightarrow> bool" where
  "byte_in lo hi c \<longleftrightarrow> lo \<le> of_char c \<and> of_char c \<le> (hi :: nat)"

abbreviation cont_byte :: "char \<Rightarrow> bool" where
  "cont_byte \<equiv> byte_in 0x80 0xBF"

text \<open>Well-formed UTF-8 (Unicode, table 3-7).\<close>

fun utf8 :: "string \<Rightarrow> bool" where
  "utf8 [] = True"
| "utf8 (a # s) =
     (if byte_in 0 0x7F a then utf8 s
      else if byte_in 0xC2 0xDF a then
        (case s of b # t \<Rightarrow> cont_byte b \<and> utf8 t | _ \<Rightarrow> False)
      else if byte_in 0xE0 0xEF a then
        (case s of
           b # c # t \<Rightarrow>
             byte_in (if of_char a = (0xE0 :: nat) then 0xA0 else 0x80)
               (if of_char a = (0xED :: nat) then 0x9F else 0xBF) b \<and> cont_byte c \<and> utf8 t
         | _ \<Rightarrow> False)
      else if byte_in 0xF0 0xF4 a then
        (case s of
           b # c # d # t \<Rightarrow>
             byte_in (if of_char a = (0xF0 :: nat) then 0x90 else 0x80)
               (if of_char a = (0xF4 :: nat) then 0x8F else 0xBF) b \<and>
             cont_byte c \<and> cont_byte d \<and> utf8 t
         | _ \<Rightarrow> False)
      else False)"

text \<open>
  The bytes of the characters with the property \<open>White_Space\<close>: \<open>space_width s\<close> is the number
  of bytes of such a character at the start of \<open>s\<close>, and 0 when there is none.
\<close>

definition ascii_space :: "char \<Rightarrow> bool" where
  "ascii_space c \<longleftrightarrow> byte_in 9 13 c \<or> c = CHR '' ''"

definition space2 :: "char \<Rightarrow> char \<Rightarrow> bool" where
  "space2 a b \<longleftrightarrow> a = CHR 0xC2 \<and> (b = CHR 0x85 \<or> b = CHR 0xA0)"

definition space3 :: "char \<Rightarrow> char \<Rightarrow> char \<Rightarrow> bool" where
  "space3 a b c \<longleftrightarrow>
     a = CHR 0xE1 \<and> b = CHR 0x9A \<and> c = CHR 0x80 \<or>
     a = CHR 0xE2 \<and> b = CHR 0x80 \<and> (byte_in 0x80 0x8A c \<or> c \<in> {CHR 0xA8, CHR 0xA9, CHR 0xAF}) \<or>
     a = CHR 0xE2 \<and> b = CHR 0x81 \<and> c = CHR 0x9F \<or>
     a = CHR 0xE3 \<and> b = CHR 0x80 \<and> c = CHR 0x80"

fun space_width :: "string \<Rightarrow> nat" where
  "space_width (a # s) =
     (if ascii_space a then 1
      else case s of
          b # t \<Rightarrow>
            (if space2 a b then 2
             else case t of c # _ \<Rightarrow> (if space3 a b c then 3 else 0) | [] \<Rightarrow> 0)
        | [] \<Rightarrow> 0)"
| "space_width [] = 0"

text \<open>\<open>str::trim_end\<close>, on the reversed string.\<close>

fun trim_rev :: "string \<Rightarrow> string" where
  "trim_rev (c # b # a # s) =
     (if ascii_space c then trim_rev (b # a # s)
      else if space2 b c then trim_rev (a # s)
      else if space3 a b c then trim_rev s
      else c # b # a # s)"
| "trim_rev [c, b] = (if ascii_space c then trim_rev [b] else if space2 b c then [] else [c, b])"
| "trim_rev [c] = (if ascii_space c then [] else [c])"
| "trim_rev [] = []"

definition trim_end :: "string \<Rightarrow> string" where
  "trim_end s = rev (trim_rev (rev s))"

text \<open>\<open>str::split_whitespace\<close>: \<open>word\<close> is the token being read.\<close>

definition end_word :: "string \<Rightarrow> string list" where
  "end_word word = (if word = [] then [] else [word])"

function split_words :: "string \<Rightarrow> string \<Rightarrow> string list" where
  "split_words word [] = end_word word"
| "split_words word (c # s) =
     (let w = space_width (c # s) in
      if w = 0 then split_words (word @ [c]) s
      else end_word word @ split_words [] (drop (w - 1) s))"
  by pat_completeness auto

termination by (relation "measure (\<lambda>(word, s). length s)") auto

definition split_whitespace :: "string \<Rightarrow> string list" where
  "split_whitespace s = split_words [] s"

section \<open>Readers\<close>

datatype io_error = UnexpectedEof | InvalidUtf8 | ProtocolError string

text \<open>Bytes up to and including the next line feed, or all of them when there is none.\<close>

fun take_line :: "string \<Rightarrow> string \<times> string" where
  "take_line [] = ([], [])"
| "take_line (c # s) = (if c = LF then ([c], s) else case take_line s of (l, r) \<Rightarrow> (c # l, r))"

definition read_line :: "string \<Rightarrow> io_error + string \<times> string" where
  "read_line s =
     (case take_line s of (l, r) \<Rightarrow> (if utf8 l then Inr (l, r) else Inl InvalidUtf8))"

definition read_exact :: "nat \<Rightarrow> string \<Rightarrow> io_error + string \<times> string" where
  "read_exact n s = (if n \<le> length s then Inr (take n s, drop n s) else Inl UnexpectedEof)"

definition MAX_MULTIBULK :: nat where
  "MAX_MULTIBULK = 1024 * 1024"

definition MAX_BULK_BYTES :: nat where
  "MAX_BULK_BYTES = 512 * 1024 * 1024"

definition bind_io :: "io_error + 'a \<Rightarrow> ('a \<Rightarrow> io_error + 'b) \<Rightarrow> io_error + 'b" where
  "bind_io r f = (case r of Inl err \<Rightarrow> Inl err | Inr x \<Rightarrow> f x)"

definition ok_or :: "string \<Rightarrow> 'a option \<Rightarrow> io_error + 'a" where
  "ok_or message v = (case v of Some x \<Rightarrow> Inr x | None \<Rightarrow> Inl (ProtocolError message))"

definition read_bulk_string :: "string \<Rightarrow> io_error + string \<times> string" where
  "read_bulk_string s =
     bind_io (read_line s) (\<lambda>(header, rest).
     if header = [] then Inl (ProtocolError ''unexpected end of input'')
     else bind_io (ok_or ''expected a bulk string'' (strip_prefix_char CHR ''$'' (trim_end header)))
       (\<lambda>digits.
     bind_io (ok_or ''invalid bulk length'' (parse_u64 digits)) (\<lambda>len.
     if MAX_BULK_BYTES < len then Inl (ProtocolError ''bulk length out of range'')
     else bind_io (read_exact (len + 2) rest) (\<lambda>(buffer, rest').
     let data = take len buffer in
     if utf8 data then Inr (data, rest')
     else Inl (ProtocolError ''invalid UTF-8 in bulk string'')))))"

fun read_bulks :: "nat \<Rightarrow> string \<Rightarrow> io_error + string list \<times> string" where
  "read_bulks 0 s = Inr ([], s)"
| "read_bulks (Suc n) s =
     bind_io (read_bulk_string s) (\<lambda>(token, rest).
     bind_io (read_bulks n rest) (\<lambda>(tokens, rest'). Inr (token # tokens, rest')))"

definition read_multibulk :: "string \<Rightarrow> string \<Rightarrow> io_error + string list \<times> string" where
  "read_multibulk count s =
     bind_io (ok_or ''invalid multibulk length'' (parse_u64 count)) (\<lambda>n.
     if MAX_MULTIBULK < n then Inl (ProtocolError ''multibulk length out of range'')
     else read_bulks n s)"

definition read_request :: "string \<Rightarrow> io_error + (string list \<times> string) option" where
  "read_request s =
     bind_io (read_line s) (\<lambda>(line, rest).
     if line = [] then Inr None
     else
       (let line' = trim_end line in
        case strip_prefix_char CHR ''*'' line' of
          Some count \<Rightarrow> map_sum id Some (read_multibulk count rest)
        | None \<Rightarrow> Inr (Some (split_whitespace line', rest))))"

section \<open>Every request consumes input\<close>

lemma bind_io_Inr [simp]: "bind_io (Inr x) f = f x"
  by (simp add: bind_io_def)

lemma bind_io_Inl [simp]: "bind_io (Inl err) f = Inl err"
  by (simp add: bind_io_def)

lemma bind_io_eq_Inr: "bind_io r f = Inr y \<longleftrightarrow> (\<exists>x. r = Inr x \<and> f x = Inr y)"
  by (cases r) (auto simp: bind_io_def)

lemma ok_or_eq_Inr [simp]: "ok_or m v = Inr x \<longleftrightarrow> v = Some x"
  by (cases v) (auto simp: ok_or_def)

lemma ok_or_Some [simp]: "ok_or m (Some x) = Inr x"
  by (simp add: ok_or_def)

lemma map_sum_eq_Inr: "map_sum f g r = Inr y \<longleftrightarrow> (\<exists>x. r = Inr x \<and> y = g x)"
  by (cases r) auto

lemma take_line_append: "take_line s = (l, r) \<Longrightarrow> s = l @ r"
  by (induction s arbitrary: l r) (auto split: if_splits prod.splits)

lemma read_line_append: "read_line s = Inr (l, r) \<Longrightarrow> s = l @ r"
  by (auto simp: read_line_def split: prod.splits if_splits dest: take_line_append)

lemma read_bulk_string_less:
  "read_bulk_string s = Inr (x, r) \<Longrightarrow> length r < length s"
  by (auto simp: read_bulk_string_def bind_io_eq_Inr read_exact_def Let_def
      split: if_splits dest!: read_line_append)

lemma read_bulks_le: "read_bulks n s = Inr (ts, r) \<Longrightarrow> length r \<le> length s"
  by (induction n arbitrary: s ts)
    (force simp: bind_io_eq_Inr dest: read_bulk_string_less)+

lemma read_multibulk_le: "read_multibulk c s = Inr (ts, r) \<Longrightarrow> length r \<le> length s"
  by (auto simp: read_multibulk_def bind_io_eq_Inr split: if_splits dest: read_bulks_le)

lemma read_request_less:
  assumes "read_request s = Inr (Some (ts, r))"
  shows "length r < length s"
proof -
  obtain l t where l: "read_line s = Inr (l, t)" "l \<noteq> []"
    using assms by (auto simp: read_request_def bind_io_eq_Inr split: if_splits)
  then have "length t < length s" using read_line_append by fastforce
  moreover have "length r \<le> length t"
    using assms l
    by (auto simp: read_request_def Let_def map_sum_eq_Inr split: option.splits
        dest!: read_multibulk_le)
  ultimately show ?thesis by simp
qed

section \<open>Recovery at startup\<close>

datatype file_read = NotFound | ReadFailed | Contents string

text \<open>The replay loop: it counts the commands and stops at the end or at a malformed entry.\<close>

function replay_loop :: "libs \<Rightarrow> (nat \<Rightarrow> env) \<Rightarrow> nat \<Rightarrow> string \<Rightarrow> database \<Rightarrow> nat \<times> database" where
  "replay_loop lib evs i s db =
     (case read_request s of
        Inr (Some (tokens, rest)) \<Rightarrow>
          replay_loop lib evs (i + 1) rest (snd (dispatch lib (evs i) tokens db))
      | Inr None \<Rightarrow> (i, db)
      | Inl _ \<Rightarrow> (i, db))"
  by pat_completeness auto

termination
  by (relation "measure (\<lambda>(lib, evs, i, s, db). length s)") (auto dest: read_request_less)

declare replay_loop.simps [simp del]

definition replay_aof ::
    "libs \<Rightarrow> (nat \<Rightarrow> env) \<Rightarrow> file_read \<Rightarrow> database \<Rightarrow> (unit + nat) \<times> database" where
  "replay_aof lib evs file db =
     (case file of
        NotFound \<Rightarrow> (Inr 0, db)
      | ReadFailed \<Rightarrow> (Inl (), db)
      | Contents bytes \<Rightarrow>
          (case replay_loop lib evs 0 bytes (begin_replay db) of
             (count, db') \<Rightarrow> (Inr count, end_replay db')))"

text \<open>The settings of \<open>src/src/config.rs\<close>; their parsing is the crate clap's.\<close>

record config =
  cf_host :: string
  cf_port :: nat
  cf_log_level :: string
  cf_sweep_secs :: nat
  cf_snapshot_file :: string
  cf_appendonly :: bool
  cf_appendfsync :: string
  cf_aof_file :: string

text \<open>The default of every setting.\<close>

definition default_config :: config where
  "default_config =
     \<lparr>cf_host = ''127.0.0.1'', cf_port = 7335, cf_log_level = ''info'', cf_sweep_secs = 10,
      cf_snapshot_file = ''dump.rdb.json'', cf_appendonly = False, cf_appendfsync = ''everysec'',
      cf_aof_file = ''appendonly.aof''\<rparr>"

definition config_address :: "config \<Rightarrow> string" where
  "config_address cf = cf_host cf @ '':'' @ show_nat (cf_port cf)"

text \<open>\<open>sweep_interval\<close>, in seconds.\<close>

definition sweep_interval :: "config \<Rightarrow> nat" where
  "sweep_interval cf = max (cf_sweep_secs cf) 1"

text \<open>
  What the disk holds before the start, and its faults: the log may fail to open, or to be read
  once it is open.  \<open>Aof::open\<close> creates a missing log, so replay reads an empty file then.
\<close>

record disk =
  dk_snapshot :: "string option"
  dk_aof :: "string option"
  dk_open_error :: "string option"
  dk_unreadable :: bool

definition good_disk :: "string option \<Rightarrow> string option \<Rightarrow> disk" where
  "good_disk snapshot log =
     \<lparr>dk_snapshot = snapshot, dk_aof = log, dk_open_error = None, dk_unreadable = False\<rparr>"

definition log_readable :: "disk \<Rightarrow> bool" where
  "log_readable dk \<longleftrightarrow> dk_open_error dk = None \<and> \<not> dk_unreadable dk"

lemma good_disk_simps [simp]:
  "dk_snapshot (good_disk sn log) = sn" "dk_aof (good_disk sn log) = log"
  "log_readable (good_disk sn log)"
  by (simp_all add: good_disk_def log_readable_def)

text \<open>A log that cannot be read is only reported: the server starts empty, and logs to it.\<close>

definition init_persistence ::
    "libs \<Rightarrow> (nat \<Rightarrow> env) \<Rightarrow> config \<Rightarrow> disk \<Rightarrow> string + database \<times> fsync_policy option" where
  "init_persistence lib evs cf dk =
     (if cf_appendonly cf then
        (case fsync_policy_from_str (cf_appendfsync cf) of
           Inl cause \<Rightarrow> Inl cause
         | Inr policy \<Rightarrow>
             (case dk_open_error dk of
                Some cause \<Rightarrow> Inl cause
              | None \<Rightarrow>
                  (let bytes = (case dk_aof dk of Some b \<Rightarrow> b | None \<Rightarrow> []);
                       db = (with_persistence (ev_now (evs 0)) (Some (cf_snapshot_file cf)) (Some bytes))
                              \<lparr>db_snapshot_file := dk_snapshot dk\<rparr>;
                       (outcome, db') =
                         replay_aof lib evs (if dk_unreadable dk then ReadFailed else Contents bytes) db
                   in Inr (db', Some policy))))
      else
        (let db = (with_persistence (ev_now (evs 0)) (Some (cf_snapshot_file cf)) None)
                    \<lparr>db_snapshot_file := dk_snapshot dk\<rparr>;
             (outcome, db') = db_load_from lib (evs 0) db
         in Inr (db', None)))"

end
