(* ===== verification/System.thy ===== *)
theory System
  imports Session_Facts Store_Inv Server
begin

text \<open>
  The server as a whole: the shared database and its connections, as a step relation.  A
  connection handles its requests one at a time, but the steps of different connections
  interleave, also between the queued commands of one EXEC, which each await the store on
  their own.  The state of a connection in the middle of an EXEC is the rest of its queue and
  the reply so far.  Connections are numbered in the order they were accepted; a connection's
  number is also its mailbox.
\<close>

section \<open>State and steps\<close>

record connection =
  cn_session :: session
  cn_running :: "(string list list \<times> string) option"
  cn_out :: string

record system =
  sys_db :: database
  sys_conns :: "nat \<Rightarrow> connection option"
  sys_seen :: nat

text \<open>The request that makes a session run its queue: EXEC on a clean open transaction.\<close>

definition starts_exec :: "session \<Rightarrow> string list \<Rightarrow> string list list option" where
  "starts_exec ss tokens =
     (if tokens \<noteq> [] \<and> to_ascii_uppercase (hd tokens) = ''EXEC'' \<and> \<not> is_subscribed ss
      then (case ss_transaction ss of
              Some tx \<Rightarrow> (if tx_dirty tx then None else Some (tx_commands tx))
            | None \<Rightarrow> None)
      else None)"

inductive sys_step :: "libs \<Rightarrow> system \<Rightarrow> system \<Rightarrow> bool" for lib where
  connect:
    "client_connected (sys_db s) = (n, db1) \<Longrightarrow> session_new (sys_seen s) db1 = (ss, db2) \<Longrightarrow>
     sys_step lib s (s\<lparr>sys_db := db2,
       sys_conns := (sys_conns s)(sys_seen s \<mapsto> \<lparr>cn_session = ss, cn_running = None, cn_out = []\<rparr>),
       sys_seen := sys_seen s + 1\<rparr>)"
| request:
    "sys_conns s i = Some c \<Longrightarrow> cn_running c = None \<Longrightarrow> starts_exec (cn_session c) tokens = None \<Longrightarrow>
     ev_open_boxes ev = dom (sys_conns s) \<Longrightarrow>
     handle lib (\<lambda>_. ev) tokens (cn_session c) (sys_db s) = (r, ss', db') \<Longrightarrow>
     sys_step lib s (s\<lparr>sys_db := db',
       sys_conns := (sys_conns s)(i \<mapsto> c\<lparr>cn_session := ss', cn_out := cn_out c @ r\<rparr>)\<rparr>)"
| exec_start:
    "sys_conns s i = Some c \<Longrightarrow> cn_running c = None \<Longrightarrow>
     starts_exec (cn_session c) tokens = Some cmds \<Longrightarrow>
     sys_step lib s (s\<lparr>sys_conns := (sys_conns s)(i \<mapsto>
       c\<lparr>cn_session := (cn_session c)\<lparr>ss_transaction := None\<rparr>,
         cn_running := Some (cmds, ''*'' @ show_nat (length cmds) @ crlf)\<rparr>)\<rparr>)"
| exec_next:
    "sys_conns s i = Some c \<Longrightarrow> cn_running c = Some (cmd # cmds, reply) \<Longrightarrow>
     ev_open_boxes ev = dom (sys_conns s) \<Longrightarrow>
     dispatch lib ev cmd (sys_db s) = (r, db') \<Longrightarrow>
     sys_step lib s (s\<lparr>sys_db := db',
       sys_conns := (sys_conns s)(i \<mapsto> c\<lparr>cn_running := Some (cmds, reply @ r)\<rparr>)\<rparr>)"
| exec_done:
    "sys_conns s i = Some c \<Longrightarrow> cn_running c = Some ([], reply) \<Longrightarrow>
     sys_step lib s (s\<lparr>sys_conns := (sys_conns s)(i \<mapsto>
       c\<lparr>cn_running := None, cn_out := cn_out c @ reply\<rparr>)\<rparr>)"
| disconnect:
    "sys_conns s i = Some c \<Longrightarrow> cn_running c = None \<Longrightarrow>
     sys_step lib s (s\<lparr>sys_db := client_disconnected (cleanup (cn_session c) (sys_db s)),
       sys_conns := (sys_conns s)(i := None)\<rparr>)"
| sweep_step:
    "sys_step lib s (s\<lparr>sys_db := snd (sweep ev (sys_db s))\<rparr>)"
| save_step:
    "0 < db_pending_saves (sys_db s) \<Longrightarrow>
     sys_step lib s (s\<lparr>sys_db := snd (db_save lib ev
       (sys_db s\<lparr>db_pending_saves := db_pending_saves (sys_db s) - 1\<rparr>))\<rparr>)"

inductive_cases sys_step_cases: "sys_step lib s s'"

text \<open>A started server, and the states it reaches.\<close>

definition sys_start :: "libs \<Rightarrow> system \<Rightarrow> bool" where
  "sys_start lib s \<longleftrightarrow>
     store_inv (lib_float lib) (db_store (sys_db s)) \<and> \<not> db_replaying (sys_db s) \<and>
     db_pubsub (sys_db s) = pubsub_new \<and> db_clients (sys_db s) = 0 \<and>
     sys_conns s = Map.empty \<and> sys_seen s = 0"

inductive reachable :: "libs \<Rightarrow> system \<Rightarrow> bool" for lib where
  start: "sys_start lib s \<Longrightarrow> reachable lib s"
| step: "reachable lib s \<Longrightarrow> sys_step lib s s' \<Longrightarrow> reachable lib s'"

section \<open>The registry and the sessions\<close>

definition own_sync :: "session \<Rightarrow> database \<Rightarrow> bool" where
  "own_sync ss db \<longleftrightarrow>
     pubsub_inv (db_pubsub db) \<and>
     (\<forall>ch. subscribed (db_pubsub db) ch (ss_id ss) =
        (if ch \<in> set (ss_channels ss) then Some (ss_mailbox ss) else None))"

text \<open>A change of the database that only concerns the registrations of one session.\<close>

definition registry_change :: "nat \<Rightarrow> database \<Rightarrow> database \<Rightarrow> bool" where
  "registry_change i db db' \<longleftrightarrow>
     (\<exists>p. db' = db\<lparr>db_pubsub := p\<rparr> \<and> ps_next_id p = ps_next_id (db_pubsub db)) \<and>
     (\<forall>ch j. j \<noteq> i \<longrightarrow> subscribed (db_pubsub db') ch j = subscribed (db_pubsub db) ch j)"

lemma registry_change_refl: "registry_change i db db"
  by (auto simp: registry_change_def intro: exI [of _ "db_pubsub db"])

lemma registry_change_trans:
  "registry_change i db1 db2 \<Longrightarrow> registry_change i db2 db3 \<Longrightarrow> registry_change i db1 db3"
  by (auto simp: registry_change_def)

lemma ps_next_id_frame [simp]:
  "ps_next_id (ps_subscribe ch i b p) = ps_next_id p" "ps_next_id (ps_unsubscribe ch i p) = ps_next_id p"
  by (simp_all add: ps_subscribe_def ps_unsubscribe_def Let_def split: option.splits)

lemma registry_change_subscribe: "registry_change i db (db_subscribe ch i b db)"
  by (auto simp: registry_change_def db_subscribe_def subscribed_subscribe)

lemma registry_change_unsubscribe: "registry_change i db (db_unsubscribe ch i db)"
  by (auto simp: registry_change_def db_unsubscribe_def subscribed_unsubscribe)

lemma subscribe_one_sync:
  "own_sync ss db \<Longrightarrow>
     own_sync (ss\<lparr>ss_channels := hs_insert c (ss_channels ss)\<rparr>)
       (if c \<notin> set (ss_channels ss) then db_subscribe c (ss_id ss) (ss_mailbox ss) db else db)"
  by (auto simp: own_sync_def db_subscribe_def pubsub_inv_subscribe subscribed_subscribe hs_simps)

lemma unsubscribe_one_sync:
  "own_sync ss db \<Longrightarrow>
     own_sync (ss\<lparr>ss_channels := hs_remove c (ss_channels ss)\<rparr>)
       (if c \<in> set (ss_channels ss) then db_unsubscribe c (ss_id ss) db else db)"
  by (auto simp: own_sync_def db_unsubscribe_def pubsub_inv_unsubscribe subscribed_unsubscribe
      hs_simps)

lemma subscribe_loop_sync:
  "own_sync ss db \<Longrightarrow> subscribe_loop cs reply ss db = (r, ss', db') \<Longrightarrow>
     own_sync ss' db' \<and> registry_change (ss_id ss) db db'"
proof (induction cs arbitrary: reply ss db)
  case Nil
  then show ?case by (simp add: registry_change_refl)
next
  case (Cons c cs)
  let ?ss = "ss\<lparr>ss_channels := hs_insert c (ss_channels ss)\<rparr>"
  let ?db = "if c \<notin> set (ss_channels ss) then db_subscribe c (ss_id ss) (ss_mailbox ss) db else db"
  have sync: "own_sync ?ss ?db" using Cons.prems(1) by (rule subscribe_one_sync)
  have change: "registry_change (ss_id ss) db ?db"
    by (simp add: registry_change_refl registry_change_subscribe)
  have "subscribe_loop cs
      (reply @ subscription_reply ''subscribe'' c (length (ss_channels ?ss))) ?ss ?db = (r, ss', db')"
    using Cons.prems(2) unfolding subscribe_loop.simps Let_def .
  from Cons.IH [OF sync this] have "own_sync ss' db'" and "registry_change (ss_id ss) ?db db'"
    by simp_all
  then show ?case using registry_change_trans [OF change] by blast
qed

lemma unsubscribe_loop_sync:
  "own_sync ss db \<Longrightarrow> unsubscribe_loop cs reply ss db = (r, ss', db') \<Longrightarrow>
     own_sync ss' db' \<and> registry_change (ss_id ss) db db'"
proof (induction cs arbitrary: reply ss db)
  case Nil
  then show ?case by (simp add: registry_change_refl)
next
  case (Cons c cs)
  let ?ss = "ss\<lparr>ss_channels := hs_remove c (ss_channels ss)\<rparr>"
  let ?db = "if c \<in> set (ss_channels ss) then db_unsubscribe c (ss_id ss) db else db"
  have sync: "own_sync ?ss ?db" using Cons.prems(1) by (rule unsubscribe_one_sync)
  have change: "registry_change (ss_id ss) db ?db"
    by (simp add: registry_change_refl registry_change_unsubscribe)
  have "unsubscribe_loop cs
      (reply @ subscription_reply ''unsubscribe'' c (length (ss_channels ?ss))) ?ss ?db = (r, ss', db')"
    using Cons.prems(2) unfolding unsubscribe_loop.simps Let_def .
  from Cons.IH [OF sync this] have "own_sync ss' db'" and "registry_change (ss_id ss) ?db db'"
    by simp_all
  then show ?case using registry_change_trans [OF change] by blast
qed

section \<open>What one request may change\<close>

definition preserves :: "libs \<Rightarrow> nat \<Rightarrow> database \<Rightarrow> database \<Rightarrow> bool" where
  "preserves lib i db db' \<longleftrightarrow>
     (store_inv (lib_float lib) (db_store db) \<longrightarrow> store_inv (lib_float lib) (db_store db')) \<and>
     db_replaying db' = db_replaying db \<and> db_clients db' = db_clients db \<and>
     ps_next_id (db_pubsub db') = ps_next_id (db_pubsub db) \<and>
     (\<forall>ch j. j \<noteq> i \<longrightarrow> subscribed (db_pubsub db') ch j = subscribed (db_pubsub db) ch j)"

lemma preserves_refl: "preserves lib i db db"
  by (simp add: preserves_def)

lemma preserves_trans: "preserves lib i db1 db2 \<Longrightarrow> preserves lib i db2 db3 \<Longrightarrow> preserves lib i db1 db3"
  by (auto simp: preserves_def)

lemma registry_change_preserves: "registry_change i db db' \<Longrightarrow> preserves lib i db db'"
  by (auto simp: registry_change_def preserves_def)

lemma db_save_clients [simp]: "db_clients (snd (db_save lib ev db)) = db_clients db"
  by (simp add: db_save_def split: option.splits)

lemma db_publish_clients [simp]: "db_clients (snd (db_publish ev ch p db)) = db_clients db"
  by (simp add: db_publish_def case_prod_unfold Let_def)

lemma log_write_clients [simp]: "db_clients (log_write ev ts db) = db_clients db"
  by (simp add: log_write_def split: option.splits)

lemma execute_clients [simp]: "db_clients (snd (execute cmd lib ev db)) = db_clients db"
  by (cases cmd; simp add: run_eq peek_def case_prod_unfold split: sum.splits)

lemma dispatch_frames:
  "db_clients (snd (dispatch lib ev ts db)) = db_clients db \<and>
   db_pubsub (snd (dispatch lib ev ts db)) = db_pubsub db"
proof (cases ts rule: dispatch_cases)
  case (spop key)
  then show ?thesis
    by (simp add: dispatch_simps dispatch_spop_def on_store_eq split: sum.splits option.splits)
next
  case (command cmd)
  then show ?thesis by (simp add: dispatch_simps dispatch_command_def case_prod_unfold)
qed (simp_all add: dispatch_simps)

lemma dispatch_keeps_replaying: "db_replaying (snd (dispatch lib ev ts db)) = db_replaying db"
proof (cases ts rule: dispatch_cases)
  case (spop key)
  then show ?thesis
    by (simp add: dispatch_simps dispatch_spop_def on_store_eq split: sum.splits option.splits)
next
  case (command cmd)
  then show ?thesis by (simp add: dispatch_simps dispatch_command_def case_prod_unfold)
qed (simp_all add: dispatch_simps)

lemma dispatch_preserves:
  "ordered_float (lib_float lib) \<Longrightarrow> preserves lib i db (snd (dispatch lib ev ts db))"
  using dispatch_frames [of lib ev ts db] dispatch_inv [of lib db ev ts]
  by (simp add: preserves_def dispatch_keeps_replaying)

lemma run_queue_preserves:
  "ordered_float (lib_float lib) \<Longrightarrow>
     preserves lib i db (snd (run_queue lib evs n cmds db)) \<and>
     db_pubsub (snd (run_queue lib evs n cmds db)) = db_pubsub db"
proof (induction cmds arbitrary: n db)
  case (Cons cmd cmds)
  then show ?case
    using preserves_trans [OF dispatch_preserves [OF Cons.prems, of i db "evs n" cmd]]
      dispatch_frames [of lib "evs n" cmd db]
    by (simp add: case_prod_unfold)
qed (simp add: preserves_refl)

lemma exec_unclean:
  "(\<And>tx. ss_transaction ss = Some tx \<Longrightarrow> tx_dirty tx) \<Longrightarrow> snd (snd (exec lib evs ss db)) = db"
  by (cases "ss_transaction ss") (simp_all add: exec_def Let_def)

lemma exec_preserves:
  assumes "ordered_float (lib_float lib)" "exec lib evs ss db = (r, ss', db')"
  shows "preserves lib i db db' \<and> db_pubsub db' = db_pubsub db"
proof (cases "\<exists>tx. ss_transaction ss = Some tx \<and> \<not> tx_dirty tx")
  case True
  then obtain tx where tx: "ss_transaction ss = Some tx" "\<not> tx_dirty tx" by blast
  obtain rs db'' where q: "run_queue lib evs 0 (tx_commands tx) db = (rs, db'')" by fastforce
  then have "db' = db''" using assms(2) unfolding exec_clean [OF tx q] by simp
  then show ?thesis
    using run_queue_preserves [OF assms(1), of i db evs 0 "tx_commands tx"] q by simp
next
  case False
  then have "db' = db" using exec_unclean [of ss lib evs db] assms(2) by auto
  then show ?thesis by (simp add: preserves_refl)
qed

text \<open>The sessions keep their identity, and stay in step with the registry.\<close>

definition same_id :: "session \<Rightarrow> session \<Rightarrow> bool" where
  "same_id ss ss' \<longleftrightarrow> ss_id ss' = ss_id ss \<and> ss_mailbox ss' = ss_mailbox ss"

lemma own_sync_transaction:
  "own_sync ss db \<Longrightarrow> db_pubsub db' = db_pubsub db \<Longrightarrow>
     own_sync (ss\<lparr>ss_transaction := tx\<rparr>) db' \<and> same_id ss (ss\<lparr>ss_transaction := tx\<rparr>)"
  by (simp add: own_sync_def same_id_def)

lemma own_sync_refl: "own_sync ss db \<Longrightarrow> db_pubsub db' = db_pubsub db \<Longrightarrow> own_sync ss db' \<and> same_id ss ss"
  by (simp add: own_sync_def same_id_def)

lemma subscribe_sync:
  assumes "own_sync ss db" "subscribe cs ss db = (r, ss', db')"
  shows "own_sync ss' db' \<and> same_id ss ss' \<and> registry_change (ss_id ss) db db'"
proof (cases "cs = []")
  case True
  have "ss' = ss" "db' = db" using assms(2) unfolding subscribe_def if_P [OF True] by simp_all
  then show ?thesis using assms(1) by (simp add: same_id_def registry_change_refl)
next
  case False
  have l: "subscribe_loop cs [] ss db = (r, ss', db')"
    using assms(2) unfolding subscribe_def if_not_P [OF False] .
  show ?thesis
    using subscribe_loop_sync [OF assms(1) l] subscribe_session [OF assms(2)]
    by (simp add: same_id_def)
qed

lemma unsubscribe_sync:
  assumes "own_sync ss db" "unsubscribe cs ss db = (r, ss', db')"
  shows "own_sync ss' db' \<and> same_id ss ss' \<and> registry_change (ss_id ss) db db'"
proof -
  let ?t = "if cs = [] then ss_channels ss else cs"
  have "same_id ss ss'" using unsubscribe_session [OF assms(2)] by (simp add: same_id_def)
  moreover have "own_sync ss' db' \<and> registry_change (ss_id ss) db db'"
  proof (cases "?t = []")
    case True
    have "ss' = ss" "db' = db"
      using assms(2) unfolding unsubscribe_def Let_def if_P [OF True] by simp_all
    then show ?thesis using assms(1) by (simp add: registry_change_refl)
  next
    case False
    have l: "unsubscribe_loop ?t [] ss db = (r, ss', db')"
      using assms(2) unfolding unsubscribe_def Let_def if_not_P [OF False] .
    show ?thesis by (rule unsubscribe_loop_sync [OF assms(1) l])
  qed
  ultimately show ?thesis by blast
qed

lemma handle_sync:
  assumes "ordered_float (lib_float lib)" "own_sync ss db"
    and "handle lib evs tokens ss db = (r, ss', db')"
  shows "own_sync ss' db' \<and> same_id ss ss' \<and> preserves lib (ss_id ss) db db'"
  using assms(3)
proof (cases rule: handle_cases)
  case empty
  then show ?thesis using own_sync_refl [OF assms(2)] by (simp add: preserves_refl)
next
  case (refused name)
  then show ?thesis using own_sync_refl [OF assms(2)] by (simp add: preserves_refl)
next
  case multi
  then have "ss' = ss \<or> (\<exists>tx. ss' = ss\<lparr>ss_transaction := tx\<rparr>)"
    unfolding begin_multi_def by (cases "ss_transaction ss") auto
  then show ?thesis
    using multi own_sync_refl [OF assms(2)] own_sync_transaction [OF assms(2)]
    by (auto simp: preserves_refl)
next
  case exec
  have "db_pubsub db' = db_pubsub db" "preserves lib (ss_id ss) db db'"
    using exec_preserves [OF assms(1) exec(3)] by blast+
  then show ?thesis
    using own_sync_transaction [OF assms(2)] unfolding exec_session [OF exec(3)] by blast
next
  case discard
  then have "ss' = ss \<or> (\<exists>tx. ss' = ss\<lparr>ss_transaction := tx\<rparr>)"
    unfolding discard_def by (cases "ss_transaction ss") auto
  then show ?thesis
    using discard own_sync_refl [OF assms(2)] own_sync_transaction [OF assms(2)]
    by (auto simp: preserves_refl)
next
  case (queued tx tx' name)
  then show ?thesis using own_sync_transaction [OF assms(2)] by (simp add: preserves_refl)
next
  case (subscribe args)
  from subscribe_sync [OF assms(2) this(2)] show ?thesis using registry_change_preserves by blast
next
  case (unsubscribe args)
  from unsubscribe_sync [OF assms(2) this(2)] show ?thesis using registry_change_preserves by blast
next
  case dispatch
  then have "db' = snd (dispatch lib (evs 0) tokens db)" by simp
  then show ?thesis
    using own_sync_refl [OF assms(2), of db'] dispatch_frames [of lib "evs 0" tokens db]
      dispatch_preserves [OF assms(1)] dispatch(3) by simp
qed

section \<open>The invariant of the server\<close>

text \<open>
  Identifiers are handed out from a 64-bit counter, so the registry tells connections apart as
  long as fewer than \<open>2^64\<close> have been accepted.
\<close>

definition conn_inv :: "nat \<Rightarrow> connection \<Rightarrow> bool" where
  "conn_inv i c \<longleftrightarrow>
     session_inv (cn_session c) \<and> ss_id (cn_session c) = i \<and> ss_mailbox (cn_session c) = i \<and>
     (\<forall>cmds reply. cn_running c = Some (cmds, reply) \<longrightarrow>
        ss_transaction (cn_session c) = None \<and> \<not> is_subscribed (cn_session c))"

definition registered :: "system \<Rightarrow> string \<Rightarrow> nat \<Rightarrow> nat option" where
  "registered s ch i =
     (case sys_conns s i of
        Some c \<Rightarrow> (if ch \<in> set (ss_channels (cn_session c)) then Some i else None)
      | None \<Rightarrow> None)"

definition sys_inv :: "libs \<Rightarrow> system \<Rightarrow> bool" where
  "sys_inv lib s \<longleftrightarrow>
     store_inv (lib_float lib) (db_store (sys_db s)) \<and> \<not> db_replaying (sys_db s) \<and>
     pubsub_inv (db_pubsub (sys_db s)) \<and> ps_next_id (db_pubsub (sys_db s)) = sys_seen s \<and>
     finite (dom (sys_conns s)) \<and> (\<forall>i c. sys_conns s i = Some c \<longrightarrow> i < sys_seen s \<and> conn_inv i c) \<and>
     db_clients (sys_db s) = card (dom (sys_conns s)) \<and>
     (\<forall>ch i. subscribed (db_pubsub (sys_db s)) ch i = registered s ch i)"

lemma sys_inv_start: "sys_start lib s \<Longrightarrow> sys_inv lib s"
  by (simp add: sys_start_def sys_inv_def registered_def pubsub_new_def pubsub_inv_def subscribed_def)

lemma sys_inv_sync:
  assumes "sys_inv lib s" "sys_conns s i = Some c"
  shows "own_sync (cn_session c) (sys_db s)"
  using assms by (auto simp: sys_inv_def own_sync_def conn_inv_def registered_def)

text \<open>A step of one connection that keeps its identity and its registrations in step.\<close>

lemma sys_inv_update:
  assumes "sys_inv lib s" "sys_conns s i = Some c" "conn_inv i c'"
    and "preserves lib i (sys_db s) db'" "own_sync (cn_session c') db'"
  shows "sys_inv lib (s\<lparr>sys_db := db', sys_conns := (sys_conns s)(i \<mapsto> c')\<rparr>)"
proof -
  have dom: "dom ((sys_conns s)(i \<mapsto> c')) = dom (sys_conns s)" using assms(2) by auto
  have "subscribed (db_pubsub db') ch j =
      registered (s\<lparr>sys_db := db', sys_conns := (sys_conns s)(i \<mapsto> c')\<rparr>) ch j" for ch j
  proof (cases "j = i")
    case True
    then show ?thesis using assms(3,5) by (simp add: own_sync_def conn_inv_def registered_def)
  next
    case False
    then show ?thesis using assms(1,4) by (simp add: sys_inv_def preserves_def registered_def)
  qed
  then show ?thesis
    using assms dom by (simp add: sys_inv_def preserves_def own_sync_def)
qed

lemma sys_inv_conn_only:
  assumes "sys_inv lib s" "sys_conns s i = Some c" "conn_inv i c'"
    and "ss_channels (cn_session c') = ss_channels (cn_session c)"
  shows "sys_inv lib (s\<lparr>sys_conns := (sys_conns s)(i \<mapsto> c')\<rparr>)"
proof -
  have "own_sync (cn_session c') (sys_db s)"
    using sys_inv_sync [OF assms(1,2)] assms
    by (auto simp: own_sync_def conn_inv_def sys_inv_def)
  from sys_inv_update [OF assms(1-3) preserves_refl this] show ?thesis by simp
qed

lemma sys_inv_db_only:
  assumes "sys_inv lib s" "db_pubsub db' = db_pubsub (sys_db s)" "db_clients db' = db_clients (sys_db s)"
    "db_replaying db' = db_replaying (sys_db s)" "store_inv (lib_float lib) (db_store db')"
  shows "sys_inv lib (s\<lparr>sys_db := db'\<rparr>)"
  using assms by (simp add: sys_inv_def registered_def)

lemma cleanup_fold:
  "pubsub_inv (db_pubsub db) \<Longrightarrow>
     pubsub_inv (db_pubsub (fold (\<lambda>ch. db_unsubscribe ch i) chs db)) \<and>
     (\<forall>ch j. subscribed (db_pubsub (fold (\<lambda>ch. db_unsubscribe ch i) chs db)) ch j =
        (if j = i \<and> ch \<in> set chs then None else subscribed (db_pubsub db) ch j))"
  by (induction chs arbitrary: db)
    (simp_all add: db_unsubscribe_def pubsub_inv_unsubscribe subscribed_unsubscribe)

lemma cleanup_registry_change:
  "registry_change i db (fold (\<lambda>ch. db_unsubscribe ch i) chs db)"
  by (induction chs arbitrary: db)
    (auto intro: registry_change_refl registry_change_trans registry_change_unsubscribe)

lemma sys_inv_connect:
  assumes "sys_inv lib s" "Suc (sys_seen s) < 2 ^ 64"
    and "client_connected (sys_db s) = (n, db1)" "session_new (sys_seen s) db1 = (ss, db2)"
  shows "sys_inv lib (s\<lparr>sys_db := db2,
       sys_conns := (sys_conns s)(sys_seen s \<mapsto> \<lparr>cn_session = ss, cn_running = None, cn_out = []\<rparr>),
       sys_seen := sys_seen s + 1\<rparr>)"
proof -
  note inv = assms(1) [unfolded sys_inv_def]
  have fresh: "sys_conns s (sys_seen s) = None" using inv by (cases "sys_conns s (sys_seen s)") auto
  then have "sys_seen s \<notin> dom (sys_conns s)" by auto
  moreover have "dom (sys_conns s) \<subseteq> {..<sys_seen s}" using inv by auto
  then have "card (dom (sys_conns s)) \<le> sys_seen s" using subset_eq_atLeast0_lessThan_card
    by (metis lessThan_atLeast0)
  ultimately have n: "db_clients db1 = card (insert (sys_seen s) (dom (sys_conns s)))"
    using inv assms(2,3) by (auto simp: client_connected_def Let_def)
  have db1: "db_pubsub db1 = db_pubsub (sys_db s)" "db_store db1 = db_store (sys_db s)"
    "db_replaying db1 = db_replaying (sys_db s)"
    using assms(3) by (auto simp: client_connected_def Let_def)
  have ss: "ss = \<lparr>ss_id = sys_seen s, ss_mailbox = sys_seen s, ss_channels = [], ss_transaction = None\<rparr>"
    and db2: "db2 = db1\<lparr>db_pubsub := (db_pubsub db1)\<lparr>ps_next_id := Suc (sys_seen s)\<rparr>\<rparr>"
    using assms(2,4) inv db1
    by (simp_all add: session_new_def next_subscriber_id_def ps_fresh_id_def)
  have "conn_inv (sys_seen s) \<lparr>cn_session = ss, cn_running = None, cn_out = []\<rparr>"
    by (simp add: conn_inv_def ss session_inv_def)
  moreover have "subscribed ((db_pubsub db1)\<lparr>ps_next_id := Suc (sys_seen s)\<rparr>) ch j = registered s ch j"
    for ch j using inv db1 by (simp add: subscribed_def)
  moreover have "pubsub_inv ((db_pubsub db1)\<lparr>ps_next_id := Suc (sys_seen s)\<rparr>)"
    using inv db1 by (simp add: pubsub_inv_def)
  ultimately show ?thesis
    using inv n fresh by (auto simp: sys_inv_def db2 db1 registered_def ss less_Suc_eq)
qed

lemma sys_inv_disconnect:
  assumes "sys_inv lib s" "sys_seen s < 2 ^ 64" "sys_conns s i = Some c"
  shows "sys_inv lib (s\<lparr>sys_db := client_disconnected (cleanup (cn_session c) (sys_db s)),
           sys_conns := (sys_conns s)(i := None)\<rparr>)"
proof -
  note inv = assms(1) [unfolded sys_inv_def]
  let ?db = "cleanup (cn_session c) (sys_db s)"
  have ci: "conn_inv i c" and i: "i < sys_seen s" using inv assms(3) by blast+
  then have id: "ss_id (cn_session c) = i" by (simp add: conn_inv_def)
  have sub: "pubsub_inv (db_pubsub ?db) \<and> (\<forall>ch j. subscribed (db_pubsub ?db) ch j =
      (if j = i \<and> ch \<in> set (ss_channels (cn_session c)) then None else registered s ch j))"
    using cleanup_fold [of "sys_db s" i "ss_channels (cn_session c)"] inv
    by (simp add: cleanup_def id)
  have pr: "preserves lib i (sys_db s) ?db"
    unfolding cleanup_def id by (rule registry_change_preserves [OF cleanup_registry_change])
  have "dom (sys_conns s) \<subseteq> {..<sys_seen s}" using inv by auto
  then have "card (dom (sys_conns s)) \<le> sys_seen s"
    by (metis lessThan_atLeast0 subset_eq_atLeast0_lessThan_card)
  moreover have "0 < card (dom (sys_conns s))"
    using assms(3) inv by (auto simp: card_gt_0_iff)
  ultimately have "db_clients (client_disconnected ?db) = card (dom (sys_conns s)) - 1"
    using inv pr assms(2)
    by (auto simp: client_disconnected_def preserves_def mod_if)
  moreover have "i \<in> dom (sys_conns s)" using assms(3) by auto
  ultimately have n: "db_clients (client_disconnected ?db) = card (dom (sys_conns s) - {i})"
    by simp
  have "db_pubsub (client_disconnected ?db) = db_pubsub ?db"
    "db_store (client_disconnected ?db) = db_store ?db"
    "db_replaying (client_disconnected ?db) = db_replaying ?db"
    by (simp_all add: client_disconnected_def)
  then show ?thesis
    using inv pr sub n assms(3) by (auto simp: sys_inv_def preserves_def registered_def)
qed

lemma session_inv_clear: "session_inv ss \<Longrightarrow> session_inv (ss\<lparr>ss_transaction := None\<rparr>)"
  by (simp add: session_inv_def)

lemma sys_inv_step:
  assumes "ordered_float (lib_float lib)" "sys_inv lib s" "sys_step lib s s'" "sys_seen s' < 2 ^ 64"
  shows "sys_inv lib s'"
  using assms(3)
proof (cases rule: sys_step.cases)
  case (connect n db1 ss db2)
  then show ?thesis using sys_inv_connect [OF assms(2) _ connect(2,3)] assms(4) by simp
next
  case (request i c tokens ev r ss' db')
  have ci: "conn_inv i c" using assms(2) request(2) by (simp add: sys_inv_def)
  have sync: "own_sync ss' db' \<and> same_id (cn_session c) ss' \<and>
      preserves lib (ss_id (cn_session c)) (sys_db s) db'"
    by (rule handle_sync [OF assms(1) sys_inv_sync [OF assms(2) request(2)] request(6)])
  have "session_inv ss'" using handle_inv [OF request(6)] ci by (simp add: conn_inv_def)
  then have "conn_inv i (c\<lparr>cn_session := ss', cn_out := cn_out c @ r\<rparr>)"
    using ci sync request(3) by (simp add: conn_inv_def same_id_def)
  then show ?thesis
    unfolding request(1)
    using sync ci by (intro sys_inv_update [OF assms(2) request(2)]) (simp_all add: conn_inv_def)
next
  case (exec_start i c tokens cmds)
  have ci: "conn_inv i c" using assms(2) exec_start(2) by (simp add: sys_inv_def)
  have "\<not> is_subscribed (cn_session c)"
    using exec_start(4) unfolding starts_exec_def by (auto split: if_splits)
  then have "conn_inv i (c\<lparr>cn_session := (cn_session c)\<lparr>ss_transaction := None\<rparr>,
      cn_running := Some (cmds, ''*'' @ show_nat (length cmds) @ crlf)\<rparr>)"
    using ci by (simp add: conn_inv_def session_inv_clear is_subscribed_def)
  then show ?thesis
    unfolding exec_start(1) by (intro sys_inv_conn_only [OF assms(2) exec_start(2)]) simp_all
next
  case (exec_next i c cmd cmds reply ev r db')
  have ci: "conn_inv i c" using assms(2) exec_next(2) by (simp add: sys_inv_def)
  have db': "db' = snd (dispatch lib ev cmd (sys_db s))" using exec_next(5) by simp
  have "conn_inv i (c\<lparr>cn_running := Some (cmds, reply @ r)\<rparr>)"
    using ci exec_next(3) by (simp add: conn_inv_def)
  moreover have "own_sync (cn_session c) db'"
    using sys_inv_sync [OF assms(2) exec_next(2)] dispatch_frames [of lib ev cmd "sys_db s"]
    by (simp add: own_sync_def db')
  ultimately show ?thesis
    unfolding exec_next(1) db'
    by (intro sys_inv_update [OF assms(2) exec_next(2)] dispatch_preserves [OF assms(1)]) simp_all
next
  case (exec_done i c reply)
  have "conn_inv i c" using assms(2) exec_done(2) by (simp add: sys_inv_def)
  then have "conn_inv i (c\<lparr>cn_running := None, cn_out := cn_out c @ reply\<rparr>)"
    by (simp add: conn_inv_def)
  then show ?thesis
    unfolding exec_done(1) by (intro sys_inv_conn_only [OF assms(2) exec_done(2)]) simp_all
next
  case (disconnect i c)
  then show ?thesis using sys_inv_disconnect [OF assms(2) _ disconnect(2)] assms(4) by simp
next
  case (sweep_step ev)
  have "store_inv (lib_float lib) (snd (db_sweep_expired (ev_now ev) (db_store (sys_db s))))"
    using assms(2) by (simp add: sys_inv_def store_inv_def key_ops_inv)
  then show ?thesis
    unfolding sweep_step by (intro sys_inv_db_only [OF assms(2)]) (simp_all add: sweep_def on_store_eq)
next
  case (save_step ev)
  then show ?thesis
    using assms(2) unfolding save_step(1)
    by (intro sys_inv_db_only [OF assms(2)]) (simp_all add: sys_inv_def)
qed

lemma reachable_seen_mono: "sys_step lib s s' \<Longrightarrow> sys_seen s \<le> sys_seen s'"
  by (erule sys_step_cases) auto

lemma reachable_inv:
  assumes "ordered_float (lib_float lib)" "reachable lib s"
  shows "sys_seen s < 2 ^ 64 \<Longrightarrow> sys_inv lib s"
  using assms(2)
proof (induction rule: reachable.induct)
  case (start s)
  show ?case using start(1) by (rule sys_inv_start)
next
  case (step s s')
  then show ?case
    using sys_inv_step [OF assms(1)] reachable_seen_mono [OF step(2)] by simp
qed

section \<open>An undisturbed EXEC\<close>

lemma exec_next_steps:
  "sys_conns s i = Some c \<Longrightarrow> cn_running c = Some (cmds, reply) \<Longrightarrow>
   ev_open_boxes ev = dom (sys_conns s) \<Longrightarrow>
   exec_loop lib (\<lambda>_. ev) n cmds reply (sys_db s) = (r, db') \<Longrightarrow>
     (sys_step lib)\<^sup>*\<^sup>* s (s\<lparr>sys_db := db',
       sys_conns := (sys_conns s)(i \<mapsto> c\<lparr>cn_running := None, cn_out := cn_out c @ r\<rparr>)\<rparr>)"
proof (induction cmds arbitrary: s c reply n)
  case Nil
  then have "sys_step lib s (s\<lparr>sys_conns := (sys_conns s)(i \<mapsto>
      c\<lparr>cn_running := None, cn_out := cn_out c @ reply\<rparr>)\<rparr>)" by (intro exec_done) simp_all
  moreover have "reply = r" "db' = sys_db s" using Nil(4) by simp_all
  moreover have "s\<lparr>sys_db := sys_db s, sys_conns := f\<rparr> = s\<lparr>sys_conns := f\<rparr>" for f
    by (cases s) simp
  ultimately show ?case by (simp only: r_into_rtranclp)
next
  case (Cons cmd cmds)
  obtain r1 db1 where d: "dispatch lib ev cmd (sys_db s) = (r1, db1)" by fastforce
  let ?c = "c\<lparr>cn_running := Some (cmds, reply @ r1)\<rparr>"
  let ?s = "s\<lparr>sys_db := db1, sys_conns := (sys_conns s)(i \<mapsto> ?c)\<rparr>"
  have step: "sys_step lib s ?s" by (rule exec_next [OF Cons.prems(1,2,3) d])
  have "dom (sys_conns ?s) = dom (sys_conns s)" using Cons.prems(1) by auto
  then have boxes: "ev_open_boxes ev = dom (sys_conns ?s)" by (simp only: Cons.prems(3))
  have rest: "exec_loop lib (\<lambda>_. ev) (n + 1) cmds (reply @ r1) (sys_db ?s) = (r, db')"
    using Cons.prems(4) d by simp
  have "(sys_step lib)\<^sup>*\<^sup>* ?s (?s\<lparr>sys_db := db', sys_conns := (sys_conns ?s)(i \<mapsto>
      ?c\<lparr>cn_running := None, cn_out := cn_out ?c @ r\<rparr>)\<rparr>)"
    by (rule Cons.IH [OF _ _ boxes rest]) simp_all
  moreover have "?s\<lparr>sys_db := db', sys_conns := (sys_conns ?s)(i \<mapsto>
      ?c\<lparr>cn_running := None, cn_out := cn_out ?c @ r\<rparr>)\<rparr> =
      s\<lparr>sys_db := db', sys_conns := (sys_conns s)(i \<mapsto>
        c\<lparr>cn_running := None, cn_out := cn_out c @ r\<rparr>)\<rparr>"
    by (simp del: fun_upd_apply)
  ultimately show ?case using step by (metis converse_rtranclp_into_rtranclp)
qed

lemma starts_exec_handle:
  assumes "starts_exec ss tokens = Some cmds"
  shows "handle lib evs tokens ss db =
    (case exec_loop lib evs 0 cmds (''*'' @ show_nat (length cmds) @ crlf) db of
       (reply, db') \<Rightarrow> (reply, ss\<lparr>ss_transaction := None\<rparr>, db'))"
proof -
  obtain first args where t: "tokens = first # args" "to_ascii_uppercase first = ''EXEC''"
    using assms by (cases tokens) (auto simp: starts_exec_def split: if_splits)
  obtain tx where tx: "ss_transaction ss = Some tx" "\<not> tx_dirty tx" "cmds = tx_commands tx"
    "\<not> is_subscribed ss"
    using assms by (auto simp: starts_exec_def split: if_splits option.splits)
  show ?thesis by (simp add: handle_def t tx exec_def Let_def)
qed

lemma exec_steps_handle:
  assumes "sys_conns s i = Some c" "cn_running c = None"
    and "starts_exec (cn_session c) tokens = Some cmds" "ev_open_boxes ev = dom (sys_conns s)"
    and "handle lib (\<lambda>_. ev) tokens (cn_session c) (sys_db s) = (r, ss', db')"
  shows "(sys_step lib)\<^sup>*\<^sup>* s (s\<lparr>sys_db := db',
       sys_conns := (sys_conns s)(i \<mapsto> c\<lparr>cn_session := ss', cn_out := cn_out c @ r\<rparr>)\<rparr>)"
proof -
  let ?h = "''*'' @ show_nat (length cmds) @ crlf"
  let ?c = "c\<lparr>cn_session := (cn_session c)\<lparr>ss_transaction := None\<rparr>, cn_running := Some (cmds, ?h)\<rparr>"
  let ?s = "s\<lparr>sys_conns := (sys_conns s)(i \<mapsto> ?c)\<rparr>"
  have "sys_step lib s ?s" by (rule exec_start [OF assms(1-3)])
  moreover have l: "exec_loop lib (\<lambda>_. ev) 0 cmds ?h (sys_db s) = (r, db')"
    and ss': "ss' = (cn_session c)\<lparr>ss_transaction := None\<rparr>"
    using assms(5) unfolding starts_exec_handle [OF assms(3)] by (auto split: prod.splits)
  have "dom (sys_conns ?s) = dom (sys_conns s)" using assms(1) by auto
  then have "ev_open_boxes ev = dom (sys_conns ?s)" by (simp only: assms(4))
  from exec_next_steps [of ?s i ?c cmds ?h ev lib 0 r db', OF _ _ this]
  have "(sys_step lib)\<^sup>*\<^sup>* ?s (?s\<lparr>sys_db := db', sys_conns := (sys_conns ?s)(i \<mapsto>
      ?c\<lparr>cn_running := None, cn_out := cn_out ?c @ r\<rparr>)\<rparr>)"
    using l by simp
  moreover have "?c\<lparr>cn_running := None, cn_out := cn_out ?c @ r\<rparr> =
      c\<lparr>cn_session := ss', cn_out := cn_out c @ r\<rparr>"
    using assms(2) by (simp add: ss')
  ultimately show ?thesis by (simp add: converse_rtranclp_into_rtranclp)
qed

end
