(* ===== verification/Observe.thy ===== *)
theory Observe
  imports Store_Inv
begin

text \<open>
  What a client can observe of the store is the map of its live keys: the results of the
  operations as functions of that map, and from them the fact that neither lazy eviction nor the
  background sweeper can be noticed in any reply.
\<close>

named_theorems result_simps \<open>the results of the operations, as functions of the live keys\<close>

section \<open>Counting and listing keys\<close>

lemma live_map: "live now s = (\<lambda>k. case hm_get s k of
    Some e \<Rightarrow> if is_expired now e then None else Some e | None \<Rightarrow> None)"
  by (simp add: live_def fun_eq_iff)

lemma dom_live:
  "hm_wf s \<Longrightarrow> dom (live now s) = fst ` set (filter (\<lambda>(k, e). \<not> is_expired now e) s)"
  by (force simp: live_Some_iff map_of_eq_Some_iff dom_def image_iff)

lemma live_filter: "hm_wf s \<Longrightarrow> live now (filter (\<lambda>(k, e). \<not> is_expired now e) s) = live now s"
  by (auto simp: live_def hm_get_filter fun_eq_iff split: option.splits)

lemma dbsize_live [result_simps]: "hm_wf s \<Longrightarrow> db_dbsize now s = card (dom (live now s))"
proof -
  assume s: "hm_wf s"
  let ?l = "filter (\<lambda>(k, e). \<not> is_expired now e) s"
  have "db_dbsize now s = length ?l"
    by (simp add: db_dbsize_def filter_map o_def case_prod_unfold)
  also have "\<dots> = card (set (map fst ?l))"
    using distinct_card [OF hm_wf_filter [OF s, of "\<lambda>(k, e). \<not> is_expired now e"]] by simp
  also have "set (map fst ?l) = dom (live now s)" by (simp add: dom_live [OF s])
  finally show ?thesis .
qed

lemma keys_live:
  assumes "hm_wf s"
  shows "set (db_keys now pattern s) = {k \<in> dom (live now s). glob_match pattern k}"
    and "distinct (db_keys now pattern s)"
proof -
  show "set (db_keys now pattern s) = {k \<in> dom (live now s). glob_match pattern k}"
    by (force simp: db_keys_def dom_live [OF assms] image_iff)
  show "distinct (db_keys now pattern s)"
    using assms by (simp add: db_keys_def hm_wf_filter)
qed

lemma exists_live [result_simps]:
  "db_exists now ks s = length (filter (\<lambda>k. live now s k \<noteq> None) ks)"
  unfolding db_exists_def
  by (intro arg_cong [of _ _ length] filter_cong) (auto simp: live_def split: option.splits)

lemma mget_live [result_simps]:
  "db_mget now ks s = map (\<lambda>k. Option.bind (live now s k) (\<lambda>e. as_str (en_value e))) ks"
  unfolding db_mget_def
  by (intro map_cong) (auto simp: live_def split: option.splits db_value.splits)

lemma del_live [result_simps]: "fst (db_del now ks s) = card (set ks \<inter> dom (live now s))"
proof -
  have "fst (db_del_loop now n ks s) = n + card (set ks \<inter> dom (live now s))" for n
  proof (induction ks arbitrary: n s)
    case (Cons k ks)
    show ?case
    proof (cases "live now s k")
      case None
      then have "insert k (set ks) \<inter> dom (live now s) = set ks \<inter> dom (live now s)" by auto
      with None Cons.IH show ?thesis by (simp add: live_entry_eq live_evict)
    next
      case (Some e)
      then have "insert k (set ks) \<inter> dom (live now s) =
          insert k (set ks \<inter> dom ((live now s)(k := None)))" by auto
      moreover have "k \<notin> set ks \<inter> dom ((live now s)(k := None))" by simp
      ultimately have "card (insert k (set ks) \<inter> dom (live now s)) =
          Suc (card (set ks \<inter> dom ((live now s)(k := None))))"
        using card_insert_disjoint [of "set ks \<inter> dom ((live now s)(k := None))" k] by simp
      with Some Cons.IH show ?thesis
        by (simp add: live_entry_eq live_evict live_remove del: fun_upd_apply dom_fun_upd)
    qed
  qed simp
  then show ?thesis by (simp add: db_del_def)
qed

section \<open>Results\<close>

lemma setnx_live [result_simps]: "fst (db_setnx now k v s) \<longleftrightarrow> live now s k = None"
  by (simp add: db_setnx_def live_entry_eq split: option.splits)

lemma getset_live [result_simps]:
  "fst (db_getset now k v s) =
     (case live now s k of
        None \<Rightarrow> Inr None
      | Some e \<Rightarrow> (case as_str (en_value e) of None \<Rightarrow> Inl WrongType | Some t \<Rightarrow> Inr (Some t)))"
  by (simp add: db_getset_def live_entry_eq Let_def split: option.splits db_value.splits)

lemma lset_live [result_simps]:
  "fst (db_lset now k i v s) =
     (case live now s k of
        None \<Rightarrow> Inl NoSuchKey
      | Some e \<Rightarrow>
          (case as_list (en_value e) of
             None \<Rightarrow> Inl WrongType
           | Some l \<Rightarrow> (if fst (rl_lset i v l) then Inr () else Inl IndexOutOfRange)))"
  by (simp add: db_lset_def live_entry_eq Let_def case_prod_unfold split: option.splits db_value.splits)

lemma expire_live [result_simps]: "fst (db_expire now k n s) \<longleftrightarrow> live now s k \<noteq> None"
  by (simp add: db_expire_def live_entry_eq split: option.splits)

lemma persist_live [result_simps]:
  "fst (db_persist now k s) \<longleftrightarrow> (\<exists>e. live now s k = Some e \<and> en_expires_at e \<noteq> None)"
  by (simp add: db_persist_def live_entry_eq split: option.splits)

declare rename_fst [result_simps]

lemma set_of_live: "set_members_of now s k = (case live now s k of
    None \<Rightarrow> Inr [] | Some e \<Rightarrow> (case as_set (en_value e) of
      None \<Rightarrow> Inl WrongType | Some x \<Rightarrow> Inr (fold hs_insert x [])))"
  by (rule members_requires)

lemma set_loops_view:
  assumes "live now s = live now s'"
  shows "sinter_loop now s x ks = sinter_loop now s' x ks"
    and "sunion_loop now s x ks = sunion_loop now s' x ks"
    and "sdiff_loop now s x ks = sdiff_loop now s' x ks"
proof -
  have "set_members_of now s k = set_members_of now s' k" for k by (simp add: set_of_live assms)
  then show "sinter_loop now s x ks = sinter_loop now s' x ks"
    and "sunion_loop now s x ks = sunion_loop now s' x ks"
    and "sdiff_loop now s x ks = sdiff_loop now s' x ks"
    by (induction ks arbitrary: x) (simp_all split: sum.splits)
qed

lemma sets_view:
  assumes "live now s = live now s'"
  shows "db_sinter now ks s = db_sinter now ks s'" "db_sunion now ks s = db_sunion now ks s'"
    "db_sdiff now ks s = db_sdiff now ks s'"
proof -
  have "set_members_of now s k = set_members_of now s' k" for k by (simp add: set_of_live assms)
  then show "db_sinter now ks s = db_sinter now ks s'" "db_sunion now ks s = db_sunion now ks s'"
    "db_sdiff now ks s = db_sdiff now ks s'"
    by (simp_all add: db_sinter_def db_sunion_def db_sdiff_def set_loops_view [OF assms]
        split: list.splits sum.splits)
qed

lemmas accessor_defs = list_or_create_def set_or_create_def sorted_set_or_create_def
  hash_or_create_def rlist_new_def rset_new_def rhash_new_def

lemmas grow_shrink_defs = db_incr_by_def db_append_def db_lpush_def db_rpush_def db_pop_def
  db_lpop_def db_rpop_def db_sadd_def db_srem_def db_spop_def db_zadd_def db_zrem_def
  db_zincrby_def db_hset_def db_hdel_def db_hincrby_def

text \<open>Two stores with the same live keys give every operation the same result.\<close>

lemma grow_view:
  "live now s = live now s' \<Longrightarrow>
     fst (db_incr_by now k d s) = fst (db_incr_by now k d s') \<and>
     fst (db_append now k v s) = fst (db_append now k v s') \<and>
     fst (db_lpush now k vs s) = fst (db_lpush now k vs s') \<and>
     fst (db_rpush now k vs s) = fst (db_rpush now k vs s') \<and>
     fst (db_sadd now k vs s) = fst (db_sadd now k vs s') \<and>
     fst (db_zadd fo now k ms s) = fst (db_zadd fo now k ms s') \<and>
     fst (db_zincrby fo now k x mb s) = fst (db_zincrby fo now k x mb s') \<and>
     fst (db_hset now k f v s) = fst (db_hset now k f v s') \<and>
     fst (db_hincrby now k f d s) = fst (db_hincrby now k f d s')"
  unfolding grow_shrink_defs accessor_defs by (simp only: variant_simps)

lemma shrink_view:
  "live now s = live now s' \<Longrightarrow>
     fst (db_lpop now k s) = fst (db_lpop now k s') \<and>
     fst (db_rpop now k s) = fst (db_rpop now k s') \<and>
     fst (db_srem now k vs s) = fst (db_srem now k vs s') \<and>
     fst (db_spop now k s) = fst (db_spop now k s') \<and>
     fst (db_zrem fo now k mb s) = fst (db_zrem fo now k mb s') \<and>
     fst (db_hdel now k f s) = fst (db_hdel now k f s')"
  unfolding grow_shrink_defs by (simp only: variant_simps)

lemma execute_view:
  assumes "live (ev_now ev) s = live (ev_now ev) s'" "hm_wf s" "hm_wf s'" "\<And>p. cmd \<noteq> CKeys p"
  shows "fst (execute cmd lib ev (db\<lparr>db_store := s\<rparr>)) =
         fst (execute cmd lib ev (db\<lparr>db_store := s', db_snapshot_file := f\<rparr>))"
  using assms(4) grow_view [OF assms(1)] shrink_view [OF assms(1)] sets_view [OF assms(1)]
  by (cases cmd;
      simp add: run_eq peek_def read_defs fst_read_entry result_simps assms(1-3)
        db_info_def db_publish_def db_save_def case_prod_unfold Let_def split: option.splits sum.splits)

section \<open>Databases that no client can tell apart\<close>

text \<open>Two databases that differ only in entries that have expired and in the snapshot file.\<close>

definition bare :: "database \<Rightarrow> database" where
  "bare db = db\<lparr>db_store := [], db_snapshot_file := None\<rparr>"

definition alike :: "libs \<Rightarrow> nat \<Rightarrow> database \<Rightarrow> database \<Rightarrow> bool" where
  "alike lib now db db' \<longleftrightarrow>
     live now (db_store db) = live now (db_store db') \<and> bare db = bare db' \<and>
     store_inv (lib_float lib) (db_store db) \<and> store_inv (lib_float lib) (db_store db')"

lemma alike_update: "bare db = bare db' \<Longrightarrow>
    db' = db\<lparr>db_store := db_store db', db_snapshot_file := db_snapshot_file db'\<rparr>"
  by (cases db; cases db') (simp add: bare_def)

lemma store_inv_wf: "store_inv fo s \<Longrightarrow> hm_wf s"
  by (simp add: store_inv_def store_all_def)

lemma expired_later: "now \<le> later \<Longrightarrow> is_expired now e \<Longrightarrow> is_expired later e"
  by (auto simp: is_expired_def split: option.splits)

lemma live_later:
  "now \<le> later \<Longrightarrow> live later s k =
     (case live now s k of Some e \<Rightarrow> if is_expired later e then None else Some e | None \<Rightarrow> None)"
  by (auto simp: live_def split: option.splits dest: expired_later)

lemma alike_later: "alike lib now db db' \<Longrightarrow> now \<le> later \<Longrightarrow> alike lib later db db'"
  by (simp add: alike_def fun_eq_iff live_later [of now later])

lemma execute_bare:
  assumes "\<And>p. cmd \<noteq> CKeys p" "alike lib (ev_now ev) db db'"
  shows "bare (snd (execute cmd lib ev db)) = bare (snd (execute cmd lib ev db'))"
proof -
  obtain s f where db': "db' = db\<lparr>db_store := s, db_snapshot_file := f\<rparr>"
    using alike_update assms(2) unfolding alike_def by blast
  show ?thesis
    by (cases cmd) (simp_all add: db' bare_def run_eq peek_def db_publish_def db_save_def
        case_prod_unfold Let_def split: option.splits sum.splits)
qed

lemma refines_alike:
  "refines now db out spec \<Longrightarrow> refines now db' out' spec \<Longrightarrow>
     live now (db_store db) = live now (db_store db') \<Longrightarrow>
     live now (db_store (snd out)) = live now (db_store (snd out'))"
  by (auto simp: refines_def split: sum.splits)

lemma execute_alike:
  assumes "ordered_float (lib_float lib)" "command_wf cmd" "\<And>p. cmd \<noteq> CKeys p"
    and "alike lib (ev_now ev) db db'"
  shows "fst (execute cmd lib ev db) = fst (execute cmd lib ev db')"
    and "alike lib (ev_now ev) (snd (execute cmd lib ev db)) (snd (execute cmd lib ev db'))"
proof -
  note al = assms(4) [unfolded alike_def]
  have wf: "hm_wf (db_store db)" "hm_wf (db_store db')" using al store_inv_wf by blast+
  have "db' = db\<lparr>db_store := db_store db', db_snapshot_file := db_snapshot_file db'\<rparr>"
    using al alike_update by blast
  then show "fst (execute cmd lib ev db) = fst (execute cmd lib ev db')"
    using execute_view [of ev "db_store db" "db_store db'" cmd lib db "db_snapshot_file db'"]
      al wf assms(3) by simp
  have "live (ev_now ev) (db_store (snd (execute cmd lib ev db))) =
      live (ev_now ev) (db_store (snd (execute cmd lib ev db')))"
  proof (cases "cmd = CSave")
    case True
    then show ?thesis using al by (simp only: save_keeps_store)
  next
    case False
    note refs = execute_refines_effect [OF assms(2) False, of ev _ lib]
    have view: "live (ev_now ev) (db_store db) = live (ev_now ev) (db_store db')" using al by blast
    show ?thesis by (rule refines_alike [OF refs [of db] refs [of db', folded view] view])
  qed
  then show "alike lib (ev_now ev) (snd (execute cmd lib ev db)) (snd (execute cmd lib ev db'))"
    using execute_bare [OF assms(3,4)] execute_inv [OF assms(1,2)] al by (simp add: alike_def)
qed

lemma alike_log:
  "alike lib now db db' \<Longrightarrow> alike lib now (log_write ev ts db) (log_write ev ts db')"
proof -
  assume al: "alike lib now db db'"
  obtain s f where db': "db' = db\<lparr>db_store := s, db_snapshot_file := f\<rparr>"
    using al alike_update unfolding alike_def by blast
  show ?thesis
    using al by (simp add: db' alike_def bare_def log_write_def split: option.splits)
qed

lemma spop_step:
  "dispatch_spop lib ev key db =
     (fst (execute (CSPop key) lib ev db),
      let db1 = snd (execute (CSPop key) lib ev db)
      in case fst (db_spop (ev_now ev) key (db_store db)) of
           Inr (Some member) \<Rightarrow> log_write ev [''SREM'', key, member] db1
         | _ \<Rightarrow> db1)"
  by (simp add: dispatch_spop_def run_eq on_store_eq Let_def split: sum.splits option.splits)

lemma dispatch_alike:
  assumes "ordered_float (lib_float lib)" "\<And>p. parse ts \<noteq> Inr (CKeys p)"
    and "alike lib (ev_now ev) db db'"
  shows "fst (dispatch lib ev ts db) = fst (dispatch lib ev ts db') \<and>
         alike lib (ev_now ev) (snd (dispatch lib ev ts db)) (snd (dispatch lib ev ts db'))"
proof (cases ts rule: dispatch_cases)
  case (spop key)
  note ex = execute_alike [OF assms(1) parse_wf [OF spop(2)] _ assms(3)]
  have "fst (db_spop (ev_now ev) key (db_store db)) = fst (db_spop (ev_now ev) key (db_store db'))"
    using shrink_view assms(3) unfolding alike_def by blast
  then show ?thesis
    unfolding dispatch_simps(3) [OF spop(2)] spop_step
    using ex alike_log by (auto simp: Let_def simp del: execute.simps split: sum.splits option.splits)
next
  case (command cmd)
  have "cmd \<noteq> CKeys p" for p using assms(2) command(2) by auto
  note ex = execute_alike [OF assms(1) parse_wf [OF command(2)] this assms(3)]
  show ?thesis
    unfolding dispatch_simps(4) [OF command(2,3)] dispatch_command_def case_prod_unfold fst_conv snd_conv
    using ex alike_log by simp
qed (use assms(3) in \<open>simp_all add: dispatch_simps\<close>)

section \<open>The sweeper cannot be noticed\<close>

fun replies :: "libs \<Rightarrow> (env \<times> string list) list \<Rightarrow> database \<Rightarrow> string list" where
  "replies lib [] db = []"
| "replies lib ((ev, ts) # hist) db =
     fst (dispatch lib ev ts db) # replies lib hist (snd (dispatch lib ev ts db))"

text \<open>The clock never goes back, and no request is a KEYS, whose order is the table's.\<close>

fun forward_from :: "nat \<Rightarrow> (env \<times> string list) list \<Rightarrow> bool" where
  "forward_from now [] = True"
| "forward_from now ((ev, ts) # hist) \<longleftrightarrow> now \<le> ev_now ev \<and> forward_from (ev_now ev) hist"

fun is_keys :: "command \<Rightarrow> bool" where
  "is_keys (CKeys p) = True"
| "is_keys _ = False"

definition no_keys :: "(env \<times> string list) list \<Rightarrow> bool" where
  "no_keys hist \<longleftrightarrow>
     (\<forall>(ev, ts) \<in> set hist. case parse ts of Inr cmd \<Rightarrow> \<not> is_keys cmd | Inl _ \<Rightarrow> True)"

lemma alike_replies:
  assumes "ordered_float (lib_float lib)"
  shows "alike lib now db db' \<Longrightarrow> forward_from now hist \<Longrightarrow> no_keys hist \<Longrightarrow>
     replies lib hist db = replies lib hist db'"
proof (induction hist arbitrary: now db db')
  case (Cons r hist)
  obtain ev ts where r: "r = (ev, ts)" by fastforce
  have later: "alike lib (ev_now ev) db db'"
    using alike_later [OF Cons.prems(1)] Cons.prems(2) r by simp
  have "parse ts \<noteq> Inr (CKeys p)" for p using Cons.prems(3) by (auto simp: no_keys_def r)
  note step = dispatch_alike [OF assms this later]
  have "forward_from (ev_now ev) hist" "no_keys hist"
    using Cons.prems(2,3) by (simp_all add: r no_keys_def)
  with step Cons.IH have "replies lib hist (snd (dispatch lib ev ts db)) =
      replies lib hist (snd (dispatch lib ev ts db'))" by blast
  with step show ?case by (simp add: r)
qed simp

lemma live_sweep:
  "hm_wf s \<Longrightarrow> now \<le> later \<Longrightarrow> live later (snd (db_sweep_expired now s)) = live later s"
  using live_filter [of s now] live_later [of now later]
  by (simp add: db_sweep_expired_def Let_def fun_eq_iff)

lemma sweep_alike:
  assumes "store_inv (lib_float lib) (db_store db)"
  shows "alike lib (ev_now ev) (snd (sweep ev db)) db"
  using assms live_sweep [OF store_inv_wf [OF assms], of "ev_now ev" "ev_now ev"]
  by (simp add: alike_def sweep_def on_store_eq bare_def store_inv_def key_ops_inv)

lemma sweep_count:
  "hm_wf s \<Longrightarrow> fst (db_sweep_expired now s) = length s - card (dom (live now s)) \<and>
     length (snd (db_sweep_expired now s)) = card (dom (live now s))"
proof -
  assume s: "hm_wf s"
  have "length (filter (\<lambda>(_, e). \<not> is_expired now e) s) = card (dom (live now s))"
    using dbsize_live [OF s, of now] by (simp add: db_dbsize_def filter_map o_def case_prod_unfold)
  then show ?thesis by (simp add: db_sweep_expired_def Let_def)
qed

end
