(* ===== verification/Collection_Facts.thy ===== *)
theory Collection_Facts
  imports Db_Ops
begin

text \<open>
  The functional behaviour of the value types: what the index arithmetic of lists selects, that
  a sorted set's rank and ranges agree with the order of its entries, and that the two ends of
  a list make it a queue and a stack.
\<close>

section \<open>Lists\<close>

lemma slice_map: "map (\<lambda>i. l ! nat i) [lo..hi] = take (nat hi - nat lo + 1) (drop (nat lo) l)"
  if "0 \<le> lo" "lo \<le> hi" "hi < int (length l)"
proof (rule nth_equalityI)
  show "length (map (\<lambda>i. l ! nat i) [lo..hi]) = length (take (nat hi - nat lo + 1) (drop (nat lo) l))"
    using that by simp
next
  fix i assume "i < length (map (\<lambda>i. l ! nat i) [lo..hi])"
  then show "map (\<lambda>i. l ! nat i) [lo..hi] ! i = take (nat hi - nat lo + 1) (drop (nat lo) l) ! i"
    using that by (simp add: nat_add_distrib)
qed

text \<open>A closed range of indexes; an upper bound below the lower one selects nothing.\<close>

definition select :: "int \<times> int \<Rightarrow> 'a list \<Rightarrow> 'a list" where
  "select b l = map (\<lambda>i. l ! nat i) [fst b..snd b]"

lemma select_range:
  assumes "length l < 2 ^ 63"
  shows "(case resolve_range start stop (length l) of
           Some (a, b) \<Rightarrow> take (b - a + 1) (drop a l) | None \<Rightarrow> []) =
         select (range_bounds (sint start) (sint stop) (length l)) l"
proof -
  obtain lo hi where lh: "range_bounds (sint start) (sint stop) (length l) = (lo, hi)" by fastforce
  then have "0 \<le> lo" "hi < int (length l)" by (auto simp: range_bounds_def)
  with slice_map [of lo hi l] show ?thesis
    by (simp add: resolve_range_bounds [OF assms] lh select_def)
qed

lemma rl_lrange_select:
  "length l < 2 ^ 63 \<Longrightarrow>
     rl_lrange start stop l = select (range_bounds (sint start) (sint stop) (length l)) l"
  by (simp add: rl_lrange_def select_range)

text \<open>The position that an index of either sign names.\<close>

definition abs_index :: "int \<Rightarrow> nat \<Rightarrow> int" where
  "abs_index i len = (if i < 0 then i + int len else i)"

lemma rl_lindex_int:
  "length l < 2 ^ 63 \<Longrightarrow> rl_lindex index l =
     (let i = abs_index (sint index) (length l)
      in if 0 \<le> i \<and> i < int (length l) then Some (l ! nat i) else None)"
  by (simp add: rl_lindex_def normalize_index_int abs_index_def Let_def)

lemma rl_lset_int:
  "length l < 2 ^ 63 \<Longrightarrow> rl_lset index v l =
     (let i = abs_index (sint index) (length l)
      in if 0 \<le> i \<and> i < int (length l) then (True, l[nat i := v]) else (False, l))"
  by (simp add: rl_lset_def normalize_index_int abs_index_def Let_def)

text \<open>Taking from one end until the list is empty.\<close>

fun drain :: "(rlist \<Rightarrow> string option \<times> rlist) \<Rightarrow> nat \<Rightarrow> rlist \<Rightarrow> string list" where
  "drain take_op 0 l = []"
| "drain take_op (Suc n) l =
     (case take_op l of (Some x, l') \<Rightarrow> x # drain take_op n l' | (None, l') \<Rightarrow> [])"

lemma drain_lpop: "length l \<le> n \<Longrightarrow> drain rl_lpop n l = l"
  by (induction n arbitrary: l) (auto simp: rl_lpop_def split: list.splits)

lemma drain_rpop: "length l \<le> n \<Longrightarrow> drain rl_rpop n l = rev l"
proof (induction n arbitrary: l)
  case (Suc n)
  show ?case
  proof (cases l rule: rev_cases)
    case (snoc xs x)
    with Suc show ?thesis by (simp add: rl_rpop_def)
  qed (simp add: rl_rpop_def)
qed simp

section \<open>Sorted sets\<close>

lemma position_append:
  "position P (xs @ ys) =
     (case position P xs of
        Some i \<Rightarrow> Some i | None \<Rightarrow> map_option (\<lambda>i. i + length xs) (position P ys))"
  by (induction xs) (auto simp: option.map_comp o_def option.map_ident split: option.splits)

lemma position_None_iff: "position P xs = None \<longleftrightarrow> (\<forall>x \<in> set xs. \<not> P x)"
  by (induction xs) auto

context ordered_float
begin

lemma zset_members_distinct:
  assumes "zset_inv fo z"
  shows "distinct (map sm_member (zs_sorted z))"
proof -
  have "distinct (zs_sorted z)"
    using assms smem.ascending_distinct by (simp add: zset_inv_def smem.ascending_def)
  moreover have "inj_on sm_member (set (zs_sorted z))"
    using zset_inv_sorted_iff [OF assms] by (intro inj_onI) (simp add: sorted_member.equality)
  ultimately show ?thesis by (simp add: distinct_map)
qed

lemma zset_length: "zset_inv fo z \<Longrightarrow> length (zs_sorted z) = length (zs_members z)"
proof -
  assume z: "zset_inv fo z"
  have "fst ` set (zs_members z) = sm_member ` set (zs_sorted z)"
    using z unfolding zset_inv_def by (metis (no_types, lifting) image_cong image_image fst_conv list.set_map)
  then have "card (set (map fst (zs_members z))) = card (set (map sm_member (zs_sorted z)))" by simp
  then show ?thesis
    using distinct_card [OF zset_members_distinct [OF z]] z
      distinct_card [of "map fst (zs_members z)"] by (simp add: zset_inv_def)
qed

text \<open>The entries below a given one; their number is its rank.\<close>

definition below :: "rsorted_set \<Rightarrow> sorted_member \<Rightarrow> sorted_member set" where
  "below z e = {e'. hm_get (zs_members z) (sm_member e') = Some (sm_score e') \<and>
                    smember_cmp fo e' e = Less}"

lemma zrank_below:
  assumes "zset_inv fo z"
  shows "zs_zrank mb z =
    map_option (\<lambda>sc. card (below z \<lparr>sm_member = mb, sm_score = sc\<rparr>)) (hm_get (zs_members z) mb)"
proof (cases "hm_get (zs_members z) mb")
  case None
  then have "\<forall>e \<in> set (zs_sorted z). sm_member e \<noteq> mb"
    using zset_inv_sorted_iff [OF assms] by auto
  with None show ?thesis by (simp add: zs_zrank_def position_None_iff)
next
  case (Some sc)
  let ?e = "\<lparr>sm_member = mb, sm_score = sc\<rparr>"
  have "?e \<in> set (zs_sorted z)" using zset_inv_sorted_iff [OF assms, of ?e] Some by simp
  then obtain xs ys where split: "zs_sorted z = xs @ ?e # ys" by (meson split_list)
  have sorted: "\<forall>x \<in> set xs. smember_cmp fo x ?e = Less" "\<forall>y \<in> set ys. smember_cmp fo ?e y = Less"
    "sorted_wrt (\<lambda>a b. smember_cmp fo a b = Less) xs"
    using assms by (auto simp: zset_inv_def split sorted_wrt_append)
  have "\<forall>x \<in> set xs. sm_member x \<noteq> mb"
    using zset_members_distinct [OF assms] by (auto simp: split)
  then have "zs_zrank mb z = Some (length xs)"
    using position_None_iff [of "\<lambda>entry. sm_member entry = mb" xs]
    by (simp add: zs_zrank_def split position_append)
  moreover have "smember_cmp fo y ?e \<noteq> Less" if "y \<in> set (?e # ys)" for y
    using that sorted(2) smem.cmp_refl smem.cmp_reverse [of y ?e] by auto
  then have "below z ?e = set xs"
    using sorted(1) zset_inv_sorted_iff [OF assms] by (auto simp: below_def split)
  moreover have "distinct xs"
    using sorted(3) smem.ascending_distinct [of xs] by (simp add: smem.ascending_def)
  ultimately show ?thesis using Some by (simp add: distinct_card)
qed

lemma zrank_nth:
  assumes "zset_inv fo z"
  shows "zs_zrank mb z = Some r \<longleftrightarrow>
    r < length (zs_sorted z) \<and> sm_member (zs_sorted z ! r) = mb"
proof -
  have "zs_zrank mb z = Some r \<longleftrightarrow> r < length es \<and> sm_member (es ! r) = mb"
    if "es = zs_sorted z" "distinct (map sm_member es)" for es r
  proof -
    have "position (\<lambda>e. sm_member e = mb) es = Some r \<longleftrightarrow> r < length es \<and> sm_member (es ! r) = mb"
      using that(2)
    proof (induction es arbitrary: r)
      case (Cons e es)
      have "sm_member (es ! n) \<noteq> sm_member e" if "n < length es" for n
        using Cons.prems nth_mem [OF that]
        by (metis distinct.simps(2) image_eqI list.set_map list.simps(9))
      with Cons show ?case by (cases r) auto
    qed simp
    then show ?thesis by (simp add: zs_zrank_def that)
  qed
  from this [OF refl zset_members_distinct [OF assms]] show ?thesis .
qed

lemma zscore_zadd:
  "zs_zscore mb' (snd (zs_zadd fo sc mb z)) =
     (if mb' \<noteq> mb then zs_zscore mb' z
      else case zs_zscore mb z of
          None \<Rightarrow> Some sc
        | Some old \<Rightarrow> Some (if of_eq fo old sc then old else sc))"
  by (auto simp: zs_zadd_def zs_zscore_def Let_def split: option.splits)

end

definition in_score_range :: "f64 \<Rightarrow> bool \<Rightarrow> f64 \<Rightarrow> bool \<Rightarrow> f64 \<Rightarrow> bool" where
  "in_score_range lo lo_incl hi hi_incl x \<longleftrightarrow>
     (if lo_incl then f64_le lo x else f64_lt lo x) \<and> (if hi_incl then f64_le x hi else f64_lt x hi)"

lemma zrange_by_score_filter:
  "zs_zrange_by_score lo lo_incl hi hi_incl z =
     map sm_member (filter (\<lambda>e. in_score_range lo lo_incl hi hi_incl (sm_score e)) (zs_sorted z))"
  by (simp add: zs_zrange_by_score_def in_score_range_def Let_def)

lemma zrange_by_score_members:
  "zset_inv fo z \<Longrightarrow> mb \<in> set (zs_zrange_by_score lo lo_incl hi hi_incl z) \<longleftrightarrow>
     (\<exists>sc. zs_zscore mb z = Some sc \<and> in_score_range lo lo_incl hi hi_incl sc)"
  (is "?inv \<Longrightarrow> ?iff")
proof -
  assume ?inv
  note mem = zset_inv_sorted_iff [OF this]
  have "(\<exists>e \<in> set (zs_sorted z). sm_member e = mb \<and> Q (sm_score e)) \<longleftrightarrow>
      (\<exists>sc. zs_zscore mb z = Some sc \<and> Q sc)" for Q
  proof
    assume "\<exists>e \<in> set (zs_sorted z). sm_member e = mb \<and> Q (sm_score e)"
    then show "\<exists>sc. zs_zscore mb z = Some sc \<and> Q sc" using mem by (auto simp: zs_zscore_def)
  next
    assume "\<exists>sc. zs_zscore mb z = Some sc \<and> Q sc"
    then obtain sc where "hm_get (zs_members z) mb = Some sc" "Q sc" by (auto simp: zs_zscore_def)
    then have "\<lparr>sm_member = mb, sm_score = sc\<rparr> \<in> set (zs_sorted z)" using mem by simp
    then show "\<exists>e \<in> set (zs_sorted z). sm_member e = mb \<and> Q (sm_score e)"
      by (rule bexI [rotated]) (simp add: \<open>Q sc\<close>)
  qed
  from this [of "in_score_range lo lo_incl hi hi_incl"] show ?iff
    by (auto simp: zrange_by_score_filter image_iff)
qed

end
