(* ===== verification/Key_Facts.thy ===== *)
theory Key_Facts
  imports Observe Collection_Facts
begin

text \<open>
  What a client sees over several operations on one key: the life of a deadline from EXPIRE to
  the key's end, exact counters that never wrap, sorted-set updates, and a list used as a queue.
\<close>

section \<open>Deadlines\<close>

lemma expire_entry:
  assumes "live now s k = Some e" "0 < sint n"
  shows "live now (snd (db_expire now k n s)) k =
           Some (e\<lparr>en_expires_at := deadline_after now (nat (sint n))\<rparr>)"
  using assms by (simp add: live_expire)

lemma ttl_live:
  "fst (db_ttl now k s) =
     (case live now s k of
        None \<Rightarrow> - 2
      | Some e \<Rightarrow> (case en_expires_at e of
          Some d \<Rightarrow> of_nat ((d - now) div nanos) | None \<Rightarrow> - 1))"
  by (simp add: db_ttl_def fst_read_entry)

text \<open>From EXPIRE on, the key is as it was until its deadline, and absent afterwards.\<close>

lemma expire_life:
  assumes "live now s k = Some e" "0 < sint n" "now div nanos + nat (sint n) < 2 ^ 63" "now \<le> later"
  shows "live later (snd (db_expire now k n s)) k =
           (if later < now + nat (sint n) * nanos
            then Some (e\<lparr>en_expires_at := Some (now + nat (sint n) * nanos)\<rparr>) else None)"
  using expire_entry [OF assms(1,2)] live_later [OF assms(4), of "snd (db_expire now k n s)" k] assms(3)
  by (auto simp: deadline_after_def is_expired_def)

lemma remaining_seconds:
  assumes "now \<le> later" "later < now + n * nanos" "n < 2 ^ 63"
  shows "sint (of_nat ((now + n * nanos - later) div nanos) :: i64) =
           int ((now + n * nanos - later) div nanos)"
    and "(now + n * nanos - later) div nanos \<le> n"
proof -
  have "now + n * nanos - later \<le> n * nanos" using assms(1) by simp
  then have "(now + n * nanos - later) div nanos \<le> n * nanos div nanos" by (rule div_le_mono)
  then show le: "(now + n * nanos - later) div nanos \<le> n" by (simp add: nanos_def)
  show "sint (of_nat ((now + n * nanos - later) div nanos) :: i64) =
      int ((now + n * nanos - later) div nanos)"
    using le assms(3) by (intro sint_of_nat_i64) simp
qed

section \<open>Counters\<close>

lemma checked_add_exact:
  "checked_add a b =
     (if in_i64 (sint a + sint b) then Some (word_of_int (sint a + sint b)) else None)"
  by (simp add: checked_add_def i64_checked_def)

text \<open>What INCRBY and HINCRBY compute from the text they find: the exact sum, or an error.\<close>

definition exact_sum :: "store_error \<Rightarrow> string option \<Rightarrow> i64 \<Rightarrow> store_error + int" where
  "exact_sum err text d =
     (case text of
        None \<Rightarrow> Inr (sint d)
      | Some t \<Rightarrow>
          (case parse_i64 t of
             None \<Rightarrow> Inl err
           | Some v \<Rightarrow> (if in_i64 (sint v + sint d) then Inr (sint v + sint d) else Inl Overflow)))"

lemma exact_sum_bound: "exact_sum err text d = Inr i \<Longrightarrow> in_i64 i"
  by (auto simp: exact_sum_def split: option.splits if_splits)

lemma incr_by_exact:
  "map_sum id sint (fst (db_incr_by now k d s)) =
     (case live now s k of
        None \<Rightarrow> Inr (sint d)
      | Some e \<Rightarrow>
          (case as_str (en_value e) of
             None \<Rightarrow> Inl WrongType | Some t \<Rightarrow> exact_sum NotAnInteger (Some t) d))"
  unfolding db_incr_by_def
  by (simp add: str_variant.fst_grow parse_i64_zero checked_add_exact exact_sum_def int_simps
      split: option.splits)

lemma incr_by_stores:
  assumes "fst (db_incr_by now k d s) = Inr w"
  shows "live now (snd (db_incr_by now k d s)) =
           (live now s)(k \<mapsto> \<lparr>en_value = VStr (show_int (sint w)),
              en_expires_at = Option.bind (live now s k) en_expires_at\<rparr>)"
  using assms unfolding db_incr_by_def
  by (auto simp: str_variant.fst_grow str_variant.live_grow show_i64_def
      split: option.splits sum.splits)

lemma hincrby_exact:
  "map_sum id sint (fst (db_hincrby now k f d s)) =
     (case live now s k of
        None \<Rightarrow> Inr (sint d)
      | Some e \<Rightarrow>
          (case as_hash (en_value e) of
             None \<Rightarrow> Inl WrongType
           | Some h \<Rightarrow> exact_sum NotAHashInteger (hm_get h f) d))"
  unfolding db_hincrby_def hash_or_create_def rhash_new_def
  by (simp add: hash_variant.fst_grow rh_hget_def checked_add_zero checked_add_exact exact_sum_def
      int_simps split: option.splits sum.splits)

section \<open>Lists as queues\<close>

text \<open>Pushing and popping through the store, one element per request.\<close>

fun pop_times ::
    "(nat \<Rightarrow> string \<Rightarrow> store \<Rightarrow> (store_error + string option) \<times> store) \<Rightarrow> nat \<Rightarrow> nat \<Rightarrow> string \<Rightarrow>
     store \<Rightarrow> string option list \<times> store" where
  "pop_times pop 0 now k s = ([], s)"
| "pop_times pop (Suc n) now k s =
     (case pop now k s of
        (r, s') \<Rightarrow> (case pop_times pop n now k s' of (rs, s'') \<Rightarrow>
          ((case r of Inr v \<Rightarrow> v | Inl _ \<Rightarrow> None) # rs, s'')))"

lemma lpop_live:
  assumes "live now s k = Some e" "en_value e = VList (x # l)"
  shows "fst (db_lpop now k s) = Inr (Some x)"
    and "live now (snd (db_lpop now k s)) =
      (live now s)(k := if l = [] then None else Some (e\<lparr>en_value := VList l\<rparr>))"
  using assms unfolding db_lpop_def db_pop_def
  by (simp_all add: list_variant.fst_shrink list_variant.live_shrink rl_lpop_def)

lemma lpop_absent:
  "live now s k = None \<Longrightarrow> fst (db_lpop now k s) = Inr None \<and> live now (snd (db_lpop now k s)) = live now s"
  unfolding db_lpop_def db_pop_def
  by (simp add: list_variant.fst_shrink list_variant.live_shrink)

lemma pop_all:
  "live now s k = Some e \<Longrightarrow> en_value e = VList l \<Longrightarrow> l \<noteq> [] \<Longrightarrow>
     pop_times db_lpop (length l) now k s = (rs, s') \<Longrightarrow>
     rs = map Some l \<and> live now s' = (live now s)(k := None)"
proof (induction l arbitrary: s e rs)
  case (Cons x l)
  note pop = lpop_live [OF Cons.prems(1,2)]
  define rs1 where "rs1 = fst (pop_times db_lpop (length l) now k (snd (db_lpop now k s)))"
  have rest: "pop_times db_lpop (length l) now k (snd (db_lpop now k s)) = (rs1, s')"
    and rs: "rs = Some x # rs1"
    using Cons.prems(4) pop(1) by (auto simp: case_prod_unfold rs1_def prod_eq_iff)
  show ?case
  proof (cases "l = []")
    case True
    with rest pop(2) rs show ?thesis by simp
  next
    case False
    let ?e = "e\<lparr>en_value := VList l\<rparr>"
    have "live now (snd (db_lpop now k s)) k = Some ?e" using pop(2) False by simp
    from Cons.IH [OF this _ False rest] pop(2) rs show ?thesis by (simp del: fun_upd_apply)
  qed
qed simp

lemma rpush_fresh:
  "live now s k = None \<Longrightarrow> vs \<noteq> [] \<Longrightarrow>
     fst (db_rpush now k vs s) = Inr (length vs) \<and>
     live now (snd (db_rpush now k vs s)) =
       (live now s)(k \<mapsto> \<lparr>en_value = VList vs, en_expires_at = None\<rparr>)"
  unfolding db_rpush_def list_or_create_def rlist_new_def
  by (simp add: list_variant.fst_grow list_variant.live_grow fold_rpush Let_def)

end
