(* ===== verification/Snapshot_Facts.thy ===== *)
theory Snapshot_Facts
  imports Store_Inv Collection_Facts
begin

text \<open>
  A snapshot loses nothing that a client can read: loading what \<open>db_snapshot\<close> wrote rebuilds
  every live value, scores included, with each deadline rounded down to whole seconds and
  re-based on the time of the load.  Only the hash order inside a sorted set's map may differ.
\<close>

section \<open>Values\<close>

text \<open>Collections stay below the largest length that Rust can allocate.\<close>

fun value_size :: "db_value \<Rightarrow> nat" where
  "value_size (VList l) = length l"
| "value_size (VSortedSet z) = length (zs_members z)"
| "value_size _ = 0"

text \<open>Equality of values up to the iteration order of a sorted set's map.\<close>

fun same_value :: "db_value \<Rightarrow> db_value \<Rightarrow> bool" where
  "same_value (VSortedSet z) v \<longleftrightarrow>
     (\<exists>z'. v = VSortedSet z' \<and> zs_sorted z' = zs_sorted z \<and>
       hm_get (zs_members z') = hm_get (zs_members z))"
| "same_value v v' \<longleftrightarrow> v' = v"

lemma fold_sadd_distinct:
  "distinct (xs @ ys) \<Longrightarrow> fold (\<lambda>item x. snd (rs_sadd item x)) ys xs = xs @ ys"
  by (induction ys arbitrary: xs) (auto simp: rs_sadd_def hs_insert_def)

lemma update_fresh: "k \<notin> fst ` set h \<Longrightarrow> hm_insert k v h = h @ [(k, v)]"
  by (induction h) auto

lemma fold_insert_distinct:
  "hm_wf (h @ ps) \<Longrightarrow> fold (\<lambda>(k, v) h. hm_insert k v h) ps h = h @ ps"
proof (induction ps arbitrary: h)
  case (Cons p ps)
  obtain k v where p: "p = (k, v)" by fastforce
  with Cons.prems have "k \<notin> fst ` set h" by auto
  with Cons p show ?case by (simp add: update_fresh)
qed simp

lemma fold_hset_distinct:
  "hm_wf ps \<Longrightarrow> fold (\<lambda>(field, val) h. snd (rh_hset field val h)) ps [] = ps"
  using fold_insert_distinct [of "[]" ps] by (simp add: rh_hset_def)

lemma score_of_text_print: "\<not> is_nan x \<Longrightarrow> score_of_text (f64_to_string x) = x"
  by (simp add: score_of_text_def parse_f64_to_string)

context ordered_float
begin

definition rebuild :: "sorted_member list \<Rightarrow> rsorted_set \<Rightarrow> rsorted_set" where
  "rebuild es = fold (\<lambda>e z. snd (zs_zadd fo (sm_score e) (sm_member e) z)) es"

lemma rebuild_inv: "zset_inv fo z \<Longrightarrow> zset_inv fo (rebuild es z)"
  unfolding rebuild_def by (rule fold_preserves) (auto intro: zset_inv_zadd)

lemma zadd_fresh_get:
  "hm_get (zs_members z) mb = None \<Longrightarrow>
     hm_get (zs_members (snd (zs_zadd fo sc mb z))) = (hm_get (zs_members z))(mb \<mapsto> sc)"
  by (simp add: zs_zadd_def Let_def fun_eq_iff)

lemma rebuild_get:
  "distinct (map sm_member es) \<Longrightarrow> \<forall>e \<in> set es. hm_get (zs_members z) (sm_member e) = None \<Longrightarrow>
     hm_get (zs_members (rebuild es z)) mb =
       (case map_of (map (\<lambda>e. (sm_member e, sm_score e)) es) mb of
          Some sc \<Rightarrow> Some sc | None \<Rightarrow> hm_get (zs_members z) mb)"
proof (induction es arbitrary: z)
  case (Cons e es)
  let ?z = "snd (zs_zadd fo (sm_score e) (sm_member e) z)"
  have get: "hm_get (zs_members ?z) = (hm_get (zs_members z))(sm_member e \<mapsto> sm_score e)"
    using Cons.prems(2) by (intro zadd_fresh_get) simp
  have "sm_member e \<notin> sm_member ` set es" using Cons.prems(1) by simp
  then have fresh: "\<forall>e' \<in> set es. sm_member e' \<noteq> sm_member e" by (metis imageI)
  have "rebuild (e # es) z = rebuild es ?z" by (simp add: rebuild_def)
  moreover have "hm_get (zs_members (rebuild es ?z)) mb =
      (case map_of (map (\<lambda>e. (sm_member e, sm_score e)) es) mb of
         Some sc \<Rightarrow> Some sc | None \<Rightarrow> hm_get (zs_members ?z) mb)"
    using Cons.prems fresh by (intro Cons.IH) (simp_all add: get)
  moreover have "map_of (map (\<lambda>e. (sm_member e, sm_score e)) es) (sm_member e) = None"
    using Cons.prems(1) by (auto simp: map_of_eq_None_iff)
  ultimately show ?case by (simp add: get split: option.splits)
qed (simp add: rebuild_def)

lemma rebuild_same:
  assumes "zset_inv fo z"
  shows "zs_sorted (rebuild (zs_sorted z) zset_new) = zs_sorted z"
    and "hm_get (zs_members (rebuild (zs_sorted z) zset_new)) = hm_get (zs_members z)"
proof -
  let ?ps = "map (\<lambda>e. (sm_member e, sm_score e)) (zs_sorted z)"
  have dist: "distinct (map sm_member (zs_sorted z))" by (rule zset_members_distinct [OF assms])
  have "map_of ?ps = hm_get (zs_members z)"
  proof (rule map_of_inject_set [THEN iffD2])
    show "distinct (map fst ?ps)" using dist by (simp add: o_def)
    show "hm_wf (zs_members z)" "set ?ps = set (zs_members z)"
      using assms unfolding zset_inv_def by blast+
  qed
  then show "hm_get (zs_members (rebuild (zs_sorted z) zset_new)) = hm_get (zs_members z)"
    using rebuild_get [OF dist, of zset_new] by (simp add: fun_eq_iff zset_new_def split: option.splits)
  from zset_sorted_unique [OF rebuild_inv [OF zset_inv_new] assms this]
  show "zs_sorted (rebuild (zs_sorted z) zset_new) = zs_sorted z" .
qed

lemma zrange_all:
  assumes "zset_inv fo z" "length (zs_members z) < 2 ^ 63"
  shows "zs_zrange_with_scores 0 (- 1) z = map (\<lambda>e. (sm_member e, sm_score e)) (zs_sorted z)"
  using assms(2) unfolding zset_length [OF assms(1), symmetric]
  by (simp add: zs_zrange_with_scores_def resolve_range_whole)

lemma zset_reload:
  assumes "zset_inv fo z" "no_nan z" "length (zs_members z) < 2 ^ 63"
  shows "value_of_ser fo (ser_of_value (VSortedSet z)) = VSortedSet (rebuild (zs_sorted z) zset_new)"
proof -
  have "\<forall>e \<in> set (zs_sorted z). \<not> is_nan (sm_score e)"
    using assms(2) zset_inv_sorted_iff [OF assms(1)] unfolding no_nan_def by blast
  then have "fold (\<lambda>(member, score) z. snd (zs_zadd fo (score_of_text score) member z))
      (map (\<lambda>e. (sm_member e, f64_to_string (sm_score e))) es) z0 = rebuild es z0"
    if "set es \<subseteq> set (zs_sorted z)" for es z0
    using that unfolding rebuild_def
    by (induction es arbitrary: z0) (auto simp: score_of_text_print)
  from this [of "zs_sorted z" zset_new] show ?thesis
    by (simp add: zrange_all [OF assms(1,3)] o_def)
qed

lemma value_reload:
  assumes "value_ok fo v" "value_size v < 2 ^ 63"
  shows "same_value v (value_of_ser fo (ser_of_value v))"
proof (cases v)
  case (VList l)
  then show ?thesis using assms by (simp add: rl_lrange_whole fold_rpush rlist_new_def)
next
  case (VSet x)
  then show ?thesis
    using assms fold_sadd_distinct [of "[]" x] by (simp add: rs_smembers_def rset_new_def)
next
  case (VSortedSet z)
  then show ?thesis
    using assms rebuild_same [of z] zset_reload [of z] by (simp del: ser_of_value.simps value_of_ser.simps)
next
  case (VHash h)
  then show ?thesis
    using assms fold_hset_distinct [of h] by (simp add: rh_hgetall_def rhash_new_def)
qed simp

end

section \<open>Stores\<close>

definition reloaded :: "float_order \<Rightarrow> nat \<Rightarrow> nat \<Rightarrow> entry \<Rightarrow> entry" where
  "reloaded fo now later e =
     \<lparr>en_value = value_of_ser fo (ser_of_value (en_value e)),
      en_expires_at = Option.bind (en_expires_at e)
        (\<lambda>deadline. deadline_after later ((deadline - now) div nanos))\<rparr>"

lemma load_snapshot_list:
  "hm_wf s \<Longrightarrow> db_load_snapshot fo later (db_snapshot now s) s0 =
     map (\<lambda>(k, e). (k, reloaded fo now later e)) (filter (\<lambda>(_, e). \<not> is_expired now e) s)"
proof -
  assume s: "hm_wf s"
  let ?l = "map (\<lambda>(k, e). (k, reloaded fo now later e)) (filter (\<lambda>(_, e). \<not> is_expired now e) s)"
  have bind: "Option.bind (map_option f x) g = Option.bind x (\<lambda>y. g (f y))"
    for f :: "nat \<Rightarrow> nat" and x and g :: "nat \<Rightarrow> nat option" by (cases x) simp_all
  have "map fst ?l = map fst (filter (\<lambda>(_, e). \<not> is_expired now e) s)" by (simp add: case_prod_unfold)
  then have "hm_wf ?l" using hm_wf_filter [OF s, of "\<lambda>(_, e). \<not> is_expired now e"] by (simp only:)
  moreover have "db_load_snapshot fo later (db_snapshot now s) s0 =
      fold (\<lambda>(k, v) h. hm_insert k v h) ?l []"
    by (simp add: db_load_snapshot_def db_snapshot_def fold_map o_def case_prod_unfold reloaded_def bind)
  ultimately show ?thesis using fold_insert_distinct [of "[]" ?l] by simp
qed

lemma load_snapshot_get:
  assumes "hm_wf s"
  shows "hm_get (db_load_snapshot fo later (db_snapshot now s) s0) k =
           map_option (reloaded fo now later) (live now s k)"
proof -
  have "map_of (map (\<lambda>(k, e). (k, g e)) xs) k = map_option g (map_of xs k)"
    for g :: "entry \<Rightarrow> entry" and xs by (induction xs) auto
  then show ?thesis
    using hm_get_filter [OF assms, of "\<lambda>(_, e). \<not> is_expired now e" k]
    by (simp add: load_snapshot_list [OF assms] live_def split: option.splits)
qed

end
