(* ===== verification/Store_Properties.thy ===== *)
theory Store_Properties
  imports Key_Facts Snapshot_Facts
begin

text \<open>
  The correctness properties of the value types and of the store's operations, each with an
  instance that shows its hypotheses can be met.  The proofs rest on the facts of the component
  theories.
\<close>

section \<open>Lists\<close>

text \<open>LRANGE returns the elements at the positions from \<open>start\<close> to \<open>stop\<close>, negative indexes
  counting from the end and both clamped to the list, without any wrap-around of the i64
  arithmetic.\<close>

lemma lrange_selects_closed_range:
  assumes "length l < 2 ^ 63"
  shows "rl_lrange start stop l =
           (let n = int (length l);
                lo = max 0 (abs_index (sint start) (length l));
                hi = min (n - 1) (abs_index (sint stop) (length l))
            in map (\<lambda>i. l ! nat i) [lo..hi])"
  by (simp add: rl_lrange_select [OF assms] select_def range_bounds_def abs_index_def Let_def)

text \<open>LSET changes exactly the element its index names, whichever sign the index has: reading any
  index afterwards gives the new value at that position and the old ones elsewhere.\<close>

lemma lset_then_lindex:
  assumes "length l < 2 ^ 63" "rl_lset i v l = (True, l')"
  shows "length l' = length l \<and>
         rl_lindex j l' =
           (if abs_index (sint j) (length l) = abs_index (sint i) (length l) then Some v
            else rl_lindex j l)"
  using assms by (auto simp: rl_lset_int rl_lindex_int Let_def nth_list_update split: if_splits)

text \<open>A list filled by one RPUSH and emptied by LPOPs is a first-in-first-out queue: the elements
  come back in order, each once, and the key is gone after the last.\<close>

lemma rpush_lpop_is_a_queue:
  assumes "live now s k = None" "vs \<noteq> []"
    and "pop_times db_lpop (length vs) now k (snd (db_rpush now k vs s)) = (rs, s')"
  shows "rs = map Some vs \<and> live now s' = live now s"
proof -
  have "live now (snd (db_rpush now k vs s)) k = Some \<lparr>en_value = VList vs, en_expires_at = None\<rparr>"
    using rpush_fresh [OF assms(1,2)] by simp
  from pop_all [OF this _ assms(2,3)] show ?thesis
    using rpush_fresh [OF assms(1,2)] assms(1) by (simp add: fun_upd_idem)
qed

section \<open>Sorted sets\<close>

text \<open>C31: the rank of a member is the number of entries that come before it, by score and then by
  member, and the ranges list the members in exactly that order.\<close>

theorem rank_counts_smaller_entries:
  assumes "ordered_float fo" "zset_inv fo z" "length (zs_members z) < 2 ^ 63"
  shows "zs_zrank mb z =
           map_option (\<lambda>sc. card {e. zs_zscore (sm_member e) z = Some (sm_score e) \<and>
               smember_cmp fo e \<lparr>sm_member = mb, sm_score = sc\<rparr> = Less}) (zs_zscore mb z) \<and>
         (\<forall>r. zs_zrank mb z = Some r \<longleftrightarrow>
            r < zs_zcard z \<and> zs_zrange 0 (- 1) z ! r = mb)"
proof -
  note len_eq = ordered_float.zset_length [OF assms(1,2)]
  have "length (zs_sorted z) < 2 ^ 63" using assms(3) by (simp only: len_eq)
  then have range: "zs_zrange 0 (- 1) z = map sm_member (zs_sorted z)"
    by (simp add: zs_zrange_def resolve_range_whole)
  show ?thesis
    using ordered_float.zrank_below [OF assms(1,2), of mb]
      ordered_float.zrank_nth [OF assms(1,2), of mb]
    by (auto simp: ordered_float.below_def [OF assms(1)] zs_zscore_def zs_zcard_def range
        len_eq [symmetric])
qed

text \<open>The set of the witnesses below: ZADD z 0 b inf a.\<close>

definition sample_zset :: rsorted_set where
  "sample_zset =
     snd (zs_zadd documented_order f64_infinity ''a''
       (snd (zs_zadd documented_order f64_zero ''b'' zset_new)))"

lemma sample_zset_inv: "zset_inv documented_order sample_zset"
  unfolding sample_zset_def by (intro documented.zset_inv_zadd zset_inv_new)

lemma sample_zset_members: "zs_members sample_zset = [(''b'', f64_zero), (''a'', f64_infinity)]"
  by (simp add: sample_zset_def zs_zadd_def zset_new_def)

lemma rank_counts_smaller_entries_witness:
  "zs_zrank ''a'' sample_zset =
     map_option (\<lambda>sc. card {e. zs_zscore (sm_member e) sample_zset = Some (sm_score e) \<and>
        smember_cmp documented_order e \<lparr>sm_member = ''a'', sm_score = sc\<rparr> = Less})
       (zs_zscore ''a'' sample_zset)"
  using rank_counts_smaller_entries [OF documented.ordered_float_axioms sample_zset_inv]
  by (simp add: sample_zset_members)

text \<open>C32: ZRANGEBYSCORE returns exactly the members whose score lies between its bounds, each once, in
  the order of score and then member.\<close>

theorem zrangebyscore_is_exact:
  assumes "ordered_float fo" "zset_inv fo z"
  shows "set (zs_zrange_by_score lo lo_incl hi hi_incl z) =
           {mb. \<exists>sc. zs_zscore mb z = Some sc \<and> in_score_range lo lo_incl hi hi_incl sc} \<and>
         sorted_wrt (\<lambda>a b. smember_cmp fo \<lparr>sm_member = a, sm_score = the (zs_zscore a z)\<rparr>
             \<lparr>sm_member = b, sm_score = the (zs_zscore b z)\<rparr> = Less)
           (zs_zrange_by_score lo lo_incl hi hi_incl z)"
proof
  show "set (zs_zrange_by_score lo lo_incl hi hi_incl z) =
      {mb. \<exists>sc. zs_zscore mb z = Some sc \<and> in_score_range lo lo_incl hi hi_incl sc}"
    using zrange_by_score_members [OF assms(2)] by blast
  have "\<lparr>sm_member = sm_member e, sm_score = the (zs_zscore (sm_member e) z)\<rparr> = e"
    if "e \<in> set (zs_sorted z)" for e
    using that zset_inv_sorted_iff [OF assms(2), of e] by (simp add: zs_zscore_def)
  then have "sorted_wrt (\<lambda>a b. smember_cmp fo
        \<lparr>sm_member = sm_member a, sm_score = the (zs_zscore (sm_member a) z)\<rparr>
        \<lparr>sm_member = sm_member b, sm_score = the (zs_zscore (sm_member b) z)\<rparr> = Less) (zs_sorted z)"
    using assms(2) by (auto simp: zset_inv_def intro: sorted_wrt_mono_rel [rotated])
  then show "sorted_wrt (\<lambda>a b. smember_cmp fo \<lparr>sm_member = a, sm_score = the (zs_zscore a z)\<rparr>
      \<lparr>sm_member = b, sm_score = the (zs_zscore b z)\<rparr> = Less)
      (zs_zrange_by_score lo lo_incl hi hi_incl z)"
    by (simp add: zrange_by_score_filter sorted_wrt_map sorted_wrt_filter)
qed

lemma zrangebyscore_is_exact_witness:
  "set (zs_zrange_by_score f64_zero False f64_infinity True sample_zset) =
     {mb. \<exists>sc. zs_zscore mb sample_zset = Some sc \<and> in_score_range f64_zero False f64_infinity True sc}"
  using zrangebyscore_is_exact [OF documented.ordered_float_axioms sample_zset_inv] by blast

section \<open>Sets\<close>

text \<open>C35: SINTER, SUNION and SDIFF return the intersection, the union, and the difference of the first
  set and the others, each member once, a missing key counting as the empty set; they fail with
  WRONGTYPE exactly when one of the keys holds another type.\<close>

theorem set_operations_are_set_algebra:
  "set_result (k # ks) (live now s) (\<Inter>j \<in> set (k # ks). the (set_at (live now s) j))
     (db_sinter now (k # ks) s) \<and>
   set_result (k # ks) (live now s) (\<Union>j \<in> set (k # ks). the (set_at (live now s) j))
     (db_sunion now (k # ks) s) \<and>
   set_result (k # ks) (live now s)
     (the (set_at (live now s) k) - (\<Union>j \<in> set ks. the (set_at (live now s) j)))
     (db_sdiff now (k # ks) s)"
  by (intro conjI sinter_result sunion_result sdiff_result) simp

section \<open>Counters\<close>

text \<open>C33: INCRBY (and with it INCR, DECR, DECRBY) returns and stores the exact integer sum, keeping the
  key's deadline, or refuses with an overflow error when the sum does not fit an i64; it never
  wraps around.\<close>

theorem incrby_is_exact:
  "(case fst (db_incr_by now k d s) of
      Inr w \<Rightarrow>
        live now (snd (db_incr_by now k d s)) =
          (live now s)(k \<mapsto> \<lparr>en_value = VStr (show_int (sint w)),
             en_expires_at = Option.bind (live now s k) en_expires_at\<rparr>) \<and>
        Inr (sint w) = (case live now s k of
            None \<Rightarrow> Inr (sint d)
          | Some e \<Rightarrow> (case as_str (en_value e) of
                None \<Rightarrow> Inl WrongType | Some t \<Rightarrow> exact_sum NotAnInteger (Some t) d))
    | Inl err \<Rightarrow>
        live now (snd (db_incr_by now k d s)) = live now s \<and>
        (\<exists>e. live now s k = Some e \<and>
          Inl err = (case as_str (en_value e) of
              None \<Rightarrow> Inl WrongType | Some t \<Rightarrow> exact_sum NotAnInteger (Some t) d)))"
proof (cases "fst (db_incr_by now k d s)")
  case (Inr w)
  then show ?thesis
    using incr_by_stores [OF Inr] incr_by_exact [of now k d s] by simp
next
  case (Inl err)
  then have "live now (snd (db_incr_by now k d s)) = live now s"
    using string_writers_implement(1) [of now s k d] by (auto simp: implements_def split: sum.splits)
  then show ?thesis
    using Inl incr_by_exact [of now k d s] by (simp split: option.splits)
qed

section \<open>Keys and deadlines\<close>

text \<open>C34: after a successful EXPIRE the key keeps its value until the deadline, TTL counts the whole
  seconds left, and from the deadline on the key does not exist for any reader.\<close>

theorem expire_then_ttl:
  assumes "live now s k = Some e" "0 < sint n" "now div nanos + nat (sint n) < 2 ^ 63" "now \<le> later"
  shows "let s' = snd (db_expire now k n s); deadline = now + nat (sint n) * nanos in
           fst (db_expire now k n s) \<and>
           live later s' k =
             (if later < deadline then Some (e\<lparr>en_expires_at := Some deadline\<rparr>) else None) \<and>
           sint (fst (db_ttl later k s')) =
             (if later < deadline then int ((deadline - later) div nanos) else - 2)"
  using expire_life [OF assms] remaining_seconds(1) [OF assms(4), of "nat (sint n)"] assms(1,3)
  by (simp add: Let_def expire_live ttl_live)

lemma expire_then_ttl_witness:
  "sint (fst (db_ttl (3 * nanos) ''k''
     (snd (db_expire 0 ''k'' 10 [(''k'', \<lparr>en_value = VStr ''v'', en_expires_at = None\<rparr>)])))) = 7"
proof -
  let ?e = "\<lparr>en_value = VStr ''v'', en_expires_at = None\<rparr>"
  have "live 0 [(''k'', ?e)] ''k'' = Some ?e" by (simp add: live_def is_expired_def)
  from expire_then_ttl [OF this, of 10 "3 * nanos"] show ?thesis by (simp add: Let_def nanos_def)
qed

text \<open>DEL reports how many of the named keys existed, each counted once, and leaves exactly the
  others.\<close>

lemma del_counts_and_removes:
  "fst (db_del now ks s) = card (set ks \<inter> dom (live now s)) \<and>
   live now (snd (db_del now ks s)) = live now s |` (- set ks)"
  by (simp add: del_live live_del)

text \<open>KEYS lists the live keys that match its pattern, each once, and DBSIZE counts the live keys:
  what has expired is in neither, whether or not it has been evicted.\<close>

lemma keys_and_dbsize_see_the_live_keys:
  assumes "hm_wf s"
  shows "set (db_keys now pattern s) = {k \<in> dom (live now s). glob_match pattern k} \<and>
         distinct (db_keys now pattern s) \<and> db_dbsize now s = card (dom (live now s))"
  using keys_live [OF assms] dbsize_live [OF assms] by blast

text \<open>A sweep removes exactly the expired entries and reports their number.\<close>

lemma sweep_removes_the_expired:
  assumes "hm_wf s"
  shows "let (removed, s') = db_sweep_expired now s in
           removed = length s - card (dom (live now s)) \<and> length s' = card (dom (live now s)) \<and>
           hm_get s' = live now s"
proof -
  have "hm_get (snd (db_sweep_expired now s)) = live now s"
    using hm_get_filter [OF assms, of "\<lambda>(_, e). \<not> is_expired now e"]
    by (auto simp: db_sweep_expired_def Let_def live_def fun_eq_iff split: option.splits)
  then show ?thesis using sweep_count [OF assms, of now] by (simp add: case_prod_unfold Let_def)
qed

text \<open>C19: the background sweeper is invisible: however a history of requests without KEYS goes on, at times
  that do not go back behind the sweep, its replies are the same whether or not the sweep ran before
  it, so lazy and eager eviction agree.  (KEYS lists the keys in the order of the hash table, which
  evictions may change.)\<close>

theorem sweeping_changes_no_reply:
  assumes "ordered_float (lib_float lib)" "store_inv (lib_float lib) (db_store db)"
    and "forward_from (ev_now ev) hist" "no_keys hist"
  shows "replies lib hist (snd (sweep ev db)) = replies lib hist db"
  by (rule alike_replies [OF assms(1) sweep_alike [OF assms(2)] assms(3,4)])

text \<open>The instance of the crates, and of the world, that the witnesses use.\<close>

definition sample_libs :: libs where
  "sample_libs = \<lparr>lib_float = documented_order, lib_to_json = (\<lambda>_. []), lib_from_json = (\<lambda>_. None)\<rparr>"

definition sample_env :: "nat \<Rightarrow> env" where
  "sample_env now =
     \<lparr>ev_now = now, ev_save_error = None, ev_append_failure = None, ev_open_boxes = {}\<rparr>"

definition sample_store :: store where
  "sample_store = [(''a'', \<lparr>en_value = VStr ''v'', en_expires_at = Some 3\<rparr>),
                   (''z'', \<lparr>en_value = VSortedSet sample_zset, en_expires_at = None\<rparr>)]"

lemma sample_facts:
  "ordered_float (lib_float sample_libs)" "lib_float sample_libs = documented_order"
  "store_inv documented_order sample_store"
  using documented.ordered_float_axioms
  by (simp_all add: sample_libs_def sample_store_def store_inv_def store_all_def sample_zset_inv
      sample_zset_members no_nan_def)

definition sample_database :: database where
  "sample_database = (database_new 0)\<lparr>db_store := sample_store\<rparr>"

lemma sample_database_store [simp]: "db_store sample_database = sample_store"
  by (simp add: sample_database_def)

lemma sweeping_changes_no_reply_witness:
  "replies sample_libs [(sample_env 7, [''GET'', ''a''])] (snd (sweep (sample_env 5) sample_database)) =
   replies sample_libs [(sample_env 7, [''GET'', ''a''])] sample_database"
proof -
  have "parse [''GET'', ''a''] = Inr (CGet ''a'')" by code_simp
  then have "no_keys [(sample_env 7, [''GET'', ''a''])]" by (simp add: no_keys_def)
  moreover have "forward_from (ev_now (sample_env 5)) [(sample_env 7, [''GET'', ''a''])]"
    by (simp add: sample_env_def)
  ultimately show ?thesis
    by (intro sweeping_changes_no_reply) (simp_all only: sample_facts sample_database_store
        documented.ordered_float_axioms)
qed

section \<open>The store's invariant\<close>

text \<open>C28: no request, well-formed or not, can break the store: keys stay distinct, no empty collection
  is kept, a sorted set's two indexes stay in step and in order, and no score is NaN.\<close>

theorem requests_keep_the_store_invariant:
  assumes "ordered_float (lib_float lib)" "store_inv (lib_float lib) (db_store db)"
  shows "store_inv (lib_float lib) (db_store (snd (dispatch lib ev tokens db)))"
  by (rule dispatch_inv [OF assms])

lemma requests_keep_the_store_invariant_witness:
  "store_inv documented_order
     (db_store (snd (dispatch sample_libs (sample_env 9) [''ZREM'', ''z'', ''a''] sample_database)))"
  using requests_keep_the_store_invariant [of sample_libs sample_database] sample_facts by simp

section \<open>Scores\<close>

text \<open>C40: the text of a score, in a reply and in a snapshot, reads back as exactly that f64.\<close>

theorem score_text_roundtrip:
  assumes "\<not> is_nan x"
  shows "parse_f64 (format_score x) = Some x \<and> score_of_text (f64_to_string x) = x"
  using assms by (simp add: format_score_def parse_f64_to_string score_of_text_print)

lemma score_text_roundtrip_witness: "parse_f64 (format_score f64_neg_infinity) = Some f64_neg_infinity"
  using score_text_roundtrip [of f64_neg_infinity] by simp

end
