(* ===== verification/Framing.thy ===== *)
theory Framing
  imports Server
begin

text \<open>
  The framing of requests, read back: a RESP array is read as exactly its tokens, whatever
  follows it, and a RESP array cut short is never taken for a request.  The append-only log is
  a sequence of such arrays, so replay runs exactly the complete entries.
\<close>

section \<open>Lines and numbers\<close>

lemma utf8_ascii: "\<forall>c \<in> set s. byte_in 0 0x7F c \<Longrightarrow> utf8 s"
  by (induction s) auto

lemma byte_in_digit: "is_digit c \<Longrightarrow> byte_in 0x21 0x7E c"
  by (simp add: is_digit_iff byte_in_def)

lemma byte_in_ascii: "byte_in 0x21 0x7E c \<Longrightarrow> byte_in 0 0x7F c"
  by (simp add: byte_in_def)

lemma byte_in_consts [simp]:
  "byte_in 0 0x7F CR" "byte_in 0 0x7F LF" "byte_in 0x21 0x7E CHR ''*''" "byte_in 0x21 0x7E CHR ''$''"
  "ascii_space CR" "ascii_space LF"
  by (simp_all add: byte_in_def ascii_space_def)

text \<open>A printable ASCII byte ends the trimming.\<close>

lemma printable_not_space:
  assumes "byte_in 0x21 0x7E c"
  shows "\<not> ascii_space c" "\<not> space2 b c" "\<not> space3 a b c"
  using assms by (auto simp: byte_in_def ascii_space_def space2_def space3_def)

lemma trim_rev_printable: "byte_in 0x21 0x7E c \<Longrightarrow> trim_rev (c # s) = c # s"
  by (cases "c # s" rule: trim_rev.cases) (simp_all add: printable_not_space)

lemma trim_rev_Cons_space: "ascii_space c \<Longrightarrow> trim_rev (c # s) = trim_rev s"
  by (cases "c # s" rule: trim_rev.cases) simp_all

lemma trim_end_snoc_space: "ascii_space c \<Longrightarrow> trim_end (s @ [c]) = trim_end s"
  by (simp add: trim_end_def trim_rev_Cons_space)

lemma trim_end_printable: "byte_in 0x21 0x7E c \<Longrightarrow> trim_end (s @ [c]) = s @ [c]"
  by (simp add: trim_end_def trim_rev_printable)

lemma trim_end_all_printable: "\<forall>c \<in> set s. byte_in 0x21 0x7E c \<Longrightarrow> trim_end s = s"
  by (cases s rule: rev_cases) (simp_all add: trim_end_printable, simp add: trim_end_def)

lemma trim_end_line:
  "\<forall>c \<in> set s. byte_in 0x21 0x7E c \<Longrightarrow> trim_end (s @ crlf) = s"
  using trim_end_snoc_space [of LF "s @ [CR]"] trim_end_snoc_space [of CR s]
  by (simp add: trim_end_all_printable)

lemma take_line_LF: "LF \<notin> set l \<Longrightarrow> take_line (l @ LF # r) = (l @ [LF], r)"
  by (induction l) auto

lemma take_line_no_LF: "LF \<notin> set l \<Longrightarrow> take_line l = (l, [])"
  by (induction l) auto

text \<open>A header line of a frame: a marker and a decimal number.\<close>

definition header :: "char \<Rightarrow> nat \<Rightarrow> string" where
  "header c n = c # show_nat n @ crlf"

lemma show_nat_printable: "\<forall>c \<in> set (show_nat n). byte_in 0x21 0x7E c"
  using show_nat_digits byte_in_digit by blast

lemma read_line_header:
  assumes "byte_in 0x21 0x7E c" "c \<noteq> LF"
  shows "read_line (header c n @ rest) = Inr (header c n, rest)"
proof -
  have "take_line ((c # show_nat n @ [CR]) @ LF # rest) = ((c # show_nat n @ [CR]) @ [LF], rest)"
    using assms by (intro take_line_LF) (simp add: bytes_simps)
  moreover have "utf8 (header c n)"
    using assms(1) show_nat_printable [of n] by (intro utf8_ascii) (auto simp: header_def byte_in_ascii)
  ultimately show ?thesis by (simp add: read_line_def header_def)
qed

lemma trim_end_header: "byte_in 0x21 0x7E c \<Longrightarrow> trim_end (header c n) = c # show_nat n"
  using trim_end_line [of "c # show_nat n"] show_nat_printable [of n] by (simp add: header_def)

lemma header_nonempty [simp]: "header c n \<noteq> []"
  by (simp add: header_def)

section \<open>Round trip of a request\<close>

definition token_ok :: "string \<Rightarrow> bool" where
  "token_ok t \<longleftrightarrow> utf8 t \<and> length t \<le> MAX_BULK_BYTES"

definition request_ok :: "string list \<Rightarrow> bool" where
  "request_ok ts \<longleftrightarrow> length ts \<le> MAX_MULTIBULK \<and> (\<forall>t \<in> set ts. token_ok t)"

lemma parse_lengths:
  "n \<le> MAX_BULK_BYTES \<Longrightarrow> parse_u64 (show_nat n) = Some n"
  "n \<le> MAX_MULTIBULK \<Longrightarrow> parse_u64 (show_nat n) = Some n"
  by (rule parse_u64_show_nat; simp add: MAX_BULK_BYTES_def MAX_MULTIBULK_def)+

lemma bulk_string_header: "bulk_string v = header CHR ''$'' (length v) @ v @ crlf"
  by (simp add: bulk_string_def header_def)

lemma read_bulk_header:
  "n \<le> MAX_BULK_BYTES \<Longrightarrow>
     read_bulk_string (header CHR ''$'' n @ rest) =
       bind_io (read_exact (n + 2) rest) (\<lambda>(buffer, rest').
         let data = take n buffer in
         if utf8 data then Inr (data, rest')
         else Inl (ProtocolError ''invalid UTF-8 in bulk string''))"
  by (simp add: read_bulk_string_def read_line_header trim_end_header parse_lengths)

lemma read_bulk_roundtrip: "token_ok v \<Longrightarrow> read_bulk_string (bulk_string v @ rest) = Inr (v, rest)"
  by (simp add: bulk_string_header read_bulk_header token_ok_def read_exact_def Let_def)

lemma read_bulks_roundtrip:
  "\<forall>t \<in> set ts. token_ok t \<Longrightarrow>
     read_bulks (length ts) (concat (map bulk_string ts) @ rest) = Inr (ts, rest)"
  by (induction ts) (simp_all add: read_bulk_roundtrip)

lemma resp_array_header: "resp_array ts = header CHR ''*'' (length ts) @ concat (map bulk_string ts)"
  by (simp add: resp_array_concat header_def)

lemma read_request_header:
  "n \<le> MAX_MULTIBULK \<Longrightarrow>
     read_request (header CHR ''*'' n @ rest) = map_sum id Some (read_bulks n rest)"
  by (simp add: read_request_def read_line_header trim_end_header Let_def read_multibulk_def
      parse_lengths)

lemma read_request_roundtrip:
  "request_ok ts \<Longrightarrow> read_request (resp_array ts @ rest) = Inr (Some (ts, rest))"
  by (simp add: resp_array_header read_request_header request_ok_def read_bulks_roundtrip)

section \<open>Torn frames\<close>

lemma read_bulk_no_rest:
  assumes "LF \<notin> set p"
  shows "\<exists>err. read_bulk_string p = Inl err"
proof -
  have "read_line p = Inr (l, r) \<Longrightarrow> r = []" for l r
    using take_line_no_LF [OF assms] by (auto simp: read_line_def split: if_splits)
  then have "read_bulk_string p \<noteq> Inr y" for y
    by (auto simp: read_bulk_string_def bind_io_eq_Inr read_exact_def split: if_splits)
  then show ?thesis by (cases "read_bulk_string p") auto
qed

lemma append_split:
  assumes "p @ q = a @ b"
  obtains u where "p @ u = a" "u \<noteq> []" | p' where "p = a @ p'" "p' @ q = b"
proof -
  obtain us where "p @ us = a \<and> q = us @ b \<or> p = a @ us \<and> us @ q = b"
    using assms by (auto simp: append_eq_append_conv2)
  then show thesis using that by (cases "us = []") auto
qed

text \<open>A prefix of a header line either has no line feed or is the whole line and more.\<close>

lemma header_prefix:
  assumes "p @ q = header c n @ body" "c \<noteq> LF"
  shows "LF \<notin> set p \<or> (\<exists>p'. p = header c n @ p' \<and> p' @ q = body)"
proof -
  have h: "header c n = (c # show_nat n @ [CR]) @ [LF]" by (simp add: header_def)
  from assms(1) show ?thesis
  proof (cases rule: append_split)
    case (1 u)
    then obtain u' where "p @ u' = c # show_nat n @ [CR]"
      using h by (cases u rule: rev_cases) auto
    then have "set p \<subseteq> set (c # show_nat n @ [CR])" by (metis set_append Un_upper1)
    then show ?thesis using assms(2) bytes_simps(2) [of n] by auto
  qed blast
qed

lemma torn_bulk:
  assumes "p @ q = bulk_string v" "q \<noteq> []" "length v \<le> MAX_BULK_BYTES"
  shows "\<exists>err. read_bulk_string p = Inl err"
proof -
  have "p @ q = header CHR ''$'' (length v) @ (v @ crlf)"
    using assms(1) by (simp add: bulk_string_header)
  from header_prefix [OF this] consider "LF \<notin> set p"
    | p' where "p = header CHR ''$'' (length v) @ p'" "p' @ q = v @ crlf"
    by auto
  then show ?thesis
  proof cases
    case 2
    have "length p' + length q = length v + 2" using arg_cong [OF 2(2), of length] by simp
    then have "length p' < length v + 2" using assms(2) by (cases q) auto
    then show ?thesis using 2 assms(3) by (simp add: read_bulk_header read_exact_def)
  qed (rule read_bulk_no_rest)
qed

lemma torn_bulks:
  "p @ q = concat (map bulk_string ts) \<Longrightarrow> q \<noteq> [] \<Longrightarrow> \<forall>t \<in> set ts. token_ok t \<Longrightarrow>
     \<exists>err. read_bulks (length ts) p = Inl err"
proof (induction ts arbitrary: p)
  case Nil
  then show ?case by simp
next
  case (Cons t ts)
  have "p @ q = bulk_string t @ concat (map bulk_string ts)" using Cons.prems(1) by simp
  then show ?case
  proof (cases rule: append_split)
    case (1 u)
    then obtain err where "read_bulk_string p = Inl err"
      using torn_bulk [OF 1] Cons.prems(3) by (auto simp: token_ok_def)
    then show ?thesis by simp
  next
    case (2 p')
    obtain err where "read_bulks (length ts) p' = Inl err"
      using Cons.IH [OF 2(2)] Cons.prems by auto
    then show ?thesis using 2 Cons.prems(3) by (simp add: read_bulk_roundtrip)
  qed
qed

text \<open>A torn count line names at least one argument, which is missing.\<close>

lemma parse_digits_ge: "parse_digits acc s = Some m \<Longrightarrow> acc \<le> m"
proof (induction s arbitrary: acc)
  case (Cons c s)
  then show ?case by (fastforce split: if_splits)
qed simp

lemma show_nat_hd_nonzero: "0 < n \<Longrightarrow> digit_val (hd (show_nat n)) \<noteq> 0"
proof (induction n rule: show_nat.induct)
  case (1 n)
  then show ?case by (cases "n < 10") (simp_all add: show_nat.simps [of n])
qed

lemma torn_count:
  assumes "d @ u = show_nat n" "0 < n" "parse_u64 d = Some m"
  shows "0 < m"
proof -
  obtain c r where d: "d = c # r" using assms(3) by (cases d) (auto simp: parse_u64_def)
  then have hd: "hd (show_nat n) = c" using assms(1) by (metis append_Cons list.sel(1))
  have "c \<noteq> CHR ''+''" using show_nat_hd_digit [of n] hd by auto
  then have "parse_digits (digit_val c) r = Some m"
    using assms(3) by (auto simp: d parse_u64_def in_u64_def bind_eq_Some_conv split: if_splits)
  then show ?thesis
    using parse_digits_ge [of "digit_val c" r m] show_nat_hd_nonzero [OF assms(2)] hd by simp
qed

lemma torn_count_line:
  assumes "p @ q = header CHR ''*'' n @ body" "LF \<notin> set p" "p \<noteq> []"
  obtains d u where "d @ u = show_nat n" "trim_end p = CHR ''*'' # d"
proof -
  obtain p1 where p: "p = CHR ''*'' # p1" and p1: "p1 @ q = show_nat n @ (crlf @ body)"
    using assms(1,3) by (cases p) (auto simp: header_def)
  from p1 show thesis
  proof (cases rule: append_split)
    case (1 u)
    then have "\<forall>c \<in> set p. byte_in 0x21 0x7E c"
      using show_nat_printable [of n] by (simp add: p flip: 1(1))
    then show thesis using that 1 p by (simp add: trim_end_all_printable)
  next
    case (2 p')
    have "\<forall>c \<in> set (CHR ''*'' # show_nat n). byte_in 0x21 0x7E c"
      using show_nat_printable [of n] by simp
    note trim = trim_end_all_printable [OF this]
    have "p' = [] \<or> p' = [CR]"
      using 2 assms(2) p by (cases p'; cases "tl p'") auto
    then have "trim_end p = CHR ''*'' # show_nat n"
      using trim trim_end_snoc_space [of CR "CHR ''*'' # show_nat n"] 2 p by auto
    then show thesis using that [of "show_nat n" "[]"] by simp
  qed
qed

lemma read_multibulk_no_rest:
  assumes "d @ u = show_nat n" "0 < n"
  shows "\<exists>err. read_multibulk d [] = Inl err"
proof (cases "parse_u64 d")
  case None
  then show ?thesis by (simp add: read_multibulk_def ok_or_def)
next
  case (Some m)
  then obtain k where "m = Suc k" using torn_count [OF assms Some] by (cases m) auto
  with Some show ?thesis
    using read_bulk_no_rest [of "[]"] by (auto simp: read_multibulk_def)
qed

lemma torn_request:
  assumes "p @ q = resp_array ts" "q \<noteq> []" "p \<noteq> []" "ts \<noteq> []" "request_ok ts"
  shows "\<exists>err. read_request p = Inl err"
proof -
  have pq: "p @ q = header CHR ''*'' (length ts) @ concat (map bulk_string ts)"
    using assms(1) by (simp add: resp_array_header)
  from header_prefix [OF this] consider "LF \<notin> set p"
    | p' where "p = header CHR ''*'' (length ts) @ p'" "p' @ q = concat (map bulk_string ts)"
    by auto
  then show ?thesis
  proof cases
    case 1
    obtain d u where d: "d @ u = show_nat (length ts)" "trim_end p = CHR ''*'' # d"
      using torn_count_line [OF pq 1 assms(3)] .
    obtain err where "read_multibulk d [] = Inl err"
      using read_multibulk_no_rest [OF d(1)] assms(4) by auto
    then show ?thesis
      using d(2) take_line_no_LF [OF 1] assms(3) by (simp add: read_request_def read_line_def Let_def)
  next
    case 2
    obtain err where "read_bulks (length ts) p' = Inl err"
      using torn_bulks [OF 2(2) assms(2)] assms(5) by (auto simp: request_ok_def)
    then show ?thesis using 2 assms(5) by (simp add: read_request_header request_ok_def)
  qed
qed

section \<open>Replaying a log\<close>

fun log_bytes :: "string list list \<Rightarrow> string" where
  "log_bytes [] = []"
| "log_bytes (ts # log) = resp_array ts @ log_bytes log"

fun run_log :: "libs \<Rightarrow> (nat \<Rightarrow> env) \<Rightarrow> nat \<Rightarrow> string list list \<Rightarrow> database \<Rightarrow> database" where
  "run_log lib evs i [] db = db"
| "run_log lib evs i (ts # log) db = run_log lib evs (i + 1) log (snd (dispatch lib (evs i) ts db))"

definition log_ok :: "string list list \<Rightarrow> bool" where
  "log_ok log \<longleftrightarrow> (\<forall>ts \<in> set log. ts \<noteq> [] \<and> request_ok ts)"

lemma log_ok_simps [simp]:
  "log_ok []" "log_ok (ts # log) \<longleftrightarrow> ts \<noteq> [] \<and> request_ok ts \<and> log_ok log"
  "log_ok (log1 @ log2) \<longleftrightarrow> log_ok log1 \<and> log_ok log2"
  by (auto simp: log_ok_def)

lemma log_bytes_append [simp]: "log_bytes (log1 @ log2) = log_bytes log1 @ log_bytes log2"
  by (induction log1) simp_all

lemma replay_loop_log:
  "log_ok log \<Longrightarrow>
     replay_loop lib evs i (log_bytes log @ rest) db =
       replay_loop lib evs (i + length log) rest (run_log lib evs i log db)"
  by (induction log arbitrary: i db)
    (simp_all add: replay_loop.simps [of lib evs _ "resp_array _ @ _"] read_request_roundtrip)

lemma read_request_Nil: "read_request [] = Inr None"
  by (simp add: read_request_def read_line_def)

lemma replay_loop_Nil [simp]: "replay_loop lib evs i [] db = (i, db)"
  by (subst replay_loop.simps) (simp add: read_request_Nil)

text \<open>A tail of the file that the last append left incomplete.\<close>

definition torn_tail :: "string \<Rightarrow> bool" where
  "torn_tail tail \<longleftrightarrow>
     tail = [] \<or> (\<exists>ts q. ts \<noteq> [] \<and> request_ok ts \<and> q \<noteq> [] \<and> tail @ q = resp_array ts)"

lemma replay_loop_torn: "torn_tail tail \<Longrightarrow> replay_loop lib evs i tail db = (i, db)"
proof (cases "tail = []")
  case False
  assume "torn_tail tail"
  then obtain err where "read_request tail = Inl err"
    using False unfolding torn_tail_def by (metis torn_request)
  then show ?thesis by (subst replay_loop.simps) simp
qed simp

lemma replay_log_torn:
  "log_ok log \<Longrightarrow> torn_tail tail \<Longrightarrow>
     replay_loop lib evs i (log_bytes log @ tail) db = (i + length log, run_log lib evs i log db)"
  by (simp add: replay_loop_log replay_loop_torn)

end
