(* ===== verification/Connection.thy ===== *)
theory Connection
  imports Session_Facts Framing
begin

text \<open>
  One connection, \<open>handle_connection\<close> of \<open>src/src/server/mod.rs\<close>.  Its reader task parses the
  client's bytes into a channel of requests; the main loop waits for the next request or the
  next pub/sub message, whichever comes first, and writes the reply or the message.  A failed
  write, which may have sent a part of its bytes, or the end of the requests, ends the loop, and
  then the session is cleaned up.  The
  scheduling is open: the steps of the two tasks, and of all other connections, interleave.
\<close>

section \<open>State and steps\<close>

record conn =
  co_input :: string
  co_reading :: bool
  co_requests :: "string list list"
  co_session :: session
  co_mailbox :: "string list"
  co_written :: string
  co_open :: bool

definition channel_capacity :: nat where
  "channel_capacity = 16"

definition conn_start :: "nat \<Rightarrow> string \<Rightarrow> database \<Rightarrow> conn \<times> database" where
  "conn_start mailbox bytes db =
     (case session_new mailbox (snd (client_connected db)) of
        (ss, db') \<Rightarrow>
          (\<lparr>co_input = bytes, co_reading = True, co_requests = [], co_session = ss,
            co_mailbox = [], co_written = [], co_open = True\<rparr>, db'))"

text \<open>The reader task: one turn of its \<open>while let\<close>.\<close>

definition reader_turn :: "conn \<Rightarrow> conn" where
  "reader_turn c =
     (case read_request (co_input c) of
        Inr (Some (tokens, rest)) \<Rightarrow>
          c\<lparr>co_input := rest, co_requests := co_requests c @ [tokens]\<rparr>
      | _ \<Rightarrow> c\<lparr>co_reading := False\<rparr>)"

text \<open>What runs after the loop, here and in \<open>accept_loop\<close>: cleanup, abort
  of the reader, and the counter; both channels are dropped.\<close>

definition conn_end :: "conn \<Rightarrow> database \<Rightarrow> conn \<times> database" where
  "conn_end c db =
     (c\<lparr>co_open := False, co_reading := False, co_requests := [], co_mailbox := []\<rparr>,
      client_disconnected (cleanup (co_session c) db))"

datatype conn_event = Reads | Handles "string list" string | Pushes string | Fails "string list list" string | Ends | Others

text \<open>
  A step reports what it did; \<open>Fails\<close> names the request whose reply could not be written, which
  has been executed all the same, and what of it was written: \<open>write_all\<close> may fail after any
  proper prefix.  \<open>Others\<close> is anything the rest of the server does meanwhile: it
  changes the database and sends the connection messages that its registry entries ask for.
\<close>

inductive conn_step ::
    "libs \<Rightarrow> conn \<times> database \<Rightarrow> conn_event \<Rightarrow> conn \<times> database \<Rightarrow> bool" for lib where
  reads:
    "co_reading c \<Longrightarrow> length (co_requests c) < channel_capacity \<Longrightarrow>
     conn_step lib (c, db) Reads (reader_turn c, db)"
| handles:
    "co_open c \<Longrightarrow> co_requests c = tokens # rest \<Longrightarrow>
     handle lib evs tokens (co_session c) db = (r, ss', db') \<Longrightarrow>
     conn_step lib (c, db) (Handles tokens r)
       (c\<lparr>co_requests := rest, co_session := ss', co_written := co_written c @ r\<rparr>, db')"
| handle_fails:
    "co_open c \<Longrightarrow> co_requests c = tokens # rest \<Longrightarrow>
     handle lib evs tokens (co_session c) db = (r, ss', db') \<Longrightarrow> n < length r \<Longrightarrow>
     conn_step lib (c, db) (Fails [tokens] (take n r))
       (conn_end (c\<lparr>co_requests := rest, co_session := ss', co_written := co_written c @ take n r\<rparr>) db')"
| pushes:
    "co_open c \<Longrightarrow> co_mailbox c = m # ms \<Longrightarrow>
     conn_step lib (c, db) (Pushes m) (c\<lparr>co_mailbox := ms, co_written := co_written c @ m\<rparr>, db)"
| push_fails:
    "co_open c \<Longrightarrow> co_mailbox c = m # ms \<Longrightarrow> n < length m \<Longrightarrow>
     conn_step lib (c, db) (Fails [] (take n m))
       (conn_end (c\<lparr>co_mailbox := ms, co_written := co_written c @ take n m\<rparr>) db)"
| ends:
    "co_open c \<Longrightarrow> \<not> co_reading c \<Longrightarrow> co_requests c = [] \<Longrightarrow>
     conn_step lib (c, db) Ends (conn_end c db)"
| others:
    "co_open c \<Longrightarrow> \<forall>m \<in> set ms. \<exists>channel payload. m = resp_array [''message'', channel, payload] \<Longrightarrow>
     conn_step lib (c, db) Others (c\<lparr>co_mailbox := co_mailbox c @ ms\<rparr>, db')"

inductive conn_run ::
    "libs \<Rightarrow> conn \<times> database \<Rightarrow> conn_event list \<Rightarrow> conn \<times> database \<Rightarrow> bool" for lib where
  none: "conn_run lib s [] s"
| more: "conn_run lib s es s' \<Longrightarrow> conn_step lib s' e s'' \<Longrightarrow> conn_run lib s (es @ [e]) s''"

inductive_cases conn_step_cases: "conn_step lib (c, db) e (c', db')"

text \<open>The requests in a stream of bytes, up to its end or the first framing error.\<close>

function read_all :: "string \<Rightarrow> string list list" where
  "read_all s =
     (case read_request s of Inr (Some (tokens, rest)) \<Rightarrow> tokens # read_all rest | _ \<Rightarrow> [])"
  by pat_completeness auto

termination by (relation "measure length") (auto dest: read_request_less)

declare read_all.simps [simp del]

fun handled :: "conn_event list \<Rightarrow> string list list" where
  "handled [] = []"
| "handled (Handles tokens r # es) = tokens # handled es"
| "handled (Fails lost part # es) = lost @ handled es"
| "handled (_ # es) = handled es"

fun written_by :: "conn_event list \<Rightarrow> string list" where
  "written_by [] = []"
| "written_by (Handles tokens r # es) = r # written_by es"
| "written_by (Pushes m # es) = m # written_by es"
| "written_by (Fails lost part # es) = part # written_by es"
| "written_by (_ # es) = written_by es"

definition writes_succeed :: "conn_event list \<Rightarrow> bool" where
  "writes_succeed es \<longleftrightarrow> (\<forall>lost part. Fails lost part \<notin> set es)"

section \<open>Requests are handled once, in order\<close>

lemma handled_append [simp]: "handled (es @ es') = handled es @ handled es'"
  by (induction es rule: handled.induct) simp_all

lemma output_append [simp]: "written_by (es @ es') = written_by es @ written_by es'"
  by (induction es rule: written_by.induct) simp_all

text \<open>What the reader has still to deliver.\<close>

definition pending :: "conn \<Rightarrow> string list list" where
  "pending c = co_requests c @ (if co_reading c then read_all (co_input c) else [])"

lemma reader_turn_pending: "co_reading c \<Longrightarrow> pending (reader_turn c) = pending c"
  by (auto simp: pending_def reader_turn_def read_all.simps [of "co_input c"]
      split: sum.splits option.splits)

lemma reader_turn_frame [simp]:
  "co_session (reader_turn c) = co_session c" "co_written (reader_turn c) = co_written c"
  "co_mailbox (reader_turn c) = co_mailbox c" "co_open (reader_turn c) = co_open c"
  by (simp_all add: reader_turn_def split: sum.splits option.splits)

definition conn_ok :: "conn \<Rightarrow> bool" where
  "conn_ok c \<longleftrightarrow> session_inv (co_session c) \<and>
     (\<forall>m \<in> set (co_mailbox c). \<exists>channel payload. m = resp_array [''message'', channel, payload])"

lemma conn_ok_step:
  assumes "conn_step lib (c, db) e (c', db')" "conn_ok c"
  shows "conn_ok c'"
  using assms
  by (cases rule: conn_step_cases) (auto simp: conn_ok_def conn_end_def intro: handle_inv)

lemma conn_ok_run:
  "conn_run lib s es s' \<Longrightarrow> conn_ok (fst s) \<Longrightarrow> conn_ok (fst s')"
proof (induction rule: conn_run.induct)
  case (more s es s' e s'')
  then show ?case using conn_ok_step by (metis prod.collapse)
qed

text \<open>A step moves the head of the pending requests to the handled ones, or drops the rest at the end.\<close>

lemma step_pending:
  assumes "conn_step lib (c, db) e (c', db')"
  shows "\<exists>dropped. handled [e] @ pending c' @ dropped = pending c \<and>
           (writes_succeed [e] \<longrightarrow> dropped = [])"
  using assms
proof (cases rule: conn_step.cases)
  case reads
  then show ?thesis by (simp add: reader_turn_pending)
qed (auto simp: pending_def conn_end_def writes_succeed_def)

lemma step_written:
  assumes "conn_step lib (c, db) e (c', db')"
  shows "co_written c' = co_written c @ concat (written_by [e])"
  using assms by (cases rule: conn_step_cases) (auto simp: conn_end_def)

lemma run_pending:
  "conn_run lib s es s' \<Longrightarrow>
     (\<exists>dropped. handled es @ pending (fst s') @ dropped = pending (fst s) \<and>
        (writes_succeed es \<longrightarrow> dropped = [])) \<and>
     co_written (fst s') = co_written (fst s) @ concat (written_by es)"
proof (induction rule: conn_run.induct)
  case (none s)
  show ?case by (simp add: exI [of _ "[]"])
next
  case (more s es s' e s'')
  have step: "conn_step lib (fst s', snd s') e (fst s'', snd s'')" using more(2) by simp
  obtain d1 where d1: "handled es @ pending (fst s') @ d1 = pending (fst s)"
    "writes_succeed es \<Longrightarrow> d1 = []" using more.IH by blast
  obtain d2 where d2: "handled [e] @ pending (fst s'') @ d2 = pending (fst s')"
    "writes_succeed [e] \<longrightarrow> d2 = []" using step_pending [OF step] by blast
  have "handled (es @ [e]) @ pending (fst s'') @ (d2 @ d1) = pending (fst s)"
    using d1(1) unfolding d2(1) [symmetric] by simp
  moreover have "writes_succeed (es @ [e]) \<longrightarrow> d2 @ d1 = []"
    using d1(2) d2(2) by (auto simp: writes_succeed_def)
  moreover have "co_written (fst s'') = co_written (fst s) @ concat (written_by (es @ [e]))"
    using step_written [OF step] more.IH by simp
  ultimately show ?case by blast
qed

text \<open>Without a failed write the loop ends only when nothing is pending.\<close>

lemma run_drained:
  "conn_run lib s es s' \<Longrightarrow> writes_succeed es \<Longrightarrow> co_open (fst s) \<Longrightarrow>
     co_open (fst s') \<or> pending (fst s') = []"
proof (induction rule: conn_run.induct)
  case (more s es s' e s'')
  have step: "conn_step lib (fst s', snd s') e (fst s'', snd s'')" using more(2) by simp
  have "co_open (fst s') \<or> pending (fst s') = []"
    using more by (simp add: writes_succeed_def)
  from step this show ?case
    by (cases rule: conn_step.cases)
      (auto simp: reader_turn_pending, auto simp: pending_def conn_end_def)
qed simp

section \<open>Everything written is whole frames, up to a failed write\<close>

lemma frames_handled:
  assumes "handle lib evs tokens ss db = (r, ss', db')" "session_inv ss"
  shows "\<exists>rs. frames rs r"
proof (cases "tokens = []")
  case True
  then have "r = []" using assms(1) by (simp add: handle_def)
  then show ?thesis using frames_Nil by blast
next
  case False
  then show ?thesis using handle_frames [OF assms] by blast
qed

lemma frames_message: "\<exists>rs. frames rs (resp_array ts)"
  using frames_one_reply [OF reads_as_2(6)] by blast

text \<open>The first bytes of whole frames, but not all of them.\<close>

definition cut_frames :: "string \<Rightarrow> bool" where
  "cut_frames part \<longleftrightarrow> (\<exists>rs rest. rest \<noteq> [] \<and> frames rs (part @ rest))"

lemma cut_take: "frames rs r \<Longrightarrow> n < length r \<Longrightarrow> cut_frames (take n r)"
  unfolding cut_frames_def by (intro exI [of _ rs] exI [of _ "drop n r"]) simp

definition written_ok :: "conn \<Rightarrow> conn_event list \<Rightarrow> bool" where
  "written_ok c es \<longleftrightarrow> (\<exists>rs whole part. co_written c = whole @ part \<and> frames rs whole \<and>
     (part = [] \<or> \<not> co_open c \<and> \<not> writes_succeed es \<and> cut_frames part))"

lemma closed_writes_nothing:
  "conn_step lib (c, db) e (c', db') \<Longrightarrow> \<not> co_open c \<Longrightarrow> co_written c' = co_written c \<and> \<not> co_open c'"
  by (erule conn_step_cases) auto

lemma written_ok_step:
  assumes "conn_step lib (c, db) e (c', db')" "conn_ok c" "written_ok c es"
  shows "written_ok c' (es @ [e])"
proof (cases "co_open c")
  case False
  have "\<not> writes_succeed (es @ [e])" if "\<not> writes_succeed es" using that by (auto simp: writes_succeed_def)
  then show ?thesis
    using closed_writes_nothing [OF assms(1) False] assms(3) by (auto simp: written_ok_def)
next
  case True
  then obtain rs where rs: "frames rs (co_written c)" using assms(3) by (auto simp: written_ok_def)
  have whole: "written_ok c' (es @ [e])"
    if "co_written c' = co_written c @ more" "\<exists>rs'. frames rs' more" for more
    using that frames_append [OF rs] unfolding written_ok_def by (metis append_Nil2)
  have cut: "written_ok c' (es @ [e])"
    if "co_written c' = co_written c @ take n r" "\<exists>rs'. frames rs' r" "n < length r" "\<not> co_open c'"
      "e = Fails lost (take n r)" for n r lost
  proof -
    have "\<not> writes_succeed (es @ [e])" using that(5) by (auto simp: writes_succeed_def)
    with that rs cut_take show ?thesis unfolding written_ok_def by blast
  qed
  have msg: "\<exists>rs'. frames rs' m" if "co_mailbox c = m # ms" for m ms
    using assms(2) frames_message that by (auto simp: conn_ok_def)
  have reply: "\<exists>rs'. frames rs' r" if "handle lib evs tokens (co_session c) db = (r, ss', db1)" for evs tokens r ss' db1
    using frames_handled [OF that] assms(2) by (simp add: conn_ok_def)
  from assms(1) show ?thesis
  proof (cases rule: conn_step.cases)
    case (handle_fails tokens rest evs r ss' db1 n)
    then show ?thesis using cut reply by (auto simp: conn_end_def)
  next
    case (push_fails m ms n)
    then show ?thesis using cut msg by (auto simp: conn_end_def)
  qed (use whole [of "[]"] whole frames_Nil msg reply in \<open>auto simp: conn_end_def\<close>)
qed

lemma run_written_ok:
  "conn_run lib s es s' \<Longrightarrow> conn_ok (fst s) \<Longrightarrow> written_ok (fst s) [] \<Longrightarrow> written_ok (fst s') es"
proof (induction rule: conn_run.induct)
  case (more s es s' e s'')
  have step: "conn_step lib (fst s', snd s') e (fst s'', snd s'')" using more(2) by simp
  show ?case using written_ok_step [OF step conn_ok_run [OF more(1,4)]] more by blast
qed

section \<open>A whole connection\<close>

lemma conn_start_simps [simp]:
  "pending (fst (conn_start mailbox bytes db)) = read_all bytes"
  "co_written (fst (conn_start mailbox bytes db)) = []" "co_open (fst (conn_start mailbox bytes db))"
  "conn_ok (fst (conn_start mailbox bytes db))"
  by (simp_all add: conn_start_def case_prod_unfold pending_def conn_ok_def session_inv_new)

lemma connection_order:
  assumes "conn_run lib (conn_start mailbox bytes db) es (c, db')"
  shows "\<exists>rest. handled es @ rest = read_all bytes"
    and "writes_succeed es \<Longrightarrow> \<not> co_open c \<Longrightarrow> handled es = read_all bytes"
    and "co_written c = concat (written_by es)"
  using run_pending [OF assms] run_drained [OF assms] by auto

lemma connection_written:
  assumes "conn_run lib (conn_start mailbox bytes db) es (c, db')"
  shows "written_ok c es"
proof -
  have "written_ok (fst (conn_start mailbox bytes db)) []"
    using frames_Nil by (auto simp: written_ok_def)
  from run_written_ok [OF assms _ this] show ?thesis by simp
qed

section \<open>Progress\<close>

text \<open>The steps of the connection's own two tasks, apart from the messages it is sent.\<close>

fun own_event :: "conn_event \<Rightarrow> bool" where
  "own_event (Pushes m) \<longleftrightarrow> False"
| "own_event Others \<longleftrightarrow> False"
| "own_event _ \<longleftrightarrow> True"

text \<open>Each of them uses up some of this: a turn of the reader consumes a byte at least, or stops.\<close>

definition potential :: "conn \<Rightarrow> nat" where
  "potential c = 2 * length (co_input c) + length (co_requests c) +
     (if co_reading c then 1 else 0) + (if co_open c then 1 else 0)"

lemma reader_turn_potential: "co_reading c \<Longrightarrow> potential (reader_turn c) < potential c"
proof -
  assume on: "co_reading c"
  show ?thesis
  proof (cases "\<exists>tokens rest. read_request (co_input c) = Inr (Some (tokens, rest))")
    case True
    then obtain tokens rest where r: "read_request (co_input c) = Inr (Some (tokens, rest))" by blast
    from read_request_less [OF r] show ?thesis by (simp add: reader_turn_def r potential_def)
  next
    case False
    then show ?thesis using on by (auto simp: reader_turn_def potential_def split: sum.splits option.splits)
  qed
qed

lemma step_potential:
  assumes "conn_step lib (c, db) e (c', db')"
  shows "potential c' + (if own_event e then 1 else 0) \<le> potential c"
  using assms
proof (cases rule: conn_step.cases)
  case reads
  then show ?thesis using reader_turn_potential [of c] by simp
qed (auto simp: potential_def conn_end_def)

lemma run_potential:
  "conn_run lib s es s' \<Longrightarrow> potential (fst s') + length (filter own_event es) \<le> potential (fst s)"
proof (induction rule: conn_run.induct)
  case (more s es s' e s'')
  have step: "conn_step lib (fst s', snd s') e (fst s'', snd s'')" using more(2) by simp
  from step_potential [OF step] more.IH show ?case by (auto split: if_splits)
qed simp

lemma connection_bounded:
  assumes "conn_run lib (conn_start mailbox bytes db) es (c, db')"
  shows "length (filter own_event es) \<le> 2 * length bytes + 2"
  using run_potential [OF assms] by (simp add: conn_start_def case_prod_unfold potential_def)

text \<open>An open connection can always take one of them.\<close>

lemma open_moves:
  assumes "co_open c"
  shows "\<exists>e s'. own_event e \<and> writes_succeed [e] \<and> conn_step lib (c, db) e s'"
proof (cases "co_requests c")
  case (Cons tokens rest)
  obtain r ss' db' where h: "handle lib (\<lambda>_. undefined) tokens (co_session c) db = (r, ss', db')"
    by (cases "handle lib (\<lambda>_. undefined) tokens (co_session c) db") auto
  from conn_step.handles [OF assms Cons h] show ?thesis
    by (intro exI [of _ "Handles tokens r"] exI conjI) (simp_all add: writes_succeed_def)
next
  case Nil
  show ?thesis
  proof (cases "co_reading c")
    case True
    from conn_step.reads [OF True, of lib db] Nil show ?thesis
      by (intro exI [of _ Reads] exI conjI) (simp_all add: writes_succeed_def channel_capacity_def)
  next
    case False
    from conn_step.ends [OF assms False Nil, of lib db] show ?thesis
      by (intro exI [of _ Ends] exI conjI) (simp_all add: writes_succeed_def)
  qed
qed

text \<open>So it has a run to its end.\<close>

lemma conn_run_Cons: "conn_run lib s' es s'' \<Longrightarrow> conn_step lib s e s' \<Longrightarrow> conn_run lib s (e # es) s''"
proof (induction rule: conn_run.induct)
  case (none s')
  then show ?case using conn_run.more [OF conn_run.none] by fastforce
next
  case (more s' es s'' e' s3)
  then show ?case using conn_run.more [of lib s "e # es" s'' e' s3] by simp
qed

lemma connection_can_end:
  "\<exists>es s'. conn_run lib (c, db) es s' \<and> writes_succeed es \<and> \<not> co_open (fst s')"
proof (induction "potential c" arbitrary: c db rule: less_induct)
  case less
  show ?case
  proof (cases "co_open c")
    case False
    then show ?thesis by (intro exI [of _ "[]"] exI [of _ "(c, db)"]) (simp add: conn_run.none writes_succeed_def)
  next
    case True
    then obtain e c' db' where e: "own_event e" "writes_succeed [e]" "conn_step lib (c, db) e (c', db')"
      using open_moves by (metis prod.collapse)
    then have "potential c' < potential c" using step_potential [OF e(3)] by simp
    from less [OF this] obtain es s' where "conn_run lib (c', db') es s'" "writes_succeed es" "\<not> co_open (fst s')"
      by blast
    with conn_run_Cons e(2,3) show ?thesis
      by (intro exI [of _ "e # es"] exI [of _ s']) (auto simp: writes_succeed_def)
  qed
qed

section \<open>Encoded requests\<close>

lemma read_all_log:
  assumes "log_ok reqs" "torn_tail tail"
  shows "read_all (log_bytes reqs @ tail) = reqs"
  using assms(1)
proof (induction reqs)
  case Nil
  show ?case
  proof (cases "tail = []")
    case False
    then obtain err where "read_request tail = Inl err"
      using assms(2) unfolding torn_tail_def by (metis torn_request)
    then show ?thesis by (simp add: read_all.simps)
  qed (simp add: read_all.simps read_request_Nil)
next
  case (Cons ts reqs)
  then show ?case
    using read_request_roundtrip [of ts "log_bytes reqs @ tail"]
    by (simp add: read_all.simps [of "resp_array ts @ log_bytes reqs @ tail"])
qed

end
