(* ===== verification/Recovery.thy ===== *)
theory Recovery
  imports Framing Store_Inv
begin

text \<open>
  Durability of the append-only log.  A history of requests writes a log; replaying that log
  on an empty database, at any later times, rebuilds the same keyspace, provided no request
  sets a deadline (deadlines are re-based by design).  The pieces: what a request appends, that
  the appended entry has the effect of the request, and that effects without deadlines do not
  depend on the time.
\<close>

named_theorems undated_intros \<open>operations that set no deadline\<close>

section \<open>Stores without deadlines\<close>

definition undated :: "store \<Rightarrow> bool" where
  "undated s \<longleftrightarrow> (\<forall>k e. hm_get s k = Some e \<longrightarrow> en_expires_at e = None)"

lemma live_undated: "undated s \<Longrightarrow> live now s = hm_get s"
  by (auto simp: undated_def live_def fun_eq_iff is_expired_def split: option.splits)

lemma undated_Nil [undated_intros]: "undated []"
  by (simp add: undated_def)

lemma undated_insert [undated_intros]:
  "undated s \<Longrightarrow> en_expires_at e = None \<Longrightarrow> undated (hm_insert k e s)"
  by (simp add: undated_def)

lemma undated_remove [undated_intros]: "undated s \<Longrightarrow> undated (hm_remove k s)"
  by (simp add: undated_def)

lemma undatedD: "undated s \<Longrightarrow> hm_get s k = Some e \<Longrightarrow> en_expires_at e = None"
  by (auto simp: undated_def)

lemma undated_accessors [undated_intros]:
  "undated s \<Longrightarrow> undated (evict now k s)"
  "undated s \<Longrightarrow> undated (write_value k v s)"
  "undated s \<Longrightarrow> undated (snd (read_entry now k absent g s))"
  "undated s \<Longrightarrow> undated (snd (or_create unwrap fresh now k s))"
proof -
  assume s: "undated s"
  then show ev: "undated (evict now k s)"
    by (auto simp: evict_def undated_remove split: option.splits)
  then show "undated (snd (read_entry now k absent g s))" by (simp add: snd_read_entry)
  show "undated (write_value k v s)"
    using s by (auto simp: write_value_def split: option.splits intro!: undated_insert dest: undatedD)
  show "undated (snd (or_create unwrap fresh now k s))"
    using ev
    by (auto simp: or_create_def Let_def split: option.splits intro!: undated_insert dest: undatedD)
qed

lemma undated_shrink [undated_intros]:
  "undated s \<Longrightarrow> undated (snd (shrink unwrap wrap is_emp f absent now k s))"
  by (auto simp: shrink_def live_entry_eq undated_intros Let_def split: option.splits prod.splits)

lemma undated_grow [undated_intros]:
  assumes "undated s"
  shows "undated (snd (grow (or_create unwrap fresh) wrap f now k s))"
proof -
  obtain r s1 where "or_create unwrap fresh now k s = (r, s1)" by fastforce
  moreover from this have "undated s1"
    using undated_accessors(4) [OF assms, of unwrap fresh now k] by simp
  ultimately show ?thesis
    by (auto simp: grow_def undated_accessors(2) split: sum.splits prod.splits)
qed

lemma undated_del [undated_intros]: "undated s \<Longrightarrow> undated (snd (db_del now ks s))"
proof -
  have "undated s \<Longrightarrow> undated (snd (db_del_loop now n ks s))" for n
    by (induction ks arbitrary: n s) (auto simp: live_entry_eq undated_intros split: option.splits)
  then show "undated s \<Longrightarrow> undated (snd (db_del now ks s))" by (simp add: db_del_def)
qed

lemma undated_mset [undated_intros]: "undated s \<Longrightarrow> undated (db_mset pairs s)"
  by (induction pairs s rule: db_mset.induct) (simp_all add: undated_insert)

text \<open>Commands that give no key a deadline.\<close>

fun no_ttl :: "command \<Rightarrow> bool" where
  "no_ttl (CSet k v ttl) = (ttl = None)"
| "no_ttl (CExpire k n) = (sint n \<le> 0)"
| "no_ttl _ = True"

lemmas writer_defs = db_incr_by_def db_append_def db_lpush_def db_rpush_def db_lpop_def
  db_rpop_def db_pop_def db_sadd_def db_srem_def db_spop_def db_zadd_def db_zrem_def
  db_zincrby_def db_hset_def db_hdel_def db_hincrby_def list_or_create_def set_or_create_def
  sorted_set_or_create_def hash_or_create_def

lemma undated_keys [undated_intros]:
  "undated s \<Longrightarrow> ttl = None \<Longrightarrow> undated (db_set now k v ttl s)"
  "undated s \<Longrightarrow> undated (snd (db_setnx now k v s))"
  "undated s \<Longrightarrow> undated (snd (db_getset now k v s))"
  "undated s \<Longrightarrow> undated (snd (db_lset now k i v s))"
  "undated s \<Longrightarrow> sint n \<le> 0 \<Longrightarrow> undated (snd (db_expire now k n s))"
  "undated s \<Longrightarrow> undated (snd (db_persist now k s))"
  "undated s \<Longrightarrow> undated (snd (db_rename now k k' s))"
  "undated s \<Longrightarrow> undated (db_flushall s)"
  by (auto simp: db_set_def db_setnx_def db_getset_def db_lset_def db_expire_def db_persist_def
      db_rename_def db_flushall_def live_entry_eq get_evict_same undated_intros Let_def
      live_undated split: option.splits db_value.splits prod.splits
      intro!: undated_insert dest: undatedD)

lemma execute_undated:
  "no_ttl cmd \<Longrightarrow> undated (db_store db) \<Longrightarrow> undated (db_store (snd (execute cmd lib ev db)))"
  by (cases cmd; simp only: execute.simps run_eq peek_def no_ttl.simps snd_conv;
      simp add: run_eq read_defs writer_defs undated_intros save_keeps_store [unfolded execute.simps]
        case_prod_unfold split: sum.splits)

lemma effect_timeless: "no_ttl cmd \<Longrightarrow> effect cmd fo now m = effect cmd fo now' m"
  by (cases cmd) (simp_all add: Let_def is_expired_def)

section \<open>Tokens of stored sets\<close>

text \<open>
  SPOP is logged with the member it removed, so the members of stored sets must be writable as
  tokens; they are, because each came from a request.
\<close>

fun members_ok :: "db_value \<Rightarrow> bool" where
  "members_ok (VSet x) = (\<forall>m \<in> set x. token_ok m)"
| "members_ok _ = True"

lemma members_ok_writers:
  "store_all members_ok s \<Longrightarrow> store_all members_ok (snd (db_incr_by now k d s))"
  "store_all members_ok s \<Longrightarrow> store_all members_ok (snd (db_append now k v s))"
  "store_all members_ok s \<Longrightarrow> store_all members_ok (snd (db_lpush now k vs s))"
  "store_all members_ok s \<Longrightarrow> store_all members_ok (snd (db_rpush now k vs s))"
  "store_all members_ok s \<Longrightarrow> store_all members_ok (snd (db_zadd fo now k ms s))"
  "store_all members_ok s \<Longrightarrow> store_all members_ok (snd (db_zincrby fo now k x mb s))"
  "store_all members_ok s \<Longrightarrow> store_all members_ok (snd (db_hset now k f v s))"
  "store_all members_ok s \<Longrightarrow> store_all members_ok (snd (db_hincrby now k f d s))"
  unfolding writer_defs by (rule store_all_grow; simp add: as_iffs)+

lemma members_ok_shrinkers:
  "store_all members_ok s \<Longrightarrow> store_all members_ok (snd (db_lpop now k s))"
  "store_all members_ok s \<Longrightarrow> store_all members_ok (snd (db_rpop now k s))"
  "store_all members_ok s \<Longrightarrow> store_all members_ok (snd (db_zrem fo now k mb s))"
  "store_all members_ok s \<Longrightarrow> store_all members_ok (snd (db_hdel now k f s))"
  unfolding writer_defs by (rule store_all_shrink; simp add: as_iffs)+

lemma members_ok_sets:
  "\<forall>v \<in> set vs. token_ok v \<Longrightarrow> store_all members_ok s \<Longrightarrow>
     store_all members_ok (snd (db_sadd now k vs s))"
  "store_all members_ok s \<Longrightarrow> store_all members_ok (snd (db_srem now k vs s))"
  "store_all members_ok s \<Longrightarrow> store_all members_ok (snd (db_spop now k s))"
  unfolding writer_defs rset_new_def
  subgoal by (rule store_all_grow)
      (auto simp: as_iffs prod_eq_iff snd_sadd_all hs_simps)
  subgoal by (rule store_all_shrink) (auto simp: as_iffs snd_srem_all hs_simps)
  subgoal by (rule store_all_shrink) (auto simp: as_iffs rs_spop_def hs_simps split: list.splits)
  done

lemma members_ok_keys:
  "store_all members_ok s \<Longrightarrow> store_all members_ok (db_set now k v ttl s)"
  "store_all members_ok s \<Longrightarrow> store_all members_ok (db_mset pairs s)"
  "store_all members_ok s \<Longrightarrow> store_all members_ok (snd (db_setnx now k v s))"
  "store_all members_ok s \<Longrightarrow> store_all members_ok (snd (db_getset now k v s))"
  "store_all members_ok s \<Longrightarrow> store_all members_ok (snd (db_lset now k i v s))"
  subgoal by (simp add: db_set_def store_all_insert)
  subgoal by (induction pairs s rule: db_mset.induct) (simp_all add: store_all_insert)
  subgoal by (simp add: db_setnx_def live_entry_eq store_all_insert store_all_evict
        split: option.splits)
  subgoal by (simp add: db_getset_def Let_def live_entry_eq store_all_insert store_all_evict
        split: option.splits db_value.splits)
  subgoal by (simp add: db_lset_def Let_def live_entry_eq store_all_write_value store_all_evict
        split: option.splits db_value.splits prod.splits)
  done

lemmas members_intros = members_ok_writers members_ok_shrinkers members_ok_sets members_ok_keys
  del_inv key_ops_inv reads_inv

lemma execute_members_ok:
  "(\<And>k vs. cmd = CSAdd k vs \<Longrightarrow> \<forall>v \<in> set vs. token_ok v) \<Longrightarrow>
     store_all members_ok (db_store db) \<Longrightarrow>
     store_all members_ok (db_store (snd (execute cmd lib ev db)))"
  by (cases cmd; simp only: execute.simps run_eq peek_def snd_conv;
      simp add: run_eq read_defs members_intros save_keeps_store [unfolded execute.simps]
        case_prod_unfold split: sum.splits)

text \<open>The arguments of a parsed command are tokens of the request.\<close>

definition set_args_from :: "string list \<Rightarrow> command \<Rightarrow> bool" where
  "set_args_from args cmd \<longleftrightarrow>
     (\<forall>k vs. cmd = CSAdd k vs \<longrightarrow> set vs \<subseteq> set args) \<and> (\<forall>k. cmd = CSPop k \<longrightarrow> k \<in> set args)"

lemma parse_rest_args: "parse_rest upper args name = Inr cmd \<Longrightarrow> set_args_from args cmd"
  unfolding parse_rest_def set_args_from_def
  by (elim arm_cases; auto simp: single_key_def split: if_splits list.splits)

lemma parse_string_args: "parse_string upper args name = Inr cmd \<Longrightarrow> set_args_from args cmd"
  unfolding parse_string_def
  by (elim arm_cases;
      auto simp: set_args_from_def split: if_splits list.splits
        dest: parse_rest_args [unfolded set_args_from_def])

lemma parse_generic_args: "parse_generic upper args name = Inr cmd \<Longrightarrow> set_args_from args cmd"
  unfolding parse_generic_def
  by (elim arm_cases;
      auto simp: set_args_from_def split: if_splits list.splits
        dest: parse_string_args [unfolded set_args_from_def])

lemma parse_zset_hash_args: "parse_zset_hash upper args name = Inr cmd \<Longrightarrow> set_args_from args cmd"
  unfolding parse_zset_hash_def
  by (elim arm_cases;
      auto simp: set_args_from_def split: if_splits list.splits
        dest: parse_generic_args [unfolded set_args_from_def])

lemma parse_basic_args: "parse_basic upper args name = Inr cmd \<Longrightarrow> set_args_from args cmd"
  unfolding parse_basic_def
  by (elim arm_cases;
      auto simp: set_args_from_def key_and_values_def split: if_splits list.splits
        dest: parse_zset_hash_args [unfolded set_args_from_def])

lemma parse_args: "parse ts = Inr cmd \<Longrightarrow> set_args_from ts cmd"
  by (auto simp: parse_def set_args_from_def split: list.splits
      dest!: parse_basic_args [unfolded set_args_from_def])

lemma parse_srem: "parse [''SREM'', k, m] = Inr (CSRem k [m])"
proof -
  have "to_ascii_uppercase ''SREM'' = ''SREM''" by code_simp
  then show ?thesis by (simp add: parse_def parse_basic_def key_and_values_def)
qed

lemma dispatch_members_ok:
  assumes "\<forall>t \<in> set ts. token_ok t" "store_all members_ok (db_store db)"
  shows "store_all members_ok (db_store (snd (dispatch lib ev ts db)))"
proof (cases "parse ts")
  case (Inl err)
  then show ?thesis using assms(2) by (cases "ts = []") (simp_all add: dispatch_simps)
next
  case (Inr cmd)
  have "store_all members_ok (db_store (snd (execute cmd lib ev db)))"
    using parse_args [OF Inr] assms
    by (intro execute_members_ok) (auto simp: set_args_from_def)
  then show ?thesis by (simp add: dispatch_execute [OF Inr])
qed

section \<open>What a request appends to the log\<close>

definition logged :: "libs \<Rightarrow> env \<Rightarrow> string list \<Rightarrow> database \<Rightarrow> string list list" where
  "logged lib ev ts db =
     (case parse ts of
        Inl _ \<Rightarrow> []
      | Inr cmd \<Rightarrow>
          (if is_error_reply (fst (dispatch lib ev ts db)) then []
           else if is_write cmd then [ts]
           else case cmd of
               CSPop key \<Rightarrow>
                 (case fst (db_spop (ev_now ev) key (db_store db)) of
                    Inr (Some m) \<Rightarrow> [[''SREM'', key, m]] | _ \<Rightarrow> [])
             | _ \<Rightarrow> []))"

text \<open>Logging is on: a log is open, no replay is running, and appends succeed.\<close>

definition logging :: "env \<Rightarrow> database \<Rightarrow> string \<Rightarrow> bool" where
  "logging ev db bytes \<longleftrightarrow>
     db_aof db = Some bytes \<and> \<not> db_replaying db \<and> ev_append_failure ev = None"

lemma log_write_logging:
  "db_aof db = Some bytes \<Longrightarrow> \<not> db_replaying db \<Longrightarrow> ev_append_failure ev = None \<Longrightarrow>
     db_aof (log_write ev ts db) = Some (bytes @ resp_array ts)"
  by (simp add: log_write_def aof_append_def)

lemma dispatch_aof:
  assumes "logging ev db bytes"
  shows "db_aof (snd (dispatch lib ev ts db)) = Some (bytes @ log_bytes (logged lib ev ts db))"
proof (cases ts rule: dispatch_cases)
  case empty
  then show ?thesis using assms by (simp add: dispatch_simps logged_def parse_def logging_def)
next
  case (error err)
  then show ?thesis using assms by (simp add: dispatch_simps logged_def logging_def)
next
  case (spop key)
  obtain r s' where r: "db_spop (ev_now ev) key (db_store db) = (r, s')" by fastforce
  show ?thesis
    using spop assms
    by (auto simp: logged_def logging_def dispatch_simps fst_dispatch_spop dispatch_spop_def
        on_store_eq r reply_optional_def log_write_logging split: sum.splits option.splits)
next
  case (command cmd)
  have "db_aof (snd (dispatch_command lib ev ts cmd db)) =
      Some (bytes @ (if is_write cmd \<and> \<not> is_error_reply (fst (execute cmd lib ev db))
                     then resp_array ts else []))"
    using assms
    by (simp add: dispatch_command_def case_prod_unfold logging_def log_write_logging)
  then show ?thesis
    using command
    by (simp add: logged_def dispatch_simps dispatch_command_results split: command.splits)
qed

lemma dispatch_replaying [simp]: "db_replaying (snd (dispatch lib ev ts db)) = db_replaying db"
  by (cases ts rule: dispatch_cases)
    (auto simp: dispatch_simps dispatch_spop_def dispatch_command_def case_prod_unfold on_store_eq
      split: sum.splits option.splits)

text \<open>A set never holds an empty collection, so a successful SPOP always names its member.\<close>

lemma spop_result:
  assumes "store_inv fo s" "fst (db_spop now k s) = Inr r"
  shows "(case live now s k of
            None \<Rightarrow> r = None
          | Some e \<Rightarrow> \<exists>x xs. en_value e = VSet (x # xs) \<and> r = Some x \<and> distinct (x # xs))"
  using assms
  by (auto simp: db_spop_def set_variant.fst_shrink rs_spop_def store_inv_def as_iffs
      split: option.splits list.splits dest!: store_all_live)

lemma spop_effect:
  assumes "store_inv fo s" "fst (db_spop now k s) = Inr (Some m)"
  shows "effect (CSPop k) fo' now' (live now s) = effect (CSRem k [m]) fo' now' (live now s)"
  using spop_result [OF assms]
  by (auto simp: alter_def on_present_def split: option.splits)

lemma spop_nothing:
  assumes "store_inv fo s" "fst (db_spop now k s) = Inr None"
  shows "effect (CSPop k) fo' now' (live now s) = Inr (live now s)"
  using spop_result [OF assms]
  by (auto simp: alter_def on_present_def fun_upd_idem split: option.splits)

section \<open>Replaying what was appended\<close>

definition same_keys :: "database \<Rightarrow> database \<Rightarrow> bool" where
  "same_keys db db' \<longleftrightarrow>
     undated (db_store db) \<and> undated (db_store db') \<and> hm_get (db_store db) = hm_get (db_store db')"

lemma dispatch_undated:
  "(\<And>cmd. parse ts = Inr cmd \<Longrightarrow> no_ttl cmd) \<Longrightarrow> undated (db_store db) \<Longrightarrow>
     undated (db_store (snd (dispatch lib ev ts db)))"
  by (cases "parse ts"; cases "ts = []")
    (simp_all add: dispatch_simps dispatch_execute(2) execute_undated parse_def)

lemma get_dispatch:
  assumes "parse ts = Inr cmd" "no_ttl cmd" "undated (db_store db)"
    and "effect cmd (lib_float lib) now (hm_get (db_store db)) = Inr m"
  shows "hm_get (db_store (snd (dispatch lib ev ts db))) = m"
proof (cases "cmd = CSave")
  case True
  then show ?thesis using assms by (simp only: dispatch_execute save_keeps_store) simp
next
  case False
  have "effect cmd (lib_float lib) (ev_now ev) (hm_get (db_store db)) = Inr m"
    using assms(4) effect_timeless [OF assms(2), of _ now _ "ev_now ev"] by simp
  moreover have "undated (db_store (snd (dispatch lib ev ts db)))"
    by (rule dispatch_undated) (use assms in auto)
  ultimately show ?thesis
    using dispatch_refines [OF assms(1) False, of ev db lib] assms(3)
    by (simp add: refines_def live_undated)
qed

lemma dispatch_same_keys:
  assumes "parse ts = Inr cmd" "no_ttl cmd" "same_keys db db'"
    and "effect cmd (lib_float lib) now (hm_get (db_store db)) = Inr m"
  shows "same_keys (snd (dispatch lib ev ts db)) (snd (dispatch lib ev' ts db'))"
  using assms get_dispatch [OF assms(1,2)] by (auto simp: same_keys_def intro: dispatch_undated)

lemma dispatch_success_effect:
  assumes "parse ts = Inr cmd" "\<not> is_error_reply (fst (dispatch lib ev ts db))"
  shows "\<exists>m. effect cmd (lib_float lib) (ev_now ev) (live (ev_now ev) (db_store db)) = Inr m"
proof (cases "cmd = CSave")
  case False
  then show ?thesis
    using dispatch_refines [OF assms(1) False, of ev db lib] assms(2)
    by (auto simp: refines_def split: sum.splits)
qed simp

text \<open>A request that leaves the live keys alone and is not logged.\<close>

lemma same_keys_unlogged:
  assumes "same_keys db db'" "\<And>cmd. parse ts = Inr cmd \<Longrightarrow> no_ttl cmd"
    and "live (ev_now ev) (db_store (snd (dispatch lib ev ts db))) = live (ev_now ev) (db_store db)"
  shows "same_keys (snd (dispatch lib ev ts db)) db'"
  using assms dispatch_undated [of ts db lib ev] by (simp add: same_keys_def live_undated)

lemma replay_logged_spop:
  assumes "store_inv fo (db_store db)" "same_keys db db'" and p: "parse ts = Inr (CSPop key)"
    and r: "fst (db_spop (ev_now ev) key (db_store db)) = Inr (Some x)"
  shows "same_keys (snd (dispatch lib ev ts db)) (snd (dispatch lib ev' [''SREM'', key, x] db'))"
proof -
  have un: "undated (db_store db)" using assms(2) by (simp add: same_keys_def)
  have ok: "\<not> is_error_reply (fst (dispatch lib ev ts db))"
    by (simp add: dispatch_simps p fst_dispatch_spop r reply_optional_def)
  obtain m where m: "effect (CSPop key) (lib_float lib) (ev_now ev) (hm_get (db_store db)) = Inr m"
    using dispatch_success_effect [OF p ok] by (auto simp: live_undated [OF un])
  then have m': "effect (CSRem key [x]) (lib_float lib) (ev_now ev) (hm_get (db_store db)) = Inr m"
    using spop_effect [OF assms(1) r, of "lib_float lib" "ev_now ev"] by (simp add: live_undated [OF un])
  have "hm_get (db_store (snd (dispatch lib ev ts db))) = m"
    by (rule get_dispatch [OF p _ un m]) simp
  moreover have "undated (db_store (snd (dispatch lib ev ts db)))"
    by (rule dispatch_undated) (use p un in auto)
  moreover have "same_keys (snd (dispatch lib ev [''SREM'', key, x] db))
      (snd (dispatch lib ev' [''SREM'', key, x] db'))"
    by (rule dispatch_same_keys [OF parse_srem _ assms(2) m']) simp
  moreover have "hm_get (db_store (snd (dispatch lib ev [''SREM'', key, x] db))) = m"
    by (rule get_dispatch [OF parse_srem _ un m']) simp
  ultimately show ?thesis by (simp add: same_keys_def)
qed

lemma unlogged_keeps_live:
  assumes "store_inv fo (db_store db)" "logged lib ev ts db = []"
  shows "live (ev_now ev) (db_store (snd (dispatch lib ev ts db))) = live (ev_now ev) (db_store db)"
proof (cases "parse ts")
  case (Inl err)
  then show ?thesis by (cases "ts = []") (simp_all add: dispatch_simps)
next
  case p: (Inr cmd)
  show ?thesis
  proof (cases "is_error_reply (fst (dispatch lib ev ts db))")
    case ok: False
    then have nw: "\<not> is_write cmd" using assms(2) by (auto simp: logged_def p)
    show ?thesis
    proof (cases "\<exists>key. cmd = CSPop key")
      case True
      then obtain key where key: "cmd = CSPop key" by blast
      then obtain r where "fst (db_spop (ev_now ev) key (db_store db)) = Inr r"
        using ok p by (auto simp: dispatch_simps fst_dispatch_spop reply_optional_def split: sum.splits)
      then have "fst (db_spop (ev_now ev) key (db_store db)) = Inr None"
        using assms(2) ok by (cases r) (auto simp: logged_def p key)
      from spop_nothing [OF assms(1) this, of "lib_float lib" "ev_now ev"] show ?thesis
        using dispatch_refines [OF p, of ev db lib] key by (simp add: refines_def)
    next
      case False
      then show ?thesis
        using read_keeps_live [OF parse_wf [OF p] nw, of ev lib db] by (simp add: dispatch_execute [OF p])
    qed
  qed (rule dispatch_error_live)
qed

lemma logged_cases:
  obtains "logged lib ev ts db = []"
  | cmd where "parse ts = Inr cmd" "logged lib ev ts db = [ts]"
      "\<not> is_error_reply (fst (dispatch lib ev ts db))"
  | key x where "parse ts = Inr (CSPop key)" "logged lib ev ts db = [[''SREM'', key, x]]"
      "fst (db_spop (ev_now ev) key (db_store db)) = Inr (Some x)"
proof (cases "logged lib ev ts db")
  case (Cons e es)
  then obtain cmd where p: "parse ts = Inr cmd" and ok: "\<not> is_error_reply (fst (dispatch lib ev ts db))"
    by (auto simp: logged_def split: sum.splits if_splits)
  show thesis
  proof (cases "is_write cmd")
    case True
    then show thesis using that(2) [OF p] ok by (simp add: logged_def p)
  next
    case False
    then show thesis
      using that(3) Cons p ok
      by (auto simp: logged_def split: command.splits sum.splits option.splits)
  qed
qed (rule that(1))

lemma replay_logged:
  assumes "store_inv fo (db_store db)" "same_keys db db'"
    and no_ttl: "\<And>cmd. parse ts = Inr cmd \<Longrightarrow> no_ttl cmd"
  shows "same_keys (snd (dispatch lib ev ts db)) (run_log lib evs i (logged lib ev ts db) db')"
proof (cases rule: logged_cases [of lib ev ts db])
  case 1
  then show ?thesis
    using same_keys_unlogged [OF assms(2) no_ttl unlogged_keeps_live [OF assms(1) 1]] by simp
next
  case (2 cmd)
  have "undated (db_store db)" using assms(2) by (simp add: same_keys_def)
  then obtain m where "effect cmd (lib_float lib) (ev_now ev) (hm_get (db_store db)) = Inr m"
    using dispatch_success_effect [OF 2(1,3)] by (auto simp: live_undated)
  from dispatch_same_keys [OF 2(1) no_ttl [OF 2(1)] assms(2) this] show ?thesis by (simp add: 2)
next
  case (3 key x)
  then show ?thesis using replay_logged_spop [OF assms(1,2) 3(1,3)] by simp
qed

section \<open>Histories\<close>

fun run_history :: "libs \<Rightarrow> (env \<times> string list) list \<Rightarrow> database \<Rightarrow> database" where
  "run_history lib [] db = db"
| "run_history lib ((ev, ts) # hist) db = run_history lib hist (snd (dispatch lib ev ts db))"

definition plain_request :: "env \<times> string list \<Rightarrow> bool" where
  "plain_request r \<longleftrightarrow>
     ev_append_failure (fst r) = None \<and> request_ok (snd r) \<and>
     (case parse (snd r) of Inr cmd \<Rightarrow> no_ttl cmd | Inl _ \<Rightarrow> True)"

text \<open>The running database agrees with the replay of what it has logged so far.\<close>

definition recoverable :: "libs \<Rightarrow> (nat \<Rightarrow> env) \<Rightarrow> database \<Rightarrow> database \<Rightarrow> string list list \<Rightarrow> bool" where
  "recoverable lib evs fresh db log \<longleftrightarrow>
     store_inv (lib_float lib) (db_store db) \<and> store_all members_ok (db_store db) \<and>
     \<not> db_replaying db \<and> db_aof db = Some (log_bytes log) \<and> log_ok log \<and>
     same_keys db (run_log lib evs 0 log fresh)"

lemma run_log_append:
  "run_log lib evs i (log1 @ log2) db =
     run_log lib evs (i + length log1) log2 (run_log lib evs i log1 db)"
  by (induction log1 arbitrary: i db) simp_all

lemma token_ok_SREM: "token_ok ''SREM''"
proof -
  have "utf8 ''SREM''" by code_simp
  then show ?thesis by (simp add: token_ok_def MAX_BULK_BYTES_def)
qed

lemma logged_ok:
  assumes "request_ok ts" "store_inv fo (db_store db)" "store_all members_ok (db_store db)"
  shows "log_ok (logged lib ev ts db)"
proof (cases rule: logged_cases [of lib ev ts db])
  case (2 cmd)
  then have "ts \<noteq> []" by (auto simp: parse_def)
  with 2 assms(1) show ?thesis by simp
next
  case (3 key x)
  have "token_ok key" using parse_args [OF 3(1)] assms(1) by (auto simp: set_args_from_def request_ok_def)
  moreover have "token_ok x"
    using spop_result [OF assms(2) 3(3)] assms(3)
    by (fastforce split: option.splits dest: store_all_live)
  ultimately show ?thesis
    using 3 token_ok_SREM by (simp add: request_ok_def MAX_MULTIBULK_def)
qed simp

lemma recoverable_step:
  assumes "ordered_float (lib_float lib)" "plain_request (ev, ts)" "recoverable lib evs fresh db log"
  shows "recoverable lib evs fresh (snd (dispatch lib ev ts db)) (log @ logged lib ev ts db)"
proof -
  have no_ttl: "\<And>cmd. parse ts = Inr cmd \<Longrightarrow> no_ttl cmd"
    and rq: "request_ok ts" and ap: "ev_append_failure ev = None"
    using assms(2) by (auto simp: plain_request_def)
  note r = assms(3) [unfolded recoverable_def]
  have inv: "store_inv (lib_float lib) (db_store (snd (dispatch lib ev ts db)))"
    using dispatch_inv [OF assms(1)] r by blast
  have mem: "store_all members_ok (db_store (snd (dispatch lib ev ts db)))"
    using dispatch_members_ok [of ts db lib ev] r rq by (simp add: request_ok_def)
  have "logging ev db (log_bytes log)" using r ap by (simp add: logging_def)
  note aof = dispatch_aof [OF this, of lib ts]
  have "same_keys (snd (dispatch lib ev ts db))
      (run_log lib evs (length log) (logged lib ev ts db) (run_log lib evs 0 log fresh))"
    using r by (intro replay_logged no_ttl) auto
  then show ?thesis
    using inv mem aof r logged_ok [OF rq, of "lib_float lib" db lib ev]
    by (simp add: recoverable_def run_log_append)
qed

lemma recoverable_history:
  assumes "ordered_float (lib_float lib)"
  shows "\<forall>r \<in> set hist. plain_request r \<Longrightarrow> recoverable lib evs fresh db log \<Longrightarrow>
     \<exists>log'. recoverable lib evs fresh (run_history lib hist db) log'"
proof (induction hist arbitrary: db log)
  case (Cons r hist)
  obtain ev ts where r: "r = (ev, ts)" by fastforce
  have "recoverable lib evs fresh (snd (dispatch lib ev ts db)) (log @ logged lib ev ts db)"
    using recoverable_step [OF assms] Cons.prems r by simp
  from Cons.IH [OF _ this] Cons.prems(1) r show ?case by simp
qed auto

lemma recoverable_fresh:
  assumes "db_store fresh = []" "db_store db = []" "db_aof db = Some []" "\<not> db_replaying db"
  shows "recoverable lib evs fresh db []"
  using assms
  by (simp add: recoverable_def same_keys_def undated_Nil store_inv_def store_all_Nil)

section \<open>A restart restores the keyspace\<close>

definition fresh_database :: "env \<Rightarrow> config \<Rightarrow> disk \<Rightarrow> string \<Rightarrow> database" where
  "fresh_database ev cf dk bytes =
     (with_persistence (ev_now ev) (Some (cf_snapshot_file cf)) (Some bytes))
       \<lparr>db_snapshot_file := dk_snapshot dk\<rparr>"

lemma fresh_database_simps [simp]:
  "db_store (fresh_database ev cf dk bytes) = []"
  "db_replaying (fresh_database ev cf dk bytes) = False"
  "db_aof (fresh_database ev cf dk bytes) = Some bytes"
  by (simp_all add: fresh_database_def with_persistence_def database_new_def)

lemma init_append_only:
  assumes "cf_appendonly cf" "fsync_policy_from_str (cf_appendfsync cf) = Inr policy"
    and "dk_aof dk = Some bytes" "log_readable dk"
  shows "init_persistence lib evs cf dk =
     Inr (end_replay (snd (replay_loop lib evs 0 bytes (begin_replay (fresh_database (evs 0) cf dk bytes)))),
          Some policy)"
  using assms
  by (simp add: init_persistence_def log_readable_def replay_aof_def fresh_database_def Let_def
      case_prod_unfold)

lemma with_persistence_simps [simp]:
  "db_store (with_persistence t path aof) = []" "db_aof (with_persistence t path aof) = aof"
  "\<not> db_replaying (with_persistence t path aof)"
  by (simp_all add: with_persistence_def database_new_def)

lemma replay_frames [simp]:
  "db_store (begin_replay db) = db_store db" "db_store (end_replay db) = db_store db"
  "\<not> db_replaying (end_replay db)"
  by (simp_all add: begin_replay_def end_replay_def)

lemma restart_recovers:
  assumes "ordered_float (lib_float lib)" "\<forall>r \<in> set hist. plain_request r" "torn_tail tail"
    and "db = run_history lib hist (with_persistence t path (Some []))"
    and "db_aof db = Some bytes" "dk_aof dk = Some (bytes @ tail)" "log_readable dk"
    and "cf_appendonly cf" "fsync_policy_from_str (cf_appendfsync cf) = Inr policy"
  shows "\<exists>db'. init_persistence lib evs cf dk = Inr (db', Some policy) \<and>
           hm_get (db_store db') = hm_get (db_store db) \<and> \<not> db_replaying db'"
proof -
  let ?fresh = "begin_replay (fresh_database (evs 0) cf dk (bytes @ tail))"
  have "recoverable lib evs ?fresh (with_persistence t path (Some [])) []"
    by (rule recoverable_fresh) simp_all
  then obtain log where log: "recoverable lib evs ?fresh db log"
    using recoverable_history [OF assms(1,2)] assms(4) by blast
  then have "bytes = log_bytes log" using assms(5) by (simp add: recoverable_def)
  then have "replay_loop lib evs 0 (bytes @ tail) ?fresh = (length log, run_log lib evs 0 log ?fresh)"
    using replay_log_torn [OF _ assms(3), of log lib evs 0 ?fresh] log by (simp add: recoverable_def)
  then show ?thesis
    using init_append_only [OF assms(8,9,6,7), of lib evs] log
    by (simp add: recoverable_def same_keys_def)
qed

end
