(* ===== verification/Log_Entries.thy ===== *)
theory Log_Entries
  imports Recovery
begin

text \<open>
  What the log has to receive, said by what passes over the wire: the request's tokens and its
  reply.  \<open>log_entries\<close> names the commands that write; it mentions neither the parser nor
  \<open>is_write\<close>.  The entries that \<open>dispatch\<close> appends are shown to be these.
\<close>

definition write_names :: "string set" where
  "write_names =
     {''SET'', ''DEL'', ''INCR'', ''DECR'', ''INCRBY'', ''DECRBY'', ''APPEND'', ''MSET'', ''SETNX'', ''GETSET'',
      ''LPUSH'', ''RPUSH'', ''LPOP'', ''RPOP'', ''LSET'', ''SADD'', ''SREM'', ''ZADD'', ''ZREM'', ''ZINCRBY'',
      ''HSET'', ''HDEL'', ''HINCRBY'', ''EXPIRE'', ''PERSIST'', ''RENAME'', ''FLUSHALL''}"

text \<open>A write goes to the log as it was sent, a SPOP as the SREM of the member that its reply names.\<close>

inductive log_entries :: "string list \<Rightarrow> string \<Rightarrow> string list list \<Rightarrow> bool" where
  writes: "to_ascii_uppercase name \<in> write_names \<Longrightarrow> \<not> is_error_reply reply \<Longrightarrow>
     log_entries (name # args) reply [name # args]"
| spop: "to_ascii_uppercase name = ''SPOP'' \<Longrightarrow>
     log_entries [name, key] (bulk_string member) [[''SREM'', key, member]]"
| spop_nothing: "to_ascii_uppercase name = ''SPOP'' \<Longrightarrow> log_entries [name, key] resp_null []"
| refused: "is_error_reply reply \<Longrightarrow> log_entries tokens reply []"
| other: "to_ascii_uppercase name \<notin> insert ''SPOP'' write_names \<Longrightarrow> log_entries (name # args) reply []"
| blank: "log_entries [] [] []"

section \<open>Names and commands\<close>

lemma names_simps [simp]: "''SPOP'' \<notin> write_names"
  by (simp add: write_names_def)

definition named :: "string \<Rightarrow> string list \<Rightarrow> command \<Rightarrow> bool" where
  "named upper args cmd \<longleftrightarrow> (is_write cmd \<longleftrightarrow> upper \<in> write_names) \<and>
     (upper = ''SPOP'' \<longleftrightarrow> (\<exists>key. cmd = CSPop key)) \<and> (\<forall>key. cmd = CSPop key \<longrightarrow> args = [key])"

lemma arm_conds:
  "(if b then x else y) = Inr c \<Longrightarrow> (b \<Longrightarrow> x = Inr c \<Longrightarrow> P) \<Longrightarrow> (y = Inr c \<Longrightarrow> P) \<Longrightarrow> P"
  by (simp split: if_splits)

lemmas arm_results = single_key_def key_value_def non_empty_args_def key_and_values_def named_def write_names_def

lemma parse_rest_named: "parse_rest upper args name = Inr cmd \<Longrightarrow> named upper args cmd"
  unfolding parse_rest_def
  by (elim arm_conds; auto simp: arm_results split: if_splits list.splits)

lemma parse_string_named: "parse_string upper args name = Inr cmd \<Longrightarrow> named upper args cmd"
  unfolding parse_string_def
  by (elim arm_conds; (erule parse_rest_named)?; auto simp: arm_results split: if_splits list.splits)

lemma parse_generic_named: "parse_generic upper args name = Inr cmd \<Longrightarrow> named upper args cmd"
  unfolding parse_generic_def
  by (elim arm_conds; (erule parse_string_named)?; auto simp: arm_results split: if_splits list.splits)

lemma parse_zset_hash_named: "parse_zset_hash upper args name = Inr cmd \<Longrightarrow> named upper args cmd"
  unfolding parse_zset_hash_def
  by (elim arm_conds; (erule parse_generic_named)?; auto simp: arm_results split: if_splits list.splits)

lemma parse_basic_named: "parse_basic upper args name = Inr cmd \<Longrightarrow> named upper args cmd"
  unfolding parse_basic_def
  by (elim arm_conds; (erule parse_zset_hash_named)?; auto simp: arm_results split: if_splits list.splits)

section \<open>The entries of a request\<close>

lemma logged_entries: "log_entries ts (fst (dispatch lib ev ts db)) (logged lib ev ts db)"
proof (cases "is_error_reply (fst (dispatch lib ev ts db))")
  case True
  then have "logged lib ev ts db = []" by (simp add: logged_def split: sum.splits)
  with refused [OF True] show ?thesis by simp
next
  case ok: False
  show ?thesis
  proof (cases ts)
    case Nil
    then show ?thesis by (simp add: dispatch_simps logged_def parse_def blank)
  next
    case (Cons name args)
    have not_err: "\<exists>cmd. parse ts = Inr cmd"
    proof (cases "parse ts")
      case (Inl err)
      then show ?thesis using ok by (simp add: Cons dispatch_simps)
    qed blast
    then obtain cmd where p: "parse ts = Inr cmd" by blast
    then have n: "named (to_ascii_uppercase name) args cmd"
      by (auto simp: Cons parse_def intro: parse_basic_named)
    consider (writes) "is_write cmd" | (spop) key where "cmd = CSPop key"
      | (other) "\<not> is_write cmd" "\<nexists>key. cmd = CSPop key" by blast
    then show ?thesis
    proof cases
      case writes
      then have "logged lib ev ts db = [name # args]" using p ok by (simp add: logged_def Cons)
      moreover have "to_ascii_uppercase name \<in> write_names" using n writes by (simp add: named_def)
      ultimately show ?thesis using log_entries.writes ok by (simp add: Cons)
    next
      case spop
      then have "to_ascii_uppercase name = ''SPOP''" "ts = [name, key]" using n by (auto simp: named_def Cons)
      moreover obtain r where "fst (db_spop (ev_now ev) key (db_store db)) = Inr r"
        using ok p spop by (auto simp: dispatch_simps fst_dispatch_spop reply_optional_def split: sum.splits)
      moreover from this p spop have "fst (dispatch lib ev ts db) = (case r of Some m \<Rightarrow> bulk_string m | None \<Rightarrow> resp_null)"
        by (simp add: dispatch_simps fst_dispatch_spop reply_optional_def split: option.splits)
      moreover from calculation have "logged lib ev ts db = (case r of Some m \<Rightarrow> [[''SREM'', key, m]] | None \<Rightarrow> [])"
        using ok p spop by (simp add: logged_def split: option.splits)
      ultimately show ?thesis
        by (cases r) (simp_all add: log_entries.spop log_entries.spop_nothing)
    next
      case other
      then have "logged lib ev ts db = []" using p by (cases cmd) (simp_all add: logged_def)
      moreover have "to_ascii_uppercase name \<notin> insert ''SPOP'' write_names" using n other by (auto simp: named_def)
      ultimately show ?thesis using log_entries.other by (simp add: Cons)
    qed
  qed
qed

text \<open>They are the only ones.\<close>

inductive_cases entries_Cons: "log_entries (name # args) reply es"
inductive_cases entries_Nil: "log_entries [] reply es"

lemma bulk_inject [simp]: "bulk_string m = bulk_string m' \<longleftrightarrow> m = m'"
proof
  assume "bulk_string m = bulk_string m'"
  with reads_as_bulk [of 0 m] reads_as_bulk [of 0 m'] show "m = m'" by (simp add: reads_as_def)
qed simp

lemma bulk_not_null [simp]: "bulk_string m \<noteq> resp_null" "resp_null \<noteq> bulk_string m"
proof -
  show "bulk_string m \<noteq> resp_null"
  proof
    assume "bulk_string m = resp_null"
    with reads_as_bulk [of 0 m] reads_as_null [of 0] show False by (simp add: reads_as_def)
  qed
  then show "resp_null \<noteq> bulk_string m" by metis
qed

lemma entries_unique: "log_entries ts reply es \<Longrightarrow> log_entries ts reply es' \<Longrightarrow> es' = es"
proof (induction arbitrary: es' rule: log_entries.induct)
  case (refused reply tokens)
  then show ?case by (cases tokens) (auto elim: entries_Cons entries_Nil)
qed (auto elim: entries_Cons entries_Nil)

end
