(* ===== verification/Request_Properties.thy ===== *)
theory Request_Properties
  imports Store_Properties Connection Framing Log_Entries
begin

text \<open>
  The correctness properties of the request path: framing, parsing, dispatch, the log, sessions
  and connections, each with an instance that shows its hypotheses can be met.
\<close>

section \<open>Framing\<close>

text \<open>C23: a request that a client encodes as a RESP array, of at most \<open>MAX_MULTIBULK\<close> arguments with at most
  \<open>MAX_BULK_BYTES\<close> bytes of UTF-8 each (\<open>request_ok\<close>), is read back as exactly its arguments, bytes
  and line ends inside them included, and the reader stops exactly at its end.\<close>

theorem request_framing_roundtrip:
  assumes "request_ok ts"
  shows "read_request (resp_array ts @ rest) = Inr (Some (ts, rest))"
  by (rule read_request_roundtrip [OF assms])

lemma sample_request_ok: "request_ok [''GET'', ''a'']"
proof -
  have "utf8 ''GET''" "utf8 ''a''" by code_simp+
  then show ?thesis by (simp add: request_ok_def token_ok_def MAX_BULK_BYTES_def MAX_MULTIBULK_def)
qed

lemma request_framing_roundtrip_witness:
  "read_request (resp_array [''GET'', ''a''] @ ''rest'') = Inr (Some ([''GET'', ''a''], ''rest''))"
  by (rule request_framing_roundtrip [OF sample_request_ok])



text \<open>C39: replaying a log always ends: each entry consumes at least one byte, so at most as many
  requests run as the file has bytes.\<close>

theorem replay_is_bounded_by_the_file:
  "fst (replay_loop lib evs i bytes db) \<le> i + length bytes"
proof (induction lib evs i bytes db rule: replay_loop.induct)
  case (1 lib evs i s db)
  show ?case
  proof (cases "\<exists>tokens rest. read_request s = Inr (Some (tokens, rest))")
    case True
    then obtain tokens rest where r: "read_request s = Inr (Some (tokens, rest))" by blast
    from 1 [OF r refl refl] read_request_less [OF r] show ?thesis
      by (subst replay_loop.simps) (simp add: r)
  next
    case False
    then show ?thesis by (subst replay_loop.simps) (auto split: sum.splits option.splits)
  qed
qed

section \<open>Parsing\<close>

text \<open>A decimal integer argument is accepted exactly when it fits an i64, and then it is read as that
  number.\<close>

lemma integer_argument_is_exact:
  "parse_int_arg (show_int i) =
     (if in_i64 i then Inr (word_of_int i) else Inl (NotInteger (show_int i)))"
proof -
  have "parse_i64 (show_int i) = i64_checked i"
  proof (cases "i < 0")
    case True
    then show ?thesis by (simp add: parse_i64_def show_int_def)
  next
    case False
    obtain c r where cr: "show_nat (nat i) = c # r" "is_digit c" by (rule show_nat_Cons)
    have "c \<noteq> CHR ''+''" "c \<noteq> CHR ''-''" using cr(2) by auto
    moreover have "parse_digits 0 (c # r) = Some (nat i)"
      using parse_digits_show_nat [of "nat i"] by (simp only: cr)
    ultimately show ?thesis
      using False by (simp add: parse_i64_def show_int_def cr(1) del: parse_digits.simps)
  qed
  then show ?thesis by (simp add: parse_int_arg_def i64_checked_def)
qed

lemma parse_get: "parse [''GET'', k] = Inr (CGet k)"
proof -
  have "to_ascii_uppercase ''GET'' = ''GET''" by code_simp
  then show ?thesis by (simp add: parse_def parse_basic_def single_key_def)
qed

lemma parse_rpush: "parse [''rpush'', ''k'', ''v''] = Inr (CRPush ''k'' [''v''])"
  by code_simp

section \<open>Execution\<close>

text \<open>C3: every command but SAVE does to the live keys exactly what the abstract specification
  \<open>effect\<close> says, on every branch: the same new keyspace under a success reply, or that error's
  reply and no change.\<close>

theorem dispatch_refines_the_keyspace:
  assumes "parse tokens = Inr cmd" "cmd \<noteq> CSave"
  shows "refines (ev_now ev) db (dispatch lib ev tokens db)
           (effect cmd (lib_float lib) (ev_now ev) (live (ev_now ev) (db_store db)))"
  by (rule dispatch_refines [OF assms])

lemma dispatch_refines_the_keyspace_witness:
  "refines 9 sample_database (dispatch sample_libs (sample_env 9) [''rpush'', ''k'', ''v''] sample_database)
     (effect (CRPush ''k'' [''v'']) documented_order 9 (live 9 sample_store))"
  using dispatch_refines_the_keyspace [OF parse_rpush, of "sample_env 9" sample_database sample_libs]
  by (simp add: sample_facts sample_env_def)

text \<open>C29: a request that is answered with an error, at any stage, changes no live key and appends nothing
  to the log.\<close>

theorem refused_request_changes_nothing:
  assumes "is_error_reply (fst (dispatch lib ev tokens db))"
  shows "live (ev_now ev) (db_store (snd (dispatch lib ev tokens db))) = live (ev_now ev) (db_store db) \<and>
         db_aof (snd (dispatch lib ev tokens db)) = db_aof db"
  using dispatch_error_live [OF assms] dispatch_error_aof [OF assms] by blast

lemma wrong_type_reply:
  "is_error_reply (fst (dispatch sample_libs (sample_env 9) [''GET'', ''z''] sample_database))"
  by (simp add: dispatch_execute(1) [OF parse_get] run_eq db_get_def fst_read_entry live_def
      sample_store_def is_expired_def reply_optional_def sample_env_def)

lemma refused_request_changes_nothing_witness:
  "db_aof (snd (dispatch sample_libs (sample_env 9) [''GET'', ''z''] sample_database)) =
   db_aof sample_database"
  using refused_request_changes_nothing [OF wrong_type_reply] by blast

text \<open>C30: while logging is on, each request appends exactly the entries that its tokens and its reply
  call for, whole: a command of the list \<open>write_names\<close> that was not refused as it was sent, a SPOP
  as the SREM of the member its reply names, and nothing for any other command, for an error, and
  for a SPOP that took nothing.  A request that appends nothing changes no live key.\<close>

theorem the_log_receives_exactly_the_writes:
  assumes "logging ev db bytes" "dispatch lib ev tokens db = (reply, db')"
  shows "\<exists>entries. log_entries tokens reply entries \<and> db_aof db' = Some (bytes @ log_bytes entries) \<and>
           (store_inv (lib_float lib) (db_store db) \<and> entries = [] \<longrightarrow>
              live (ev_now ev) (db_store db') = live (ev_now ev) (db_store db))"
  using dispatch_aof [OF assms(1), of lib tokens] logged_entries [of tokens lib ev db]
    unlogged_keeps_live [of "lib_float lib" db lib ev tokens] assms(2)
  by (intro exI [of _ "logged lib ev tokens db"]) auto

lemma the_log_receives_exactly_the_writes_witness:
  "db_aof (snd (dispatch sample_libs (sample_env 9) [''rpush'', ''k'', ''v'']
     (with_persistence 0 None (Some [])))) = Some (resp_array [''rpush'', ''k'', ''v''])"
proof -
  let ?ts = "[''rpush'', ''k'', ''v'']" and ?db = "with_persistence 0 None (Some [])"
  obtain reply db' where d: "dispatch sample_libs (sample_env 9) ?ts ?db = (reply, db')" by fastforce
  have on: "logging (sample_env 9) ?db []" by (simp add: logging_def sample_env_def)
  have "\<not> is_error_reply (fst (dispatch sample_libs (sample_env 9) ?ts ?db))"
    by (simp add: dispatch_execute(1) [OF parse_rpush] run_eq db_rpush_def grow_def list_or_create_def
        or_create_def evict_def reply_count_def Let_def)
  then have "\<not> is_error_reply reply" using d by simp
  moreover have "to_ascii_uppercase ''rpush'' \<in> write_names"
  proof -
    have "to_ascii_uppercase ''rpush'' = ''RPUSH''" by code_simp
    then show ?thesis by (simp add: write_names_def)
  qed
  ultimately have entry: "log_entries ?ts reply [?ts]" by (intro log_entries.writes)
  obtain es where es: "log_entries ?ts reply es" "db_aof db' = Some ([] @ log_bytes es)"
    using the_log_receives_exactly_the_writes [OF on d] by blast
  then have "es = [?ts]" using entries_unique [OF entry] by blast
  with es(2) show ?thesis by (simp add: d)
qed

section \<open>Sessions\<close>

text \<open>C36: a session's two modes exclude each other, its channels are distinct, and a transaction holds
  only requests that parse: every request preserves this.\<close>

theorem requests_keep_the_session_invariant:
  assumes "handle lib evs tokens ss db = (r, ss', db')" "session_inv ss"
  shows "session_inv ss'"
  by (rule handle_inv [OF assms])

definition sample_session :: "transaction option \<Rightarrow> string list \<Rightarrow> session" where
  "sample_session tx channels =
     \<lparr>ss_id = 0, ss_mailbox = 0, ss_channels = channels, ss_transaction = tx\<rparr>"

lemma multi_upper: "to_ascii_uppercase ''multi'' = ''MULTI''" "to_ascii_uppercase ''GET'' = ''GET''"
  by code_simp+

lemma requests_keep_the_session_invariant_witness:
  "session_inv (sample_session (Some \<lparr>tx_commands = [], tx_dirty = False\<rparr>) [])"
proof -
  have "handle lib evs [''multi''] (sample_session None []) db =
      (simple_string ''OK'', sample_session (Some \<lparr>tx_commands = [], tx_dirty = False\<rparr>) [], db)"
    for lib evs db
    by (simp add: handle_def multi_upper begin_multi_def is_subscribed_def sample_session_def)
  from requests_keep_the_session_invariant [OF this] show ?thesis
    by (simp add: session_inv_def sample_session_def)
qed

text \<open>A subscribed connection may only subscribe, unsubscribe and ping: any other request is refused
  by name and changes neither the session nor the database.\<close>

lemma subscribe_mode_refuses_commands:
  assumes "is_subscribed ss" "tokens \<noteq> []"
    and "to_ascii_uppercase (hd tokens) \<notin> {''SUBSCRIBE'', ''UNSUBSCRIBE'', ''PING''}"
  shows "handle lib evs tokens ss db = (subscribe_mode_error (to_ascii_uppercase (hd tokens)), ss, db)"
proof (cases tokens)
  case Nil
  then show ?thesis using assms(2) by simp
next
  case (Cons first args)
  with assms(1,3) have "is_subscribed ss \<and>
      to_ascii_uppercase first \<notin> {''SUBSCRIBE'', ''UNSUBSCRIBE'', ''PING''}" by simp
  then show ?thesis unfolding handle_def Cons list.case Let_def list.sel by (rule if_P)
qed

text \<open>C20: EXEC on a transaction without errors runs the queued commands in order and answers with one
  array that holds exactly their replies; on one with an error it runs none.  Either way the
  transaction is closed.\<close>

theorem exec_answers_with_the_queued_replies:
  assumes "session_inv ss" "ss_transaction ss = Some tx"
    and "run_queue lib evs 0 (tx_commands tx) db = (outs, db')"
  shows "exec lib evs ss db =
           (if tx_dirty tx
            then (resp_error ''EXECABORT Transaction discarded because of previous errors.'',
                  ss\<lparr>ss_transaction := None\<rparr>, db)
            else (''*'' @ show_nat (length outs) @ crlf @ concat outs,
                  ss\<lparr>ss_transaction := None\<rparr>, db')) \<and>
         length outs = length (tx_commands tx) \<and>
         (\<exists>rs. list_all2 (reads_as 2) rs outs \<and>
           reads_as 3 (RArray rs) (''*'' @ show_nat (length outs) @ crlf @ concat outs))"
proof (intro conjI)
  show "exec lib evs ss db =
      (if tx_dirty tx
       then (resp_error ''EXECABORT Transaction discarded because of previous errors.'',
             ss\<lparr>ss_transaction := None\<rparr>, db)
       else (''*'' @ show_nat (length outs) @ crlf @ concat outs,
             ss\<lparr>ss_transaction := None\<rparr>, db'))"
    using exec_clean [OF assms(2) _ assms(3)] assms(2)
    by (cases "tx_dirty tx") (simp_all only: if_True if_False exec_def option.case Let_def simp_thms)
  show "length outs = length (tx_commands tx)"
    using length_run_queue [of lib evs 0 "tx_commands tx" db] assms(3) by simp
qed (rule exec_replies [OF assms])

lemma exec_answers_with_the_queued_replies_witness:
  "exec sample_libs sample_env
     (sample_session (Some \<lparr>tx_commands = [[''GET'', ''q'']], tx_dirty = False\<rparr>) []) sample_database =
   (''*1'' @ crlf @ resp_null, sample_session None [], sample_database)"
proof -
  let ?ss = "sample_session (Some \<lparr>tx_commands = [[''GET'', ''q'']], tx_dirty = False\<rparr>) []"
  have one: "show_nat 1 = ''1''" by code_simp
  have "dispatch sample_libs (sample_env 0) [''GET'', ''q''] sample_database =
      (resp_null, sample_database)"
    by (simp add: dispatch_simps(4) [OF parse_get] dispatch_command_def run_eq db_get_def
        read_entry_def sample_store_def reply_optional_def)
  then have q: "run_queue sample_libs sample_env 0
      (tx_commands \<lparr>tx_commands = [[''GET'', ''q'']], tx_dirty = False\<rparr>) sample_database =
      ([resp_null], sample_database)" by simp
  have inv: "session_inv ?ss" using parse_get by (simp add: session_inv_def sample_session_def is_subscribed_def)
  have tx: "ss_transaction ?ss = Some \<lparr>tx_commands = [[''GET'', ''q'']], tx_dirty = False\<rparr>"
    by (simp add: sample_session_def)
  show ?thesis
    using exec_answers_with_the_queued_replies [OF inv tx q] one by (simp add: sample_session_def)
qed

section \<open>Connections\<close>

text \<open>C21: however its reader, its pub/sub messages and the other connections interleave, a connection
  handles the pipelined requests of its client in the order they were sent, each at most once, and
  every one of them before it closes unless a write fails; the replies leave in that order.\<close>

theorem pipelined_requests_are_handled_in_order:
  assumes "conn_run lib (conn_start mailbox bytes db) es (c, db')"
  shows "(\<exists>rest. handled es @ rest = read_all bytes) \<and>
         (writes_succeed es \<and> \<not> co_open c \<longrightarrow> handled es = read_all bytes) \<and>
         co_written c = concat (written_by es)"
  using connection_order [OF assms] by blast


text \<open>C38: a connection serves every request.  Its client sends encoded requests and perhaps a part of one
  more, and no write fails.  However its steps interleave with messages and with the rest of the
  server, its own tasks take at most two steps for each byte and two more; while it is open it can
  take one of them, so it is never stuck; and when it has closed it has handled exactly the
  requests that were sent, in order.\<close>

theorem connection_serves_every_request:
  assumes "conn_run lib (conn_start mailbox bytes db) es (c, db')" "writes_succeed es"
    and "bytes = log_bytes reqs @ tail" "log_ok reqs" "torn_tail tail"
  shows "length (filter own_event es) \<le> 2 * length bytes + 2 \<and>
         (if co_open c then (\<exists>e s'. own_event e \<and> writes_succeed [e] \<and> conn_step lib (c, db') e s')
          else handled es = reqs)"
  using connection_bounded [OF assms(1)] open_moves connection_order(2) [OF assms(1,2)]
    read_all_log [OF assms(4,5)] assms(3)
  by auto

lemma connection_witness_run:
  obtains es c db' where "conn_run lib (conn_start 0 bytes db) es (c, db')" "writes_succeed es"
    "\<not> co_open c"
  using connection_can_end [of lib "fst (conn_start 0 bytes db)" "snd (conn_start 0 bytes db)"] by auto

lemma connection_serves_every_request_witness:
  "\<exists>es c db'. conn_run sample_libs (conn_start 0 (resp_array [''GET'', ''a''] @ ''*'') sample_database) es (c, db') \<and>
     handled es = [[''GET'', ''a'']]"
proof -
  obtain es c db' where run:
    "conn_run sample_libs (conn_start 0 (resp_array [''GET'', ''a''] @ ''*'') sample_database) es (c, db')"
    "writes_succeed es" "\<not> co_open c" by (rule connection_witness_run)
  have "''*'' @ tl (resp_array [''GET'', ''a'']) = resp_array [''GET'', ''a'']"
    "tl (resp_array [''GET'', ''a'']) \<noteq> []"
    by (simp_all add: resp_array_header header_def)
  then have "torn_tail ''*''" using sample_request_ok by (auto simp: torn_tail_def)
  moreover have "resp_array [''GET'', ''a''] @ ''*'' = log_bytes [[''GET'', ''a'']] @ ''*''" by simp
  moreover have "log_ok [[''GET'', ''a'']]" using sample_request_ok by simp
  ultimately show ?thesis
    using connection_serves_every_request [OF run(1,2)] run(1,3) by metis
qed

lemma read_all_one: "read_all (resp_array [''GET'', ''a'']) = [[''GET'', ''a'']]"
  using read_request_roundtrip [OF sample_request_ok, of "[]"] read_request_Nil
  by (simp add: read_all.simps)

lemma pipelined_requests_are_handled_in_order_witness:
  "\<exists>es c db'. conn_run sample_libs (conn_start 0 (resp_array [''GET'', ''a'']) sample_database) es (c, db') \<and>
     handled es = [[''GET'', ''a'']] \<and> co_written c = concat (written_by es)"
proof -
  obtain es c db' where run:
    "conn_run sample_libs (conn_start 0 (resp_array [''GET'', ''a'']) sample_database) es (c, db')"
    "writes_succeed es" "\<not> co_open c" by (rule connection_witness_run)
  with pipelined_requests_are_handled_in_order [OF run(1)] show ?thesis unfolding read_all_one by blast
qed



end
