(* ===== verification/Server_Properties.thy ===== *)
theory Server_Properties
  imports System Request_Properties
begin

text \<open>
  The properties of the server as a whole, over all reachable states of the step relation of
  System: consistency of the shared state, delivery of published messages, and completion of
  EXEC.
\<close>

section \<open>The server\<close>

text \<open>A server with one connection, subscribed to one channel.\<close>

definition idle_system :: system where
  "idle_system = \<lparr>sys_db = sample_database, sys_conns = Map.empty, sys_seen = 0\<rparr>"

lemma idle_reachable: "reachable sample_libs idle_system"
  by (rule reachable.start)
    (simp add: idle_system_def sys_start_def sample_facts sample_database_def database_new_def)

lemma subscribe_upper: "to_ascii_uppercase ''subscribe'' = ''SUBSCRIBE''"
  by code_simp

lemma handle_subscribe:
  "ss_transaction ss = None \<Longrightarrow>
     handle lib evs [''subscribe'', ch] ss db = subscribe_loop [ch] [] ss db"
  by (simp add: handle_def subscribe_upper subscribe_def del: subscribe_loop.simps)

lemma one_subscriber:
  obtains s :: system and c :: connection where "reachable sample_libs s" "sys_seen s = 1" "sys_conns s = [0 \<mapsto> c]"
    "ss_channels (cn_session c) = [''news'']"
proof -
  obtain n db1 where n: "client_connected (sys_db idle_system) = (n, db1)" by fastforce
  obtain ss db2 where ss: "session_new (sys_seen idle_system) db1 = (ss, db2)" by fastforce
  let ?c = "\<lparr>cn_session = ss, cn_running = None, cn_out = []\<rparr>"
  let ?s = "idle_system\<lparr>sys_db := db2, sys_conns := (sys_conns idle_system)(sys_seen idle_system \<mapsto> ?c),
    sys_seen := sys_seen idle_system + 1\<rparr>"
  have s: "reachable sample_libs ?s"
    by (rule reachable.step [OF idle_reachable sys_step.connect [OF n ss]])
  have fresh: "ss_transaction ss = None" "ss_channels ss = []"
    using ss by (auto simp: session_new_def next_subscriber_id_def case_prod_unfold)
  let ?ev = "(sample_env 0)\<lparr>ev_open_boxes := dom (sys_conns ?s)\<rparr>"
  obtain r ss' db' where h: "handle sample_libs (\<lambda>_. ?ev) [''subscribe'', ''news''] ss db2 = (r, ss', db')"
    by (cases "handle sample_libs (\<lambda>_. ?ev) [''subscribe'', ''news''] ss db2") auto
  then have ch: "ss_channels ss' = [''news'']"
    using fresh by (auto simp: handle_subscribe Let_def hs_insert_def)
  let ?c' = "?c\<lparr>cn_session := ss', cn_out := cn_out ?c @ r\<rparr>"
  have "sys_step sample_libs ?s (?s\<lparr>sys_db := db', sys_conns := (sys_conns ?s)(0 \<mapsto> ?c')\<rparr>)"
  proof (rule sys_step.request [where ev = ?ev and tokens = "[''subscribe'', ''news'']"])
    show "sys_conns ?s 0 = Some ?c" by (simp add: idle_system_def)
    show "starts_exec (cn_session ?c) [''subscribe'', ''news''] = None"
      by (simp add: starts_exec_def subscribe_upper)
    show "handle sample_libs (\<lambda>_. ?ev) [''subscribe'', ''news''] (cn_session ?c) (sys_db ?s) = (r, ss', db')"
      using h by simp
  qed simp_all
  from reachable.step [OF s this] show thesis
    by (rule that [where c = ?c']) (simp_all add: idle_system_def ch)
qed

text \<open>C15: PUBLISH in any reachable state sends the one encoded message to exactly the connections that
  are subscribed to the channel, and reports their number.\<close>

theorem publish_reaches_exactly_the_subscribers:
  assumes "ordered_float (lib_float lib)" "reachable lib s" "sys_seen s < 2 ^ 64"
    and "ev_open_boxes ev = dom (sys_conns s)" "db_publish ev ch payload (sys_db s) = (n, db')"
  shows "let subs = {i. \<exists>c. sys_conns s i = Some c \<and> ch \<in> set (ss_channels (cn_session c))} in
           n = card subs \<and>
           (\<exists>sent. db_delivered db' = db_delivered (sys_db s) @ sent \<and> length sent = n \<and>
              set sent = (\<lambda>i. (i, resp_array [''message'', ch, payload])) ` subs)"
proof -
  let ?subs = "{i. \<exists>c. sys_conns s i = Some c \<and> ch \<in> set (ss_channels (cn_session c))}"
  let ?p = "db_pubsub (sys_db s)" and ?out = "ps_publish (ev_open_boxes ev) ch payload (db_pubsub (sys_db s))"
  have inv: "sys_inv lib s" by (rule reachable_inv [OF assms(1-3)])
  have "(subscribed ?p ch i = Some b \<and> b \<in> ev_open_boxes ev) \<longleftrightarrow> b = i \<and> i \<in> ?subs" for i b
    using inv assms(4) by (auto simp: sys_inv_def registered_def split: option.splits)
  then have eqs: "{i. \<exists>b. subscribed ?p ch i = Some b \<and> b \<in> ev_open_boxes ev} = ?subs"
    "{(b, m) | b i. subscribed ?p ch i = Some b \<and> b \<in> ev_open_boxes ev} = (\<lambda>i. (i, m)) ` ?subs" for m :: string
    by auto
  have "pubsub_inv ?p" using inv by (simp add: sys_inv_def)
  from publish_reaches [OF this, of "ev_open_boxes ev" ch payload]
  have "fst ?out = card ?subs" "set (snd ?out) = (\<lambda>i. (i, resp_array [''message'', ch, payload])) ` ?subs"
    unfolding eqs by blast+
  moreover have "length (snd ?out) = fst ?out"
    by (simp add: ps_publish_def Let_def split: option.splits)
  ultimately show ?thesis
    using assms(5) by (auto simp: db_publish_def case_prod_unfold Let_def)
qed

lemma publish_reaches_exactly_the_subscribers_witness:
  "\<exists>(s :: system) (ev :: env) db'. db_publish ev ''news'' ''hello'' (sys_db s) = (1, db') \<and> sys_seen s = 1"
proof -
  obtain s :: system and c :: connection where s: "reachable sample_libs s" "sys_seen s = 1" "sys_conns s = [0 \<mapsto> c]"
    "ss_channels (cn_session c) = [''news'']" by (rule one_subscriber)
  let ?ev = "(sample_env 0)\<lparr>ev_open_boxes := dom (sys_conns s)\<rparr>"
  obtain n db' where p: "db_publish ?ev ''news'' ''hello'' (sys_db s) = (n, db')" by fastforce
  have "sys_seen s < 2 ^ 64" by (simp add: s(2))
  from publish_reaches_exactly_the_subscribers [OF sample_facts(1) s(1) this _ p]
  have "n = card {i. \<exists>c. sys_conns s i = Some c \<and> ''news'' \<in> set (ss_channels (cn_session c))}"
    by (simp add: Let_def)
  moreover have "{i. \<exists>c. sys_conns s i = Some c \<and> ''news'' \<in> set (ss_channels (cn_session c))} = {0}"
    using s(3,4) by auto
  ultimately have "n = 1" by simp
  with p s(2) show ?thesis by blast
qed

section \<open>The end of an EXEC\<close>

text \<open>Connection \<open>i\<close> takes the next request: all at once, or as the start of an EXEC.\<close>

inductive takes :: "libs \<Rightarrow> nat \<Rightarrow> string list \<Rightarrow> system \<Rightarrow> system \<Rightarrow> bool" for lib i tokens where
  at_once:
    "sys_conns s i = Some c \<Longrightarrow> cn_running c = None \<Longrightarrow> starts_exec (cn_session c) tokens = None \<Longrightarrow>
     ev_open_boxes ev = dom (sys_conns s) \<Longrightarrow>
     handle lib (\<lambda>_. ev) tokens (cn_session c) (sys_db s) = (r, ss', db') \<Longrightarrow>
     takes lib i tokens s (s\<lparr>sys_db := db',
       sys_conns := (sys_conns s)(i \<mapsto> c\<lparr>cn_session := ss', cn_out := cn_out c @ r\<rparr>)\<rparr>)"
| exec_starts:
    "sys_conns s i = Some c \<Longrightarrow> cn_running c = None \<Longrightarrow>
     starts_exec (cn_session c) tokens = Some cmds \<Longrightarrow>
     takes lib i tokens s (s\<lparr>sys_conns := (sys_conns s)(i \<mapsto>
       c\<lparr>cn_session := (cn_session c)\<lparr>ss_transaction := None\<rparr>,
         cn_running := Some (cmds, ''*'' @ show_nat (length cmds) @ crlf)\<rparr>)\<rparr>)"

lemma takes_step: "takes lib i tokens s s' \<Longrightarrow> sys_step lib s s'"
  by (auto elim!: takes.cases intro: sys_step.request sys_step.exec_start)

text \<open>A queue run between two moments of a run: each command in a step of its own, one after the other.\<close>

inductive queue_ran ::
    "libs \<Rightarrow> (nat \<Rightarrow> system) \<Rightarrow> nat \<Rightarrow> string list list \<Rightarrow> string list \<Rightarrow> nat \<Rightarrow> bool" for lib f where
  queue_end: "n < m \<Longrightarrow> queue_ran lib f n [] [] m"
| queue_next:
    "n \<le> t \<Longrightarrow> ev_open_boxes ev = dom (sys_conns (f t)) \<Longrightarrow>
     dispatch lib ev cmd (sys_db (f t)) = (r, sys_db (f (Suc t))) \<Longrightarrow>
     queue_ran lib f (Suc t) cmds rs m \<Longrightarrow> queue_ran lib f n (cmd # cmds) (r # rs) m"

inductive_cases queue_ran_Nil: "queue_ran lib f n [] rs m"
inductive_cases queue_ran_Cons: "queue_ran lib f n (cmd # cmds) rs m"

lemma queue_ran_length: "queue_ran lib f n cmds rs m \<Longrightarrow> length rs = length cmds"
  by (induction rule: queue_ran.induct) simp_all

text \<open>The scheduler does not leave a connection in the middle of an EXEC for ever.\<close>

definition fair_to :: "nat \<Rightarrow> (nat \<Rightarrow> system) \<Rightarrow> bool" where
  "fair_to i f \<longleftrightarrow>
     (\<forall>n c work. sys_conns (f n) i = Some c \<and> cn_running c = Some work \<longrightarrow>
        (\<exists>m\<ge>n. sys_conns (f (Suc m)) i \<noteq> sys_conns (f m) i))"

lemma seen_step:
  "sys_step lib s s' \<Longrightarrow> (\<forall>i. sys_conns s i \<noteq> None \<longrightarrow> i < sys_seen s) \<Longrightarrow>
     (\<forall>i. sys_conns s' i \<noteq> None \<longrightarrow> i < sys_seen s')"
  by (erule sys_step_cases) (auto simp: less_Suc_eq)

lemma reachable_seen: "reachable lib s \<Longrightarrow> \<forall>i. sys_conns s i \<noteq> None \<longrightarrow> i < sys_seen s"
proof (induction rule: reachable.induct)
  case (start s)
  then show ?case by (simp add: sys_start_def)
next
  case (step s s')
  then show ?case using seen_step by blast
qed

text \<open>What may happen to a connection in the middle of an EXEC in one step of the server.\<close>

lemma running_step:
  assumes "sys_step lib s s'" "\<forall>i. sys_conns s i \<noteq> None \<longrightarrow> i < sys_seen s"
    and "sys_conns s i = Some c" "cn_running c = Some (cmds, reply)" "sys_conns s' i \<noteq> sys_conns s i"
  shows "(\<exists>cmd cmds' ev r. cmds = cmd # cmds' \<and> ev_open_boxes ev = dom (sys_conns s) \<and>
            dispatch lib ev cmd (sys_db s) = (r, sys_db s') \<and>
            sys_conns s' i = Some (c\<lparr>cn_running := Some (cmds', reply @ r)\<rparr>)) \<or>
         (cmds = [] \<and> sys_conns s' i = Some (c\<lparr>cn_running := None, cn_out := cn_out c @ reply\<rparr>))"
  using assms(1)
proof (cases rule: sys_step.cases)
  case connect
  then show ?thesis using assms(2,3,5) by (auto split: if_splits)
next
  case exec_next
  then show ?thesis using assms(3-5) by (auto split: if_splits)
next
  case exec_done
  then show ?thesis using assms(3-5) by (auto split: if_splits)
qed (use assms(3-5) in \<open>auto split: if_splits\<close>)

lemma run_seen:
  assumes "reachable lib (f 0)" "\<And>n. sys_step lib (f n) (f (Suc n))"
  shows "\<forall>j. sys_conns (f n) j \<noteq> None \<longrightarrow> j < sys_seen (f n)"
proof (induction n)
  case 0
  show ?case by (rule reachable_seen [OF assms(1)])
next
  case (Suc n)
  then show ?case using seen_step [OF assms(2)] by blast
qed

lemma next_move:
  assumes "fair_to i f" "sys_conns (f n) i = Some c" "cn_running c = Some work"
  obtains t where "n \<le> t" "sys_conns (f t) i = Some c" "sys_conns (f (Suc t)) i \<noteq> sys_conns (f t) i"
proof -
  let ?moves = "\<lambda>t. n \<le> t \<and> sys_conns (f (Suc t)) i \<noteq> sys_conns (f t) i"
  let ?t = "LEAST t. ?moves t"
  have "\<exists>t. ?moves t" using assms unfolding fair_to_def by blast
  then have t: "?moves ?t" by (rule LeastI_ex)
  have "n + k \<le> ?t \<Longrightarrow> sys_conns (f (n + k)) i = Some c" for k
  proof (induction k)
    case (Suc k)
    then show ?case using not_less_Least [of "n + k" ?moves] by auto
  qed (simp add: assms(2))
  from this [of "?t - n"] t show thesis by (intro that [of ?t]) auto
qed

lemma queue_finishes:
  assumes "reachable lib (f 0)" "\<And>n. sys_step lib (f n) (f (Suc n))" "fair_to i f"
  shows "sys_conns (f n) i = Some c \<Longrightarrow> cn_running c = Some (cmds, reply) \<Longrightarrow>
     \<exists>rs m. queue_ran lib f n cmds rs m \<and>
       sys_conns (f m) i = Some (c\<lparr>cn_running := None, cn_out := cn_out c @ reply @ concat rs\<rparr>)"
proof (induction cmds arbitrary: n c reply)
  case Nil
  obtain t where t: "n \<le> t" "sys_conns (f t) i = Some c" "sys_conns (f (Suc t)) i \<noteq> sys_conns (f t) i"
    by (rule next_move [OF assms(3) Nil])
  from running_step [OF assms(2) run_seen [OF assms(1,2)] t(2) Nil(2) t(3)] t(1)
  show ?case by (intro exI [of _ "[]"] exI [of _ "Suc t"]) (auto intro: queue_end)
next
  case (Cons cmd cmds)
  obtain t where t: "n \<le> t" "sys_conns (f t) i = Some c" "sys_conns (f (Suc t)) i \<noteq> sys_conns (f t) i"
    by (rule next_move [OF assms(3) Cons.prems])
  from running_step [OF assms(2) run_seen [OF assms(1,2)] t(2) Cons.prems(2) t(3)]
  obtain ev r where r: "ev_open_boxes ev = dom (sys_conns (f t))"
    "dispatch lib ev cmd (sys_db (f t)) = (r, sys_db (f (Suc t)))"
    "sys_conns (f (Suc t)) i = Some (c\<lparr>cn_running := Some (cmds, reply @ r)\<rparr>)" by auto
  from Cons.IH [OF r(3)] obtain rs m where rest: "queue_ran lib f (Suc t) cmds rs m"
    "sys_conns (f m) i = Some (c\<lparr>cn_running := None, cn_out := cn_out c @ (reply @ r) @ concat rs\<rparr>)" by auto
  with queue_next [OF t(1) r(1,2) rest(1)] show ?case
    by (intro exI [of _ "r # rs"] exI [of _ m]) simp
qed

lemma exec_request:
  assumes "tokens \<noteq> []" "to_ascii_uppercase (hd tokens) = ''EXEC''" "\<not> is_subscribed ss"
    and "ss_transaction ss = Some tx"
  shows "starts_exec ss tokens = (if tx_dirty tx then None else Some (tx_commands tx))"
    and "handle lib evs tokens ss db = exec lib evs ss db"
proof -
  show "starts_exec ss tokens = (if tx_dirty tx then None else Some (tx_commands tx))"
    using assms by (simp add: starts_exec_def)
  obtain first args where t: "tokens = first # args" using assms(1) by (cases tokens) auto
  show "handle lib evs tokens ss db = exec lib evs ss db"
    using assms(2,3) by (simp add: t handle_def)
qed

text \<open>C37: an EXEC comes to its end.  In any run of the server from a reachable state in which the scheduler
  does not leave the connection for ever, an EXEC of an open transaction is answered: one with an
  error at once, with EXECABORT and nothing run; one without by running each queued command in a
  step of its own, in order, whatever the other connections do in between, until the connection
  has written the array of exactly the replies of those steps.  Either way the transaction is closed.\<close>

theorem exec_runs_to_completion:
  assumes "reachable lib (f 0)" "\<And>n. sys_step lib (f n) (f (Suc n))" "fair_to i f"
    and "takes lib i tokens (f 0) (f 1)" "tokens \<noteq> []" "to_ascii_uppercase (hd tokens) = ''EXEC''"
    and "sys_conns (f 0) i = Some c" "\<not> is_subscribed (cn_session c)"
    and "ss_transaction (cn_session c) = Some tx"
  shows "let closed = (cn_session c)\<lparr>ss_transaction := None\<rparr> in
         if tx_dirty tx
         then sys_db (f 1) = sys_db (f 0) \<and>
              sys_conns (f 1) i = Some (c\<lparr>cn_session := closed, cn_out := cn_out c @
                resp_error ''EXECABORT Transaction discarded because of previous errors.''\<rparr>)
         else \<exists>rs m. queue_ran lib f 1 (tx_commands tx) rs m \<and>
                sys_conns (f m) i = Some (c\<lparr>cn_session := closed, cn_out := cn_out c @
                  ''*'' @ show_nat (length rs) @ crlf @ concat rs\<rparr>)"
proof (cases "tx_dirty tx")
  case True
  have "handle lib evs tokens (cn_session c) db = (resp_error
      ''EXECABORT Transaction discarded because of previous errors.'', (cn_session c)\<lparr>ss_transaction := None\<rparr>, db)"
    for evs db unfolding exec_request(2) [OF assms(5,6,8,9)] using True by (simp add: exec_def assms(9))
  with assms(4) show ?thesis using assms(7) True exec_request(1) [OF assms(5,6,8,9)]
    by (auto elim!: takes.cases)
next
  case False
  let ?h = "''*'' @ show_nat (length (tx_commands tx)) @ crlf"
  let ?c = "c\<lparr>cn_session := (cn_session c)\<lparr>ss_transaction := None\<rparr>, cn_running := Some (tx_commands tx, ?h)\<rparr>"
  have idle: "cn_running c = None" and c: "sys_conns (f 1) i = Some ?c"
    using assms(4,7) False exec_request(1) [OF assms(5,6,8,9)] by (auto elim!: takes.cases)
  from queue_finishes [OF assms(1-3) c] obtain rs m where q: "queue_ran lib f 1 (tx_commands tx) rs m"
    "sys_conns (f m) i = Some (?c\<lparr>cn_running := None, cn_out := cn_out c @ ?h @ concat rs\<rparr>)" by auto
  with queue_ran_length [OF q(1)] False idle show ?thesis
    by (auto simp: Let_def intro!: exI [of _ rs] exI [of _ m])
qed

text \<open>A reachable server whose only connection has queued one GET.\<close>

definition queued_connection :: connection where
  "queued_connection =
     \<lparr>cn_session = sample_session (Some \<lparr>tx_commands = [[''GET'', ''q'']], tx_dirty = False\<rparr>) [],
       cn_running = None, cn_out = simple_string ''OK'' @ simple_string ''QUEUED''\<rparr>"

lemma queued_reachable:
  obtains db where "reachable sample_libs \<lparr>sys_db = db, sys_conns = [0 \<mapsto> queued_connection], sys_seen = 1\<rparr>"
    "db_store db = sample_store"
proof -
  obtain n db1 where n: "client_connected (sys_db idle_system) = (n, db1)" by fastforce
  obtain ss db2 where ss: "session_new (sys_seen idle_system) db1 = (ss, db2)" by fastforce
  have fresh: "ss = sample_session None []" "db_store db2 = sample_store"
    using n ss by (auto simp: session_new_def next_subscriber_id_def client_connected_def idle_system_def
        case_prod_unfold sample_session_def sample_database_def database_new_def pubsub_new_def
        ps_fresh_id_def Let_def)
  let ?c = "\<lambda>tx out. \<lparr>cn_session = sample_session tx [], cn_running = None, cn_out = out\<rparr>"
  let ?s = "\<lambda>tx out. \<lparr>sys_db = db2, sys_conns = [0 \<mapsto> ?c tx out], sys_seen = 1\<rparr>"
  let ?ev = "(sample_env 0)\<lparr>ev_open_boxes := {0}\<rparr>"
  let ?open = "\<lambda>cmds. Some \<lparr>tx_commands = cmds, tx_dirty = False\<rparr>"
  have one: "reachable sample_libs (?s None [])"
    using reachable.step [OF idle_reachable sys_step.connect [OF n ss]]
    by (simp add: idle_system_def fresh(1))
  have turn: "sys_step sample_libs (?s tx out) (?s tx' (out @ r))"
    if "starts_exec (sample_session tx []) tokens = None"
      "handle sample_libs (\<lambda>_. ?ev) tokens (sample_session tx []) db2 = (r, sample_session tx' [], db2)"
    for tokens tx tx' out r
    using sys_step.request [of "?s tx out" 0 "?c tx out" tokens ?ev sample_libs r "sample_session tx' []" db2] that
    by simp
  have multi: "sys_step sample_libs (?s None []) (?s (?open []) ([] @ simple_string ''OK''))"
    by (rule turn [of _ "[''multi'']"])
      (simp_all add: starts_exec_def multi_upper handle_def begin_multi_def is_subscribed_def sample_session_def)
  have get: "sys_step sample_libs (?s (?open []) ([] @ simple_string ''OK''))
      (?s (?open [[''GET'', ''q'']]) (([] @ simple_string ''OK'') @ simple_string ''QUEUED''))"
    by (rule turn [of _ "[''GET'', ''q'']"])
      (simp_all add: starts_exec_def multi_upper handle_def enqueue_def parse_get is_subscribed_def sample_session_def)
  show thesis
    using reachable.step [OF reachable.step [OF one multi] get] fresh(2)
    by (intro that [of db2]) (simp_all add: queued_connection_def)
qed

lemma get_missing:
  "db_store db = sample_store \<Longrightarrow> dispatch lib ev [''GET'', ''q''] db = (resp_null, db)"
  by (cases db) (simp add: dispatch_simps(4) [OF parse_get] dispatch_command_def run_eq db_get_def
      read_entry_def sample_store_def reply_optional_def on_store_def)

lemma sweep_sample: "db_store db = sample_store \<Longrightarrow> snd (sweep (sample_env 0) db) = db"
  by (cases db) (simp add: sweep_def on_store_def db_sweep_expired_def sample_store_def is_expired_def sample_env_def)

text \<open>Its EXEC, with nothing but sweeps after it.\<close>

fun exec_run :: "database \<Rightarrow> nat \<Rightarrow> connection" where
  "exec_run db 0 = queued_connection"
| "exec_run db (Suc 0) = queued_connection\<lparr>cn_session := sample_session None [],
     cn_running := Some ([[''GET'', ''q'']], ''*'' @ show_nat (length [[''GET'', ''q'']]) @ crlf)\<rparr>"
| "exec_run db (Suc (Suc 0)) = queued_connection\<lparr>cn_session := sample_session None [],
     cn_running := Some ([], (''*'' @ show_nat (length [[''GET'', ''q'']]) @ crlf) @ resp_null)\<rparr>"
| "exec_run db n = queued_connection\<lparr>cn_session := sample_session None [],
     cn_out := cn_out queued_connection @ (''*'' @ show_nat (length [[''GET'', ''q'']]) @ crlf) @ resp_null\<rparr>"

abbreviation exec_system :: "database \<Rightarrow> nat \<Rightarrow> system" where
  "exec_system db n \<equiv> \<lparr>sys_db = db, sys_conns = [0 \<mapsto> exec_run db n], sys_seen = 1\<rparr>"

lemma exec_upper: "to_ascii_uppercase ''exec'' = ''EXEC''" "show_nat (Suc 0) = ''1''"
  by code_simp+

lemma exec_run_takes: "takes sample_libs 0 [''exec''] (exec_system db 0) (exec_system db 1)"
proof -
  have "starts_exec (cn_session queued_connection) [''exec''] = Some [[''GET'', ''q'']]"
    by (simp add: starts_exec_def exec_upper is_subscribed_def queued_connection_def sample_session_def)
  then show ?thesis
    using takes.exec_starts [of "exec_system db 0" 0 queued_connection "[''exec'']" "[[''GET'', ''q'']]" sample_libs]
    by (simp add: queued_connection_def sample_session_def)
qed

lemma exec_run_steps:
  assumes db: "db_store db = sample_store"
  shows "sys_step sample_libs (exec_system db n) (exec_system db (Suc n))"
proof -
  let ?ev = "(sample_env 0)\<lparr>ev_open_boxes := {0}\<rparr>"
  have "sys_step sample_libs (exec_system db 1) (exec_system db 2)"
    using sys_step.exec_next [of "exec_system db 1" 0 "exec_run db 1" "[''GET'', ''q'']" "[]" _ ?ev sample_libs
        resp_null db] by (simp add: numeral_2_eq_2 get_missing [OF db])
  moreover have "sys_step sample_libs (exec_system db 2) (exec_system db 3)"
    using sys_step.exec_done [of "exec_system db 2" 0 "exec_run db 2" _ sample_libs]
    by (simp add: numeral_2_eq_2 numeral_3_eq_3 queued_connection_def)
  moreover have "sys_step sample_libs s (s\<lparr>sys_db := snd (sweep (sample_env 0) (sys_db s))\<rparr>)" for s
    by (rule sys_step.sweep_step)
  from this [of "exec_system db n"] have "sys_step sample_libs (exec_system db n) (exec_system db n)"
    by (simp add: sweep_sample [OF db])
  ultimately show ?thesis
    using takes_step [OF exec_run_takes [of db]]
    by (cases "(db, n)" rule: exec_run.cases) (simp_all add: numeral_2_eq_2 numeral_3_eq_3)
qed

lemma exec_run_fair: "fair_to 0 (exec_system db)"
  unfolding fair_to_def
proof (intro allI impI)
  fix n c work
  assume "sys_conns (exec_system db n) 0 = Some c \<and> cn_running c = Some work"
  then have "exec_run db (Suc n) \<noteq> exec_run db n"
    by (cases "(db, n)" rule: exec_run.cases) (auto simp: queued_connection_def)
  then show "\<exists>m\<ge>n. sys_conns (exec_system db (Suc m)) 0 \<noteq> sys_conns (exec_system db m) 0" by auto
qed

lemma exec_runs_to_completion_witness:
  "\<exists>(f :: nat \<Rightarrow> system) m c. (\<forall>n. sys_step sample_libs (f n) (f (Suc n))) \<and> sys_conns (f m) 0 = Some c \<and>
     cn_out c = simple_string ''OK'' @ simple_string ''QUEUED'' @ ''*1'' @ crlf @ resp_null \<and>
     ss_transaction (cn_session c) = None"
proof -
  obtain db where reach: "reachable sample_libs (exec_system db 0)"
    and db: "db_store db = sample_store" using queued_reachable by (metis exec_run.simps(1))
  let ?f = "exec_system db" and ?q = "[[''GET'', ''q'']]"
  have "\<exists>rs m. queue_ran sample_libs ?f 1 ?q rs m \<and>
      sys_conns (?f m) 0 = Some (queued_connection\<lparr>cn_session := sample_session None [],
        cn_out := cn_out queued_connection @ ''*'' @ show_nat (length rs) @ crlf @ concat rs\<rparr>)"
    using exec_runs_to_completion [of sample_libs ?f 0 "[''exec'']" queued_connection
        "\<lparr>tx_commands = ?q, tx_dirty = False\<rparr>"] reach exec_run_steps [OF db] exec_run_fair exec_run_takes exec_upper(1)
    by (simp add: is_subscribed_def queued_connection_def sample_session_def Let_def)
  then obtain rs m where q: "queue_ran sample_libs ?f 1 ?q rs m"
    and m: "sys_conns (?f m) 0 = Some (queued_connection\<lparr>cn_session := sample_session None [],
      cn_out := cn_out queued_connection @ ''*'' @ show_nat (length rs) @ crlf @ concat rs\<rparr>)" by blast
  from q have "rs = [resp_null]"
    by (auto elim!: queue_ran_Cons queue_ran_Nil simp: get_missing [OF db])
  with m exec_run_steps [OF db] exec_upper(2) show ?thesis
    by (intro exI [of _ ?f] exI [of _ m]) (simp add: queued_connection_def sample_session_def)
qed

end
