(* ===== verification/Log_Limits.thy ===== *)
theory Log_Limits
  imports Recovery
begin

text \<open>
  Where the log does not restore the keyspace.  Recovery keeps a torn tail in the file and
  appends behind it, so the next restart reads the tail and the new entry as one; an entry that
  was logged because a key had expired replays against a key whose deadline was re-based; and
  an inline request may be larger than the limits that the replay of its entry enforces.
\<close>

section \<open>Appending behind a torn tail\<close>

definition torn_set :: string where
  "torn_set = ''*3'' @ crlf @ ''$3'' @ crlf @ ''SET'' @ crlf @ ''$2'' @ crlf @ ''k2'' @ crlf @
              ''$5'' @ crlf @ ''val''"

definition next_set :: "string list" where
  "next_set = [''SET'', ''k3'', ''v3'']"

lemma torn_set_tail: "torn_tail torn_set"
proof -
  have "resp_array [''SET'', ''k2'', ''value''] = torn_set @ (''ue'' @ crlf)" by code_simp
  moreover have "\<forall>t \<in> {''SET'', ''k2'', ''value''}. utf8 t" by code_simp
  ultimately show ?thesis
    unfolding torn_tail_def
    by (intro disjI2 exI [of _ "[''SET'', ''k2'', ''value'']"] exI [of _ "''ue'' @ crlf"])
      (simp add: request_ok_def token_ok_def MAX_MULTIBULK_def MAX_BULK_BYTES_def)
qed

text \<open>What follows the five bytes that the torn value takes from the next entry.\<close>

definition leftover :: string where
  "leftover = ''$3'' @ crlf @ ''SET'' @ crlf @ ''$2'' @ crlf @ ''k3'' @ crlf @ ''$2'' @ crlf @ ''v3'' @ crlf"

lemma show_nat_digit: "n < 10 \<Longrightarrow> show_nat n = [digit_char n]"
  by (subst show_nat.simps) simp

lemma digit_chars:
  "digit_char 2 = CHR ''2''" "digit_char 3 = CHR ''3''" "digit_char (Suc (Suc 0)) = CHR ''2''"
  "digit_char (Suc (Suc (Suc 0))) = CHR ''3''" "digit_char (Suc (Suc (Suc (Suc (Suc 0))))) = CHR ''5''"
  by code_simp+

lemma torn_then_next:
  "torn_set @ resp_array next_set =
     header CHR ''*'' 3 @ bulk_string ''SET'' @ bulk_string ''k2'' @ bulk_string ''val*3'' @ leftover"
  by (simp add: torn_set_def next_set_def leftover_def header_def bulk_string_def
      resp_array_concat show_nat_digit digit_chars)

lemma torn_reads:
  "read_request (torn_set @ resp_array next_set) =
     Inr (Some ([''SET'', ''k2'', ''val*3''], leftover))"
proof -
  have u: "utf8 ''SET''" "utf8 ''k2''" "utf8 ''val*3''" by code_simp+
  have "\<forall>t \<in> set [''SET'', ''k2'', ''val*3'']. token_ok t"
    using u by (simp add: token_ok_def MAX_BULK_BYTES_def)
  moreover have "length [''SET'', ''k2'', ''val*3''] = 3" by simp
  ultimately have "read_bulks 3 (concat (map bulk_string [''SET'', ''k2'', ''val*3'']) @ leftover) =
      Inr ([''SET'', ''k2'', ''val*3''], leftover)"
    using read_bulks_roundtrip by metis
  then show ?thesis
    unfolding torn_then_next by (subst read_request_header) (simp_all add: MAX_MULTIBULK_def)
qed

text \<open>An inline request line.\<close>

lemma read_request_inline:
  assumes "LF \<notin> set l" "utf8 (l @ [LF])" "strip_prefix_char CHR ''*'' (trim_end (l @ [LF])) = None"
  shows "read_request (l @ LF # rest) = Inr (Some (split_whitespace (trim_end (l @ [LF])), rest))"
  using take_line_LF [OF assms(1), of rest] assms(2,3)
  by (simp add: read_request_def read_line_def Let_def)

lemma leftover_lines:
  "leftover = (''$3'' @ [CR]) @ LF # (''SET'' @ [CR]) @ LF # (''$2'' @ [CR]) @ LF #
     (''k3'' @ [CR]) @ LF # (''$2'' @ [CR]) @ LF # (''v3'' @ [CR]) @ LF # []"
  by (simp add: leftover_def)

definition inline_line :: "string \<Rightarrow> bool" where
  "inline_line w \<longleftrightarrow>
     LF \<notin> set (w @ [CR]) \<and> utf8 (w @ crlf) \<and> strip_prefix_char CHR ''*'' (trim_end (w @ crlf)) = None \<and>
     split_whitespace (trim_end (w @ crlf)) = [w]"

lemma read_inline_line:
  "inline_line w \<Longrightarrow> read_request ((w @ [CR]) @ LF # rest) = Inr (Some ([w], rest))"
  using read_request_inline [of "w @ [CR]" rest] by (simp add: inline_line_def)

lemma leftover_words:
  "inline_line ''$3''" "inline_line ''SET''" "inline_line ''$2''" "inline_line ''k3''" "inline_line ''v3''"
  by code_simp+

lemma leftover_errors:
  "\<exists>err. parse [''$3''] = Inl err" "\<exists>err. parse [''SET''] = Inl err" "\<exists>err. parse [''$2''] = Inl err"
  "\<exists>err. parse [''k3''] = Inl err" "\<exists>err. parse [''v3''] = Inl err"
proof -
  have "map to_ascii_uppercase [''$3'', ''SET'', ''$2'', ''k3'', ''v3''] =
      [''$3'', ''SET'', ''$2'', ''K3'', ''V3'']" by code_simp
  then show "\<exists>err. parse [''$3''] = Inl err" "\<exists>err. parse [''SET''] = Inl err"
      "\<exists>err. parse [''$2''] = Inl err" "\<exists>err. parse [''k3''] = Inl err" "\<exists>err. parse [''v3''] = Inl err"
    by (simp_all add: parse_def parse_basic_def parse_zset_hash_def parse_generic_def
        parse_string_def parse_rest_def arity_def)
qed

lemma replay_error_request:
  assumes "read_request s = Inr (Some (ts, rest))" "\<exists>err. parse ts = Inl err" "ts \<noteq> []"
  shows "replay_loop lib evs i s db = replay_loop lib evs (i + 1) rest db"
  using assms by (subst replay_loop.simps) (auto simp: dispatch_simps)

lemma replay_inline_error:
  "inline_line w \<Longrightarrow> \<exists>err. parse [w] = Inl err \<Longrightarrow>
     replay_loop lib evs i ((w @ [CR]) @ LF # rest) db = replay_loop lib evs (i + 1) rest db"
  by (rule replay_error_request [OF read_inline_line]) simp_all

lemmas skip_leftover = replay_inline_error [OF leftover_words(1) leftover_errors(1)]
  replay_inline_error [OF leftover_words(2) leftover_errors(2)]
  replay_inline_error [OF leftover_words(3) leftover_errors(3)]
  replay_inline_error [OF leftover_words(4) leftover_errors(4)]
  replay_inline_error [OF leftover_words(5) leftover_errors(5)]

lemma replay_leftover: "snd (replay_loop lib evs i leftover db) = db"
  unfolding leftover_lines by (simp only: skip_leftover replay_loop_Nil snd_conv)

lemma parse_set2: "parse [''SET'', k, v] = Inr (CSet k v None)"
proof -
  have "to_ascii_uppercase ''SET'' = ''SET''" by code_simp
  then show ?thesis by (simp add: parse_def parse_basic_def)
qed

lemma dispatch_set2_store:
  "db_store (snd (dispatch lib ev [''SET'', k, v] db)) =
     hm_insert k \<lparr>en_value = VStr v, en_expires_at = None\<rparr> (db_store db)"
  by (simp add: dispatch_execute(2) [OF parse_set2] run_eq db_set_def)

lemma replay_torn_then_next:
  "hm_get (db_store (snd (replay_loop lib evs i (torn_set @ resp_array next_set) db))) =
     (hm_get (db_store db))(''k2'' \<mapsto> \<lparr>en_value = VStr ''val*3'', en_expires_at = None\<rparr>)"
  by (subst replay_loop.simps)
    (simp add: torn_reads replay_leftover dispatch_set2_store fun_eq_iff)

text \<open>A start in append-only mode, other settings at their defaults, on a log with these bytes.\<close>

definition restart :: "libs \<Rightarrow> (nat \<Rightarrow> env) \<Rightarrow> string \<Rightarrow> database" where
  "restart lib evs bytes =
     (case init_persistence lib evs (default_config\<lparr>cf_appendonly := True\<rparr>)
             (good_disk None (Some bytes)) of
        Inr (db, _) \<Rightarrow> db
      | Inl _ \<Rightarrow> database_new 0)"

lemma dispatch_keeps_aof:
  "db_replaying db \<Longrightarrow> db_aof (snd (dispatch lib ev ts db)) = db_aof db"
  by (cases ts rule: dispatch_cases)
    (auto simp: dispatch_simps dispatch_spop_def dispatch_command_def case_prod_unfold on_store_eq
      log_write_def split: sum.splits option.splits)

lemma replay_loop_keeps_aof:
  "db_replaying db \<Longrightarrow> db_aof (snd (replay_loop lib evs i s db)) = db_aof db"
proof (induction lib evs i s db rule: replay_loop.induct)
  case (1 lib evs i s db)
  then show ?case
    by (subst replay_loop.simps)
      (auto simp: dispatch_keeps_aof split: sum.splits option.splits)
qed

lemma restart_replays:
  obtains db0 where "db_store db0 = []"
    "db_store (restart lib evs bytes) = db_store (snd (replay_loop lib evs 0 bytes db0))"
    "db_aof (restart lib evs bytes) = Some bytes" "\<not> db_replaying (restart lib evs bytes)"
proof -
  let ?cf = "default_config\<lparr>cf_appendonly := True\<rparr>"
  let ?dk = "good_disk None (Some bytes)"
  let ?db0 = "begin_replay (fresh_database (evs 0) ?cf ?dk bytes)"
  have "fsync_policy_from_str ''everysec'' = Inr FsyncEverySec" by code_simp
  then have "init_persistence lib evs ?cf ?dk =
      Inr (end_replay (snd (replay_loop lib evs 0 bytes ?db0)), Some FsyncEverySec)"
    by (intro init_append_only) (simp_all add: default_config_def)
  then have r: "restart lib evs bytes = end_replay (snd (replay_loop lib evs 0 bytes ?db0))"
    by (simp add: restart_def)
  have "db_replaying ?db0" "db_aof ?db0 = Some bytes" by (simp_all add: begin_replay_def)
  then have "db_aof (restart lib evs bytes) = Some bytes"
    using replay_loop_keeps_aof [of ?db0 lib evs 0 bytes] r by (simp add: end_replay_def)
  then show thesis using that [of ?db0] r by simp
qed

lemma first_set_ok: "log_ok [[''SET'', ''k1'', ''v1'']]"
proof -
  have "utf8 ''SET''" "utf8 ''k1''" "utf8 ''v1''" by code_simp+
  then show ?thesis
    by (simp add: request_ok_def token_ok_def MAX_BULK_BYTES_def MAX_MULTIBULK_def)
qed

lemma keyspace_after_torn_restart:
  "hm_get (db_store (restart lib evs (log_bytes [[''SET'', ''k1'', ''v1'']] @ torn_set))) =
     [''k1'' \<mapsto> \<lparr>en_value = VStr ''v1'', en_expires_at = None\<rparr>]"
proof -
  obtain db0 where "db_store db0 = []"
    "db_store (restart lib evs (log_bytes [[''SET'', ''k1'', ''v1'']] @ torn_set)) =
       db_store (snd (replay_loop lib evs 0 (log_bytes [[''SET'', ''k1'', ''v1'']] @ torn_set) db0))"
    by (rule restart_replays)
  then show ?thesis
    by (simp only: replay_log_torn [OF first_set_ok torn_set_tail] run_log.simps snd_conv
        dispatch_set2_store) (simp add: fun_eq_iff)
qed

lemma keyspace_after_second_restart:
  "hm_get (db_store (restart lib evs
      (log_bytes [[''SET'', ''k1'', ''v1'']] @ torn_set @ resp_array next_set))) =
     [''k1'' \<mapsto> \<lparr>en_value = VStr ''v1'', en_expires_at = None\<rparr>,
      ''k2'' \<mapsto> \<lparr>en_value = VStr ''val*3'', en_expires_at = None\<rparr>]"
proof -
  let ?b = "log_bytes [[''SET'', ''k1'', ''v1'']] @ torn_set @ resp_array next_set"
  obtain db0 where db0: "db_store db0 = []"
    "db_store (restart lib evs ?b) = db_store (snd (replay_loop lib evs 0 ?b db0))"
    by (rule restart_replays)
  then have "hm_get (db_store (restart lib evs ?b)) =
      (hm_get (db_store (snd (dispatch lib (evs 0) [''SET'', ''k1'', ''v1''] db0))))
        (''k2'' \<mapsto> \<lparr>en_value = VStr ''val*3'', en_expires_at = None\<rparr>)"
    by (simp only: replay_loop_log [OF first_set_ok] run_log.simps replay_torn_then_next)
  then show ?thesis using db0(1) by (simp add: dispatch_set2_store fun_eq_iff)
qed

text \<open>C9: a write that is acknowledged and logged after a recovery from a torn log is lost by the
  next restart, which brings back a value that no client ever wrote: the torn entry and the new
  one are read as one.\<close>

theorem write_after_torn_recovery_is_lost:
  "let db = restart lib evs (log_bytes [[''SET'', ''k1'', ''v1'']] @ torn_set);
       (reply, db') = dispatch lib (ev\<lparr>ev_append_failure := None\<rparr>) next_set db;
       db'' = restart lib evs' (the (db_aof db'))
   in reply = simple_string ''OK'' \<and>
      hm_get (db_store db') ''k3'' = Some \<lparr>en_value = VStr ''v3'', en_expires_at = None\<rparr> \<and>
      hm_get (db_store db'') ''k3'' = None \<and>
      hm_get (db_store db') ''k2'' = None \<and>
      hm_get (db_store db'') ''k2'' = Some \<lparr>en_value = VStr ''val*3'', en_expires_at = None\<rparr>"
proof -
  let ?b = "log_bytes [[''SET'', ''k1'', ''v1'']] @ torn_set"
  let ?ev = "ev\<lparr>ev_append_failure := None\<rparr>"
  define db where "db = restart lib evs ?b"
  have k: "hm_get (db_store db) = [''k1'' \<mapsto> \<lparr>en_value = VStr ''v1'', en_expires_at = None\<rparr>]"
    by (simp only: db_def keyspace_after_torn_restart)
  have "db_aof db = Some ?b" "\<not> db_replaying db"
    unfolding db_def by (rule restart_replays [of lib evs ?b], assumption)+
  then have "logging ?ev db ?b" by (simp only: logging_def) simp
  then have "db_aof (snd (dispatch lib ?ev next_set db)) =
      Some (?b @ log_bytes (logged lib ?ev next_set db))"
    by (rule dispatch_aof)
  moreover have reply: "fst (dispatch lib ?ev next_set db) = simple_string ''OK''"
    by (simp add: next_set_def dispatch_execute(1) [OF parse_set2] run_eq)
  moreover have "logged lib ?ev next_set db = [next_set]"
    using reply by (simp add: logged_def next_set_def parse_set2)
  ultimately have aof: "the (db_aof (snd (dispatch lib ?ev next_set db))) =
      ?b @ resp_array next_set" by simp
  have "hm_get (db_store (restart lib evs' (the (db_aof (snd (dispatch lib ?ev next_set db)))))) =
      [''k1'' \<mapsto> \<lparr>en_value = VStr ''v1'', en_expires_at = None\<rparr>,
       ''k2'' \<mapsto> \<lparr>en_value = VStr ''val*3'', en_expires_at = None\<rparr>]"
    unfolding aof append_assoc by (rule keyspace_after_second_restart)
  then show ?thesis
    unfolding Let_def case_prod_unfold db_def [symmetric]
    using reply by (simp only: next_set_def dispatch_set2_store) (simp add: k)
qed

section \<open>Replaying a write that an expiry made possible\<close>

definition set_with_ttl :: "string list" where
  "set_with_ttl = [''SET'', ''k'', ''old'', ''EX'', ''1'']"

definition set_if_absent :: "string list" where
  "set_if_absent = [''SETNX'', ''k'', ''new'']"

lemma parse_ttl_requests:
  "parse set_with_ttl = Inr (CSet ''k'' ''old'' (Some 1))"
  "parse set_if_absent = Inr (CSetNx ''k'' ''new'')"
proof -
  have "to_ascii_uppercase ''SET'' = ''SET''" "to_ascii_uppercase ''SETNX'' = ''SETNX''"
    "eq_ignore_ascii_case ''EX'' ''EX''" by code_simp+
  moreover have "parse_u64_arg ''1'' = Inr 1"
    by (simp add: parse_u64_arg_def parse_u64_def in_u64_def is_digit_iff digit_val_def)
  ultimately show "parse set_with_ttl = Inr (CSet ''k'' ''old'' (Some 1))"
    and "parse set_if_absent = Inr (CSetNx ''k'' ''new'')"
    by (simp_all add: set_with_ttl_def set_if_absent_def parse_def parse_basic_def
        parse_zset_hash_def parse_generic_def parse_string_def key_value_def bind_err_def)
qed

lemma ttl_requests_ok: "log_ok [set_with_ttl, set_if_absent]"
proof -
  have "\<forall>t \<in> set (set_with_ttl @ set_if_absent). utf8 t" by code_simp
  then show ?thesis
    by (simp add: set_with_ttl_def set_if_absent_def request_ok_def token_ok_def
        MAX_BULK_BYTES_def MAX_MULTIBULK_def)
qed

definition at :: "nat \<Rightarrow> env \<Rightarrow> env" where
  "at seconds ev = ev\<lparr>ev_now := seconds * nanos, ev_append_failure := None\<rparr>"

lemma at_simps [simp]: "ev_now (at n ev) = n * nanos" "ev_append_failure (at n ev) = None"
  by (simp_all add: at_def)

lemma set_with_ttl_store:
  "n < 1000 \<Longrightarrow> db_store (snd (dispatch lib (at n ev) set_with_ttl db)) =
     hm_insert ''k'' \<lparr>en_value = VStr ''old'', en_expires_at = Some ((n + 1) * nanos)\<rparr> (db_store db)"
  by (simp add: dispatch_execute(2) [OF parse_ttl_requests(1)] run_eq db_set_def deadline_after_def
      nanos_def add.commute)

lemma set_if_absent_store:
  "db_store (snd (dispatch lib ev set_if_absent db)) =
     snd (db_setnx (ev_now ev) ''k'' ''new'' (db_store db))"
  by (simp add: dispatch_execute(2) [OF parse_ttl_requests(2)] run_eq)

lemma ttl_replies:
  "\<not> is_error_reply (fst (dispatch lib ev set_with_ttl db))"
  "\<not> is_error_reply (fst (dispatch lib ev set_if_absent db))"
  by (simp_all add: dispatch_execute(1) [OF parse_ttl_requests(1)]
      dispatch_execute(1) [OF parse_ttl_requests(2)] run_eq)

lemma ttl_logged:
  "logged lib ev set_with_ttl db = [set_with_ttl]" "logged lib ev set_if_absent db = [set_if_absent]"
  by (simp_all add: logged_def parse_ttl_requests ttl_replies)

definition ttl_history :: "env \<Rightarrow> (env \<times> string list) list" where
  "ttl_history ev = [(at 0 ev, set_with_ttl), (at 2 ev, set_if_absent)]"

lemma ttl_history_aof:
  "db_aof (run_history lib (ttl_history ev) (with_persistence t path (Some []))) =
     Some (log_bytes [set_with_ttl, set_if_absent])"
proof -
  let ?db = "with_persistence t path (Some [])"
  let ?db1 = "snd (dispatch lib (at 0 ev) set_with_ttl ?db)"
  have "logging (at 0 ev) ?db []" by (simp add: logging_def)
  from dispatch_aof [OF this, of lib set_with_ttl]
  have "logging (at 2 ev) ?db1 (log_bytes [set_with_ttl])" by (simp add: logging_def ttl_logged)
  from dispatch_aof [OF this, of lib set_if_absent] show ?thesis
    by (simp add: ttl_history_def ttl_logged)
qed

lemma ttl_history_store:
  "db_store (run_history lib (ttl_history ev) (with_persistence t path (Some []))) =
     [(''k'', \<lparr>en_value = VStr ''new'', en_expires_at = None\<rparr>)]"
  by (simp add: ttl_history_def set_if_absent_store set_with_ttl_store db_setnx_def live_entry_def
      is_expired_def nanos_def)

lemma ttl_replay_store:
  "db_store db = [] \<Longrightarrow>
     db_store (run_log lib (\<lambda>i. at 3 ev) 0 [set_with_ttl, set_if_absent] db) =
       [(''k'', \<lparr>en_value = VStr ''old'', en_expires_at = Some (4 * nanos)\<rparr>)]"
  by (simp add: set_if_absent_store set_with_ttl_store db_setnx_def live_entry_def is_expired_def
      nanos_def)

text \<open>C10: replay re-runs every entry at the time of the restart, so a write that succeeded because a
  key had expired is refused by the key's re-based copy: the new value, which has no deadline,
  is lost, the expired one is back, and a second later the key is gone.\<close>

theorem replay_loses_write_over_expired_key:
  "let db = run_history lib (ttl_history ev) (with_persistence t path (Some []));
       db' = restart lib (\<lambda>i. at 3 ev) (the (db_aof db))
   in live now (db_store db) ''k'' = Some \<lparr>en_value = VStr ''new'', en_expires_at = None\<rparr> \<and>
      live (3 * nanos) (db_store db') ''k'' =
        Some \<lparr>en_value = VStr ''old'', en_expires_at = Some (4 * nanos)\<rparr> \<and>
      live (4 * nanos) (db_store db') ''k'' = None"
proof -
  let ?log = "[set_with_ttl, set_if_absent]"
  obtain db0 where db0: "db_store db0 = []"
    "db_store (restart lib (\<lambda>i. at 3 ev) (log_bytes ?log)) =
       db_store (snd (replay_loop lib (\<lambda>i. at 3 ev) 0 (log_bytes ?log) db0))"
    by (rule restart_replays)
  have "replay_loop lib (\<lambda>i. at 3 ev) 0 (log_bytes ?log @ []) db0 =
      (0 + length ?log, run_log lib (\<lambda>i. at 3 ev) 0 ?log db0)"
    by (rule replay_log_torn [OF ttl_requests_ok]) (simp add: torn_tail_def)
  then have "db_store (restart lib (\<lambda>i. at 3 ev) (log_bytes ?log)) =
      [(''k'', \<lparr>en_value = VStr ''old'', en_expires_at = Some (4 * nanos)\<rparr>)]"
    using db0 ttl_replay_store [OF db0(1)] by simp
  then show ?thesis
    unfolding Let_def ttl_history_aof option.sel ttl_history_store
    by (simp only:) (simp add: live_def is_expired_def nanos_def)
qed

end
