(* ===== verification/Inline.thy ===== *)
theory Inline
  imports Recovery
begin

text \<open>
  The inline framing: a line of words separated by white space.  Unlike a RESP array its size
  has no limit, although the log entry of a write it carries is read back under the limits.
\<close>

section \<open>Words on a line\<close>

definition printable :: "char \<Rightarrow> bool" where
  "printable c \<longleftrightarrow> byte_in 0x21 0x7E c"

definition is_word :: "string \<Rightarrow> bool" where
  "is_word w \<longleftrightarrow> w \<noteq> [] \<and> (\<forall>c \<in> set w. printable c)"

fun unwords :: "string list \<Rightarrow> string" where
  "unwords [] = []"
| "unwords [w] = w"
| "unwords (w # v # ws) = w @ CHR '' '' # unwords (v # ws)"

lemma printable_starts_no_space:
  assumes "printable a"
  shows "\<not> ascii_space a" "\<not> space2 a b" "\<not> space3 a b c"
  using assms by (auto simp: printable_def byte_in_def ascii_space_def space2_def space3_def)

lemma space_width_printable: "printable c \<Longrightarrow> space_width (c # s) = 0"
  by (simp add: printable_starts_no_space split: list.splits)

lemma space_width_space: "space_width (CHR '' '' # s) = 1"
  by (simp add: ascii_space_def)

declare space_width.simps [simp del]

lemma split_words_word:
  "\<forall>c \<in> set w. printable c \<Longrightarrow> split_words acc (w @ s) = split_words (acc @ w) s"
  by (induction w arbitrary: acc) (simp_all add: space_width_printable)

lemma split_words_end: "is_word w \<Longrightarrow> split_words [] w = [w]"
  using split_words_word [of w "[]" "[]"] by (simp add: is_word_def end_word_def)

lemma split_words_space:
  "is_word w \<Longrightarrow> split_words [] (w @ CHR '' '' # s) = w # split_words [] s"
  using split_words_word [of w "[]" "CHR '' '' # s"]
  by (simp add: is_word_def end_word_def space_width_space)

lemma split_unwords: "\<forall>w \<in> set ws. is_word w \<Longrightarrow> split_whitespace (unwords ws) = ws"
proof (induction ws rule: unwords.induct)
  case 1
  then show ?case by (simp add: split_whitespace_def end_word_def)
next
  case (2 w)
  then show ?case by (simp add: split_whitespace_def split_words_end)
next
  case (3 w v ws)
  then show ?case by (simp add: split_whitespace_def split_words_space)
qed

lemma set_unwords: "set (unwords ws) \<subseteq> insert CHR '' '' (\<Union>w \<in> set ws. set w)"
  by (induction ws rule: unwords.induct) auto

lemma unwords_Cons: "unwords (w # ws) = w @ (if ws = [] then [] else CHR '' '' # unwords ws)"
  by (cases ws) simp_all

lemma last_unwords:
  "ws \<noteq> [] \<Longrightarrow> \<forall>w \<in> set ws. is_word w \<Longrightarrow>
     \<exists>l c. unwords ws = l @ [c] \<and> printable c"
proof (induction ws rule: unwords.induct)
  case (2 w)
  then show ?case by (cases w rule: rev_cases) (auto simp: is_word_def)
next
  case (3 w v ws)
  then obtain l c where "unwords (v # ws) = l @ [c]" "printable c" by auto
  then show ?case by (intro exI [of _ "w @ CHR '' '' # l"]) simp
qed simp

text \<open>An inline request is read as its words, whatever follows the line.\<close>

lemma read_request_words:
  assumes "ws \<noteq> []" "\<forall>w \<in> set ws. is_word w" "hd (hd ws) \<noteq> CHR ''*''"
  shows "read_request (unwords ws @ crlf @ rest) = Inr (Some (ws, rest))"
proof -
  let ?l = "unwords ws @ [CR]"
  obtain l c where lc: "unwords ws = l @ [c]" "printable c" using last_unwords assms(1,2) by blast
  have chars: "byte_in 0 0x7F d \<and> d \<noteq> LF" if "d \<in> set (unwords ws)" for d
  proof -
    have "d = CHR '' '' \<or> printable d"
      using that set_unwords [of ws] assms(2) by (auto simp: is_word_def)
    then show ?thesis by (auto simp: printable_def byte_in_def)
  qed
  have "take_line (?l @ LF # rest) = (?l @ [LF], rest)"
    using chars by (intro take_line_LF) auto
  moreover have "utf8 (?l @ [LF])"
    using chars by (intro utf8_ascii) auto
  moreover have trim: "trim_end (?l @ [LF]) = unwords ws"
    using trim_end_snoc_space [of LF ?l] trim_end_snoc_space [of CR "unwords ws"]
      trim_end_printable [of c l] lc by (simp add: printable_def)
  moreover have "strip_prefix_char CHR ''*'' (unwords ws) = None"
  proof -
    obtain w ws' where ws: "ws = w # ws'" using assms(1) by (cases ws) auto
    obtain d w' where w: "w = d # w'" using assms(2) ws by (cases w) (auto simp: is_word_def)
    show ?thesis using assms(3) by (simp add: ws w unwords_Cons)
  qed
  ultimately show ?thesis
    using split_unwords [OF assms(2)] by (simp add: read_request_def read_line_def Let_def)
qed

section \<open>Requests beyond the limits\<close>

lemma read_oversized:
  assumes "MAX_MULTIBULK < length ts" "length ts < 2 ^ 64"
  shows "read_request (resp_array ts @ rest) = Inl (ProtocolError ''multibulk length out of range'')"
  using assms
  by (simp add: resp_array_header read_request_def read_line_header trim_end_header Let_def
      read_multibulk_def parse_u64_show_nat)

lemma parse_del: "args \<noteq> [] \<Longrightarrow> parse (''DEL'' # args) = Inr (CDel args)"
proof -
  have "to_ascii_uppercase ''DEL'' = ''DEL''" by code_simp
  then show "args \<noteq> [] \<Longrightarrow> parse (''DEL'' # args) = Inr (CDel args)"
    by (simp add: parse_def parse_basic_def non_empty_args_def)
qed

definition many_keys :: "string list" where
  "many_keys = ''DEL'' # replicate MAX_MULTIBULK ''k''"

lemma many_keys_words: "\<forall>w \<in> set many_keys. is_word w"
proof -
  have "is_word ''DEL''" "is_word ''k''" by code_simp+
  then show ?thesis by (auto simp: many_keys_def)
qed

lemma many_keys_logged: "logged lib ev many_keys db = [many_keys]"
proof -
  have "parse many_keys = Inr (CDel (replicate MAX_MULTIBULK ''k''))"
    unfolding many_keys_def by (rule parse_del) (simp add: MAX_MULTIBULK_def)
  then show ?thesis
    by (simp add: logged_def dispatch_execute(1) run_eq)
qed

lemma read_many_keys:
  "read_request (resp_array many_keys @ rest) = Inl (ProtocolError ''multibulk length out of range'')"
  by (rule read_oversized) (simp_all add: many_keys_def MAX_MULTIBULK_def)

text \<open>C14: an inline request with more arguments than \<open>MAX_MULTIBULK\<close> is accepted, executed and logged,
  but its log entry exceeds the limit on arrays, so every replay stops there: the writes logged
  after it are all lost at the next restart.\<close>

theorem oversized_inline_request_truncates_replay:
  "read_request (unwords many_keys @ crlf @ rest) = Inr (Some (many_keys, rest)) \<and>
   logged lib ev many_keys db = [many_keys] \<and>
   replay_loop lib evs i (log_bytes (many_keys # later)) db0 = (i, db0)"
proof (intro conjI)
  show "read_request (unwords many_keys @ crlf @ rest) = Inr (Some (many_keys, rest))"
    by (rule read_request_words [OF _ many_keys_words]) (simp_all add: many_keys_def)
  show "logged lib ev many_keys db = [many_keys]" by (rule many_keys_logged)
  show "replay_loop lib evs i (log_bytes (many_keys # later)) db0 = (i, db0)"
    by (subst replay_loop.simps) (simp add: read_many_keys)
qed

end
