(* ===== verification/Lifecycle.thy ===== *)
theory Lifecycle
  imports Snapshot_Facts Recovery
begin

text \<open>
  The life of the server in \<open>start\<close> of \<open>src/src/server/mod.rs\<close>: recovery, service, and the
  clean shutdown, which saves a last snapshot whether or not the listener failed.  A clean
  shutdown followed by a start loses nothing but the part of a second of a deadline.
\<close>

text \<open>A failure to save is only reported; the sync of the log does not change its content.\<close>

definition server_shutdown :: "libs \<Rightarrow> env \<Rightarrow> database \<Rightarrow> database" where
  "server_shutdown lib ev db = (case db_save lib ev db of (outcome, db') \<Rightarrow> db')"

text \<open>An entry and what a restart makes of it.\<close>

definition restarted :: "nat \<Rightarrow> nat \<Rightarrow> entry \<Rightarrow> entry \<Rightarrow> bool" where
  "restarted now later e e' \<longleftrightarrow>
     same_value (en_value e) (en_value e') \<and>
     en_expires_at e' = Option.bind (en_expires_at e)
       (\<lambda>deadline. deadline_after later ((deadline - now) div nanos))"

text \<open>The JSON text of a snapshot is read back as that snapshot.\<close>

definition codec_reads :: "libs \<Rightarrow> snapshot \<Rightarrow> bool" where
  "codec_reads lib sn \<longleftrightarrow> lib_from_json lib (lib_to_json lib sn) = Some sn"

definition sizes_ok :: "store \<Rightarrow> bool" where
  "sizes_ok s \<longleftrightarrow> (\<forall>(k, e) \<in> set s. value_size (en_value e) < 2 ^ 63)"

lemma reload_restarted:
  assumes "ordered_float fo" "store_inv fo s" "sizes_ok s" "live now s k = Some e"
  shows "restarted now later e (reloaded fo now later e)"
proof -
  have "hm_get s k = Some e" using assms(4) by (simp add: live_Some_iff)
  then have "value_size (en_value e) < 2 ^ 63"
    using assms(3) map_of_SomeD [of s k e] by (auto simp: sizes_ok_def)
  moreover have "value_ok fo (en_value e)"
    using store_all_live [OF assms(2) [unfolded store_inv_def] assms(4)] .
  ultimately show ?thesis
    using ordered_float.value_reload [OF assms(1)] by (simp add: restarted_def reloaded_def)
qed

lemma snapshot_restarts:
  assumes "ordered_float fo" "store_inv fo s" "sizes_ok s"
  shows "rel_option (restarted now later) (live now s k)
           (hm_get (db_load_snapshot fo later (db_snapshot now s) s0) k)"
proof -
  have "hm_wf s" using assms(2) by (simp add: store_inv_def store_all_def)
  from load_snapshot_get [OF this, of fo later now s0 k] show ?thesis
    using reload_restarted [OF assms] by (cases "live now s k") simp_all
qed

lemma init_snapshot:
  assumes "\<not> cf_appendonly cf" "dk_snapshot dk = Some bytes" "lib_from_json lib bytes = Some sn"
  obtains db where "init_persistence lib evs cf dk = Inr (db, None)"
    "db_store db = db_load_snapshot (lib_float lib) (ev_now (evs 0)) sn []"
proof (rule that)
  let ?db = "(with_persistence (ev_now (evs 0)) (Some (cf_snapshot_file cf)) None)
      \<lparr>db_snapshot_file := dk_snapshot dk\<rparr>"
  show "init_persistence lib evs cf dk =
      Inr (?db\<lparr>db_store := db_load_snapshot (lib_float lib) (ev_now (evs 0)) sn []\<rparr>, None)"
    using assms by (simp add: init_persistence_def db_load_from_def Let_def)
qed simp

lemma clean_restart:
  assumes "ordered_float (lib_float lib)" "store_inv (lib_float lib) (db_store db)"
    and "sizes_ok (db_store db)" "db_snapshot_path db = Some path" "ev_save_error ev = None"
    and "codec_reads lib (db_snapshot (ev_now ev) (db_store db))"
    and "dk_snapshot dk = db_snapshot_file (server_shutdown lib ev db)" "\<not> cf_appendonly cf"
  obtains db' where "init_persistence lib evs cf dk = Inr (db', None)"
    "\<And>k. rel_option (restarted (ev_now ev) (ev_now (evs 0)))
       (live (ev_now ev) (db_store db) k) (hm_get (db_store db') k)"
proof -
  let ?sn = "db_snapshot (ev_now ev) (db_store db)"
  have dk: "dk_snapshot dk = Some (lib_to_json lib ?sn)"
    using assms(4,5,7) by (simp add: server_shutdown_def db_save_def)
  have "lib_from_json lib (lib_to_json lib ?sn) = Some ?sn" using assms(6) by (simp add: codec_reads_def)
  from init_snapshot [OF assms(8) dk this] obtain db' where
    db': "init_persistence lib evs cf dk = Inr (db', None)"
    "db_store db' = db_load_snapshot (lib_float lib) (ev_now (evs 0)) ?sn []" .
  show thesis
    using that [OF db'(1)] snapshot_restarts [OF assms(1-3)] db'(2) by simp
qed

text \<open>C18: a key with a deadline outlives it across a restart from a snapshot too: its remaining seconds
  are counted again from the start of the server, however long it was down, so at a time when the
  key should have been gone it is live.\<close>

theorem snapshot_key_outlives_its_deadline:
  assumes "hm_wf s" "live now s k = Some e" "en_expires_at e = Some deadline"
    and "now + nanos \<le> deadline" "deadline \<le> later"
    and "later div nanos + (deadline - now) div nanos < 2 ^ 63"
  shows "live later s k = None \<and>
         live later (db_load_snapshot fo later (db_snapshot now s) s0) k \<noteq> None"
proof -
  have "hm_get s k = Some e" using assms(2) by (simp add: live_Some_iff)
  then have "live later s k = None" using assms(3,5) by (simp add: live_def is_expired_def)
  moreover have "0 < (deadline - now) div nanos"
    using assms(4) by (simp add: div_greater_zero_iff nanos_def)
  then have "\<not> is_expired later (reloaded fo now later e)"
    using assms(3,6) by (simp add: reloaded_def deadline_after_def is_expired_def nanos_def)
  then have "live later (db_load_snapshot fo later (db_snapshot now s) s0) k =
      Some (reloaded fo now later e)"
    using assms(2) by (simp add: live_def load_snapshot_get [OF assms(1)])
  ultimately show ?thesis by simp
qed

lemma snapshot_key_outlives_its_deadline_witness:
  "live (100 * nanos)
     (db_load_snapshot documented_order (100 * nanos)
       (db_snapshot 0 [(''k'', \<lparr>en_value = VStr ''v'', en_expires_at = Some (10 * nanos)\<rparr>)]) []) ''k'' \<noteq> None"
proof -
  let ?s = "[(''k'', \<lparr>en_value = VStr ''v'', en_expires_at = Some (10 * nanos)\<rparr>)]"
  have "hm_wf ?s" "live 0 ?s ''k'' = Some \<lparr>en_value = VStr ''v'', en_expires_at = Some (10 * nanos)\<rparr>"
    by (simp_all add: live_def is_expired_def nanos_def)
  from snapshot_key_outlives_its_deadline [OF this, of "10 * nanos" "100 * nanos" documented_order "[]"]
  show ?thesis by (simp add: nanos_def)
qed

end
