(* ===== verification/Startup.thy ===== *)
theory Startup
  imports Lifecycle System
begin

text \<open>
  The server over its lifetimes.  A start (\<open>init_persistence\<close>) on whatever an earlier lifetime left
  on the disk gives a sound initial state: replay goes through the same commands as clients do,
  and a snapshot the server wrote is one it can load.  So the invariants of the running server hold
  across any sequence of shutdowns, crashes and starts.
\<close>

section \<open>Snapshots that load well\<close>

text \<open>No collection is empty and no score is NaN.  An edited file need not satisfy this.\<close>

fun ser_ok :: "ser_value \<Rightarrow> bool" where
  "ser_ok (SStr v) \<longleftrightarrow> True"
| "ser_ok (SList items) \<longleftrightarrow> items \<noteq> []"
| "ser_ok (SSet items) \<longleftrightarrow> items \<noteq> []"
| "ser_ok (SZSet items) \<longleftrightarrow> items \<noteq> [] \<and> (\<forall>(member, score) \<in> set items. \<not> is_nan (score_of_text score))"
| "ser_ok (SHash items) \<longleftrightarrow> items \<noteq> []"

definition snapshot_ok :: "snapshot \<Rightarrow> bool" where
  "snapshot_ok sn \<longleftrightarrow> (\<forall>entry \<in> set (sn_entries sn). ser_ok (se_value entry))"

lemma fold_sadd: "fold (\<lambda>item x. snd (rs_sadd item x)) items x = fold hs_insert items x"
  by (induction items arbitrary: x) (simp_all add: rs_sadd_def)

lemma fold_hset_wf: "hm_wf h \<Longrightarrow> hm_wf (fold (\<lambda>(field, val) h. snd (rh_hset field val h)) items h)"
  by (rule fold_preserves) (auto simp: rh_hset_def)

lemma fold_hset_nonempty:
  "items \<noteq> [] \<Longrightarrow> fold (\<lambda>(field, val) h. snd (rh_hset field val h)) items h \<noteq> []"
  by (induction items rule: rev_induct) (auto simp: rh_hset_def update_nonempty)

lemma fold_load_zset:
  "fold (\<lambda>(member, score) z. snd (zs_zadd fo (score_of_text score) member z)) items z =
     fold (\<lambda>(sc, mb) z. snd (zs_zadd fo sc mb z))
       (map (\<lambda>(member, score). (score_of_text score, member)) items) z"
  by (induction items arbitrary: z) auto

lemma value_of_ser_ok:
  assumes "ordered_float fo" "ser_ok v"
  shows "value_ok fo (value_of_ser fo v)"
proof (cases v)
  case (SList items)
  then show ?thesis using assms(2) by (simp add: fold_rpush rlist_new_def)
next
  case (SSet items)
  have "set (fold hs_insert items rset_new) = set rset_new \<union> set items"
    by (simp add: hs_simps Un_commute)
  then show ?thesis
    using SSet assms(2) by (auto simp: fold_sadd hs_wf rset_new_def)
next
  case (SZSet items)
  let ?ms = "map (\<lambda>(member, score). (score_of_text score, member)) items"
  have "?ms \<noteq> []" "\<forall>(sc, mb) \<in> set ?ms. \<not> is_nan sc" using SZSet assms(2) by auto
  then show ?thesis
    using SZSet ordered_float.fold_zadd_inv [OF assms(1) zset_inv_new [of fo], of ?ms]
      fold_zadd_nonempty [of ?ms fo zset_new] no_nan_fold_zadd [OF _ no_nan_new, of ?ms fo]
    by (simp add: fold_load_zset)
next
  case (SHash items)
  then show ?thesis
    using assms(2) fold_hset_wf [of rhash_new items] fold_hset_nonempty [of items rhash_new]
    by (simp add: rhash_new_def)
qed simp

lemma load_snapshot_inv:
  assumes "ordered_float fo" "snapshot_ok sn"
  shows "store_inv fo (db_load_snapshot fo now sn s)"
  unfolding db_load_snapshot_def store_inv_def
  by (rule fold_preserves)
    (use assms in \<open>auto simp: store_all_Nil snapshot_ok_def intro!: store_all_insert value_of_ser_ok\<close>)

text \<open>What the server writes is such a snapshot.\<close>

lemma ser_of_value_ok:
  assumes "ordered_float fo" "value_ok fo v" "value_size v < 2 ^ 63"
  shows "ser_ok (ser_of_value v)"
proof (cases v)
  case (VSortedSet z)
  have z: "zset_inv fo z" "no_nan z" "zs_members z \<noteq> []" using assms(2) VSortedSet by simp_all
  have "\<forall>e \<in> set (zs_sorted z). \<not> is_nan (sm_score e)"
    using z(2) zset_inv_sorted_iff [OF z(1)] unfolding no_nan_def by blast
  moreover have "zs_sorted z \<noteq> []"
    using ordered_float.zset_length [OF assms(1) z(1)] z(3) by auto
  ultimately show ?thesis
    using VSortedSet assms(3) ordered_float.zrange_all [OF assms(1) z(1)]
    by (simp add: score_of_text_print case_prod_unfold)
qed (use assms in \<open>simp_all add: rl_lrange_whole rs_smembers_def rh_hgetall_def\<close>)

lemma snapshot_written_ok:
  assumes "ordered_float fo" "store_inv fo s" "sizes_ok s"
  shows "snapshot_ok (db_snapshot now s)"
proof -
  have "ser_ok (ser_of_value (en_value e))" if "(k, e) \<in> set s" for k e
    using that assms(2,3) ser_of_value_ok [OF assms(1), of "en_value e"]
    by (auto simp: store_inv_def store_all_def sizes_ok_def)
  then show ?thesis by (auto simp: snapshot_ok_def db_snapshot_def)
qed

section \<open>Starts\<close>

definition booted :: "database \<Rightarrow> system" where
  "booted db = \<lparr>sys_db = db, sys_conns = Map.empty, sys_seen = 0\<rparr>"

text \<open>Replay does nothing to the database that requests do not.\<close>

lemma replay_loop_preserves:
  assumes "\<And>ev ts db. P db \<Longrightarrow> P (snd (dispatch lib ev ts db))"
  shows "P db \<Longrightarrow> P (snd (replay_loop lib evs i s db))"
proof (induction "length s" arbitrary: i s db rule: less_induct)
  case less
  show ?case
  proof (cases "read_request s")
    case (Inr r)
    then show ?thesis
      using less assms read_request_less
      by (subst replay_loop.simps) (auto split: option.splits)
  qed (use less in \<open>simp add: replay_loop.simps\<close>)
qed

definition idle :: "libs \<Rightarrow> database \<Rightarrow> bool" where
  "idle lib db \<longleftrightarrow>
     store_inv (lib_float lib) (db_store db) \<and> db_pubsub db = pubsub_new \<and> db_clients db = 0"

lemma idle_dispatch:
  "ordered_float (lib_float lib) \<Longrightarrow> idle lib db \<Longrightarrow> idle lib (snd (dispatch lib ev ts db))"
  by (simp add: idle_def dispatch_inv dispatch_frames)

lemma idle_fresh: "idle lib ((with_persistence t path aof)\<lparr>db_snapshot_file := file\<rparr>)"
  by (simp add: idle_def with_persistence_def database_new_def store_inv_def store_all_Nil)

lemma idle_flags:
  "idle lib (begin_replay db) \<longleftrightarrow> idle lib db" "idle lib (end_replay db) \<longleftrightarrow> idle lib db"
  by (simp_all add: idle_def begin_replay_def end_replay_def)

text \<open>What is on the disk loads well, where it is a snapshot at all.\<close>

definition file_ok :: "libs \<Rightarrow> string option \<Rightarrow> bool" where
  "file_ok lib file \<longleftrightarrow>
     (case Option.bind file (lib_from_json lib) of Some sn \<Rightarrow> snapshot_ok sn | None \<Rightarrow> True)"

lemma init_idle:
  assumes "ordered_float (lib_float lib)" "init_persistence lib evs cf dk = Inr (db, policy)"
    and "\<not> cf_appendonly cf \<Longrightarrow> file_ok lib (dk_snapshot dk)"
  shows "idle lib db \<and> \<not> db_replaying db"
proof (cases "cf_appendonly cf")
  case True
  have "idle lib (snd (replay_loop lib evs i s (begin_replay db0)))" if "idle lib db0" for i s db0
    using replay_loop_preserves [of "idle lib", OF idle_dispatch [OF assms(1)]] that
    by (simp add: idle_flags)
  then show ?thesis
    using assms(2) True
    by (auto simp: init_persistence_def replay_aof_def idle_fresh idle_flags Let_def case_prod_unfold
        split: sum.splits option.splits if_splits)
next
  case False
  then show ?thesis
    using assms idle_fresh [of lib] load_snapshot_inv [OF assms(1)]
    by (auto simp: init_persistence_def db_load_from_def file_ok_def idle_def Let_def
        split: option.splits)
qed

lemma booted_sound:
  assumes "ordered_float (lib_float lib)" "init_persistence lib evs cf dk = Inr (db, policy)"
    and "\<not> cf_appendonly cf \<Longrightarrow> file_ok lib (dk_snapshot dk)"
  shows "sys_start lib (booted db)"
  using init_idle [OF assms] by (simp add: sys_start_def booted_def idle_def)

section \<open>What a running server leaves on the disk\<close>

text \<open>A step leaves the snapshot file as it is, or writes the current store to it.\<close>

definition saved :: "libs \<Rightarrow> database \<Rightarrow> database \<Rightarrow> bool" where
  "saved lib db db' \<longleftrightarrow>
     db_snapshot_file db' = db_snapshot_file db \<or>
     (\<exists>now. db_snapshot_file db' = Some (lib_to_json lib (db_snapshot now (db_store db))))"

lemma saved_save: "saved lib db (snd (db_save lib ev db))"
  by (auto simp: saved_def db_save_def split: option.splits)

lemma saved_frame: "db_snapshot_file db' = db_snapshot_file db \<Longrightarrow> saved lib db db'"
  by (simp add: saved_def)

lemma publish_file [simp]: "db_snapshot_file (snd (db_publish ev ch p db)) = db_snapshot_file db"
  by (simp add: db_publish_def case_prod_unfold Let_def)

lemma saved_execute: "saved lib db (snd (execute cmd lib ev db))"
proof (cases "cmd = CSave")
  case True
  then show ?thesis using saved_save [of lib db ev] by (simp add: case_prod_unfold split: sum.splits)
next
  case False
  then show ?thesis
    by (intro saved_frame) (cases cmd; simp add: run_eq peek_def case_prod_unfold split: sum.splits)
qed

lemma saved_dispatch: "saved lib db (snd (dispatch lib ev ts db))"
proof (cases ts rule: dispatch_cases)
  case (spop key)
  then show ?thesis
    by (intro saved_frame)
      (simp add: dispatch_simps dispatch_spop_def on_store_eq split: sum.splits option.splits)
next
  case (command cmd)
  then show ?thesis
    using saved_execute [of lib db cmd ev]
    by (simp add: dispatch_simps dispatch_command_def case_prod_unfold saved_def)
qed (simp_all add: dispatch_simps saved_frame)

lemma registry_file:
  "db_snapshot_file (fold (\<lambda>ch. db_unsubscribe ch i) chs db) = db_snapshot_file db"
  "subscribe_loop chs r ss db = (r', ss', db') \<Longrightarrow> db_snapshot_file db' = db_snapshot_file db"
  "unsubscribe_loop chs r ss db = (r', ss', db') \<Longrightarrow> db_snapshot_file db' = db_snapshot_file db"
  subgoal by (induction chs arbitrary: db) (simp_all add: db_unsubscribe_def)
  subgoal by (induction chs r ss db rule: subscribe_loop.induct)
      (auto simp: Let_def db_subscribe_def split: if_splits)
  subgoal by (induction chs r ss db rule: unsubscribe_loop.induct)
      (auto simp: Let_def db_unsubscribe_def split: if_splits)
  done

lemma saved_handle:
  assumes "handle lib evs tokens ss db = (r, ss', db')" "starts_exec ss tokens = None"
  shows "saved lib db db'"
proof (cases tokens)
  case Nil
  then show ?thesis using assms(1) by (simp add: handle_def saved_frame)
next
  case (Cons first args)
  let ?name = "to_ascii_uppercase first"
  have exec: "snd (snd (exec lib evs ss db)) = db" if "?name = ''EXEC''" "\<not> is_subscribed ss"
    using assms(2) that Cons by (auto simp: starts_exec_def exec_def Let_def split: option.splits)
  have db': "db' = snd (snd (handle lib evs tokens ss db))" by (simp add: assms(1))
  have sub: "db_snapshot_file (snd (snd (subscribe args ss db))) = db_snapshot_file db"
    "db_snapshot_file (snd (snd (unsubscribe args ss db))) = db_snapshot_file db"
    by (simp_all add: subscribe_def unsubscribe_def Let_def
        registry_file(2,3) [OF surjective_pairing [THEN trans], OF arg_cong [OF surjective_pairing]])
  show ?thesis
    unfolding db' Cons
    using exec sub saved_dispatch
    by (simp add: handle_def Let_def case_prod_unfold saved_frame split: option.splits)
qed

lemma saved_step:
  assumes "sys_step lib s s'"
  shows "saved lib (sys_db s) (sys_db s')"
  using assms
proof (cases rule: sys_step.cases)
  case (connect n db1 ss db2)
  then show ?thesis
    by (intro saved_frame)
      (auto simp: client_connected_def session_new_def next_subscriber_id_def case_prod_unfold Let_def)
next
  case (request i c tokens ev r ss' db')
  then show ?thesis using saved_handle by simp
next
  case (exec_next i c cmd cmds reply ev r db')
  then show ?thesis using saved_dispatch [of lib "sys_db s" ev cmd] by simp
next
  case (disconnect i c)
  then show ?thesis
    by (intro saved_frame) (simp add: client_disconnected_def cleanup_def registry_file(1))
next
  case (save_step ev)
  then show ?thesis
    using saved_save [of lib "sys_db s\<lparr>db_pending_saves := db_pending_saves (sys_db s) - 1\<rparr>" ev]
    by (simp add: saved_def)
qed (simp_all add: saved_frame sweep_def)

section \<open>Lifetimes\<close>

text \<open>A server under one configuration, through its lifetimes: the first start finds no files; it serves;
  it ends by a clean shutdown or a crash; and it starts again on the snapshot it left, with a log
  of which the crash may have left anything.  The states are those in which no collection has
  outgrown memory and no counter has wrapped.\<close>

definition within_limits :: "system \<Rightarrow> bool" where
  "within_limits s \<longleftrightarrow> sizes_ok (db_store (sys_db s)) \<and> sys_seen s < 2 ^ 64"

definition ended :: "libs \<Rightarrow> system \<Rightarrow> database \<Rightarrow> bool" where
  "ended lib s db \<longleftrightarrow> db = sys_db s \<or> (\<exists>ev. db = server_shutdown lib ev (sys_db s))"

inductive served :: "libs \<Rightarrow> config \<Rightarrow> system \<Rightarrow> bool" for lib cf where
  first:
    "init_persistence lib evs cf (good_disk None None) = Inr (db, policy) \<Longrightarrow>
     within_limits (booted db) \<Longrightarrow> served lib cf (booted db)"
| serve:
    "served lib cf s \<Longrightarrow> sys_step lib s s' \<Longrightarrow> within_limits s' \<Longrightarrow> served lib cf s'"
| again:
    "served lib cf s \<Longrightarrow> ended lib s left \<Longrightarrow> dk_snapshot dk = db_snapshot_file left \<Longrightarrow>
     init_persistence lib evs cf dk = Inr (db, policy) \<Longrightarrow>
     within_limits (booted db) \<Longrightarrow> served lib cf (booted db)"

lemma saved_file_ok:
  assumes "ordered_float (lib_float lib)" "\<And>sn. codec_reads lib sn"
    and "store_inv (lib_float lib) (db_store db)" "sizes_ok (db_store db)"
    and "file_ok lib (db_snapshot_file db)" "saved lib db db'"
  shows "file_ok lib (db_snapshot_file db')"
  using assms(2,5,6) snapshot_written_ok [OF assms(1,3,4)]
  by (auto simp: saved_def file_ok_def codec_reads_def)

lemma init_file:
  assumes "init_persistence lib evs cf dk = Inr (db, policy)" "\<not> cf_appendonly cf"
  shows "db_snapshot_file db = dk_snapshot dk"
  using assms by (auto simp: init_persistence_def db_load_from_def Let_def split: option.splits)

lemma ended_saved: "ended lib s db \<Longrightarrow> saved lib (sys_db s) db"
  using saved_save [of lib "sys_db s"]
  by (auto simp: ended_def saved_frame server_shutdown_def case_prod_unfold)

lemma served_sound:
  assumes "ordered_float (lib_float lib)" "\<And>sn. codec_reads lib sn"
  shows "served lib cf s \<Longrightarrow>
     sys_inv lib s \<and> within_limits s \<and> (\<not> cf_appendonly cf \<longrightarrow> file_ok lib (db_snapshot_file (sys_db s)))"
proof (induction rule: served.induct)
  case (first evs db policy)
  have "file_ok lib (dk_snapshot (good_disk None None))" by (simp add: file_ok_def)
  then show ?case
    using sys_inv_start [OF booted_sound [OF assms(1) first(1)]] init_file [OF first(1)] first(2)
    by (simp add: booted_def)
next
  case (serve s s')
  then have inv: "sys_inv lib s'"
    using sys_inv_step [OF assms(1) _ serve(2)] by (simp add: within_limits_def)
  have "file_ok lib (db_snapshot_file (sys_db s'))" if "\<not> cf_appendonly cf"
    using saved_file_ok [OF assms _ _ _ saved_step [OF serve(2)]] serve that
    by (simp add: sys_inv_def within_limits_def)
  with inv serve(3) show ?case by simp
next
  case (again s left dk evs db policy)
  have "file_ok lib (db_snapshot_file left)" if "\<not> cf_appendonly cf"
    using saved_file_ok [OF assms _ _ _ ended_saved [OF again(2)]] again that
    by (simp add: sys_inv_def within_limits_def)
  then show ?case
    using sys_inv_start [OF booted_sound [OF assms(1) again(4)]] init_file [OF again(4)] again(3,5)
    by (simp add: booted_def)
qed

text \<open>So what holds in every reachable state holds in every lifetime.\<close>

lemma served_reachable:
  assumes "ordered_float (lib_float lib)" "\<And>sn. codec_reads lib sn"
  shows "served lib cf s \<Longrightarrow> reachable lib s"
proof (induction rule: served.induct)
  case (first evs db policy)
  have "file_ok lib (dk_snapshot (good_disk None None))" by (simp add: file_ok_def)
  then show ?case by (intro reachable.start booted_sound [OF assms(1) first(1)])
next
  case (serve s s')
  then show ?case by (blast intro: reachable.step)
next
  case (again s left dk evs db policy)
  have "file_ok lib (dk_snapshot dk)" if "\<not> cf_appendonly cf"
    using saved_file_ok [OF assms _ _ _ ended_saved [OF again(2)]] served_sound [OF assms again(1)]
      again(3) that
    by (simp add: sys_inv_def within_limits_def)
  then show ?case by (intro reachable.start booted_sound [OF assms(1) again(4)])
qed

end
