(* ===== verification/Codec.thy ===== *)
theory Codec
  imports Snapshot_Facts
begin

text \<open>
  A concrete text for snapshots, to stand in for the JSON of \<open>serde_json\<close> where a fact about the
  server needs an instance: nested RESP arrays, which are read back exactly.  It shows that a codec
  that reads back whatever it wrote, for every snapshot, exists.
\<close>

definition bulk_of :: "reply \<Rightarrow> string option" where
  "bulk_of r = (case r of RBulk t \<Rightarrow> Some t | _ \<Rightarrow> None)"

definition read_array :: "string \<Rightarrow> string list option" where
  "read_array s =
     (case decode 2 s of
        Some (RArray rs, []) \<Rightarrow> those (map bulk_of rs)
      | _ \<Rightarrow> None)"

lemma those_map: "(\<And>x. f (g x) = Some x) \<Longrightarrow> those (map f (map g xs)) = Some xs"
  by (induction xs) simp_all

lemma read_array_written [simp]: "read_array (resp_array items) = Some items"
proof -
  have "decode 2 (resp_array items @ []) = Some (RArray (map RBulk items), [])"
    using reads_as_resp_array [of 0 items] by (simp only: reads_as_def numeral_2_eq_2)
  then show ?thesis
    using those_map [of bulk_of RBulk items] by (simp add: read_array_def bulk_of_def)
qed

fun text_of_pairs :: "(string \<times> string) list \<Rightarrow> string list" where
  "text_of_pairs [] = []"
| "text_of_pairs ((a, b) # ps) = a # b # text_of_pairs ps"

fun pairs_of_text :: "string list \<Rightarrow> (string \<times> string) list option" where
  "pairs_of_text [] = Some []"
| "pairs_of_text [a] = None"
| "pairs_of_text (a # b # ts) = map_option ((#) (a, b)) (pairs_of_text ts)"

lemma pairs_read [simp]: "pairs_of_text (text_of_pairs ps) = Some ps"
  by (induction ps rule: text_of_pairs.induct) simp_all

fun text_of_ser :: "ser_value \<Rightarrow> string list" where
  "text_of_ser (SStr v) = [''str'', v]"
| "text_of_ser (SList items) = ''list'' # items"
| "text_of_ser (SSet items) = ''set'' # items"
| "text_of_ser (SZSet items) = ''zset'' # text_of_pairs items"
| "text_of_ser (SHash items) = ''hash'' # text_of_pairs items"

definition ser_of_text :: "string list \<Rightarrow> ser_value option" where
  "ser_of_text ts =
     (case ts of
        [] \<Rightarrow> None
      | kind # items \<Rightarrow>
          (if kind = ''str'' then (case items of [v] \<Rightarrow> Some (SStr v) | _ \<Rightarrow> None)
           else if kind = ''list'' then Some (SList items)
           else if kind = ''set'' then Some (SSet items)
           else if kind = ''zset'' then map_option SZSet (pairs_of_text items)
           else if kind = ''hash'' then map_option SHash (pairs_of_text items)
           else None))"

lemma ser_read [simp]: "ser_of_text (text_of_ser v) = Some v"
  by (cases v) (simp_all add: ser_of_text_def)

definition text_of_entry :: "snapshot_entry \<Rightarrow> string" where
  "text_of_entry e =
     resp_array (se_key e # (case se_ttl_secs e of None \<Rightarrow> [] | Some n \<Rightarrow> show_nat n) #
       text_of_ser (se_value e))"

definition entry_of_text :: "string \<Rightarrow> snapshot_entry option" where
  "entry_of_text s =
     (case read_array s of
        Some (key # ttl # ts) \<Rightarrow>
          map_option (\<lambda>v. \<lparr>se_key = key,
              se_ttl_secs = (if ttl = [] then None else parse_digits 0 ttl), se_value = v\<rparr>)
            (ser_of_text ts)
      | _ \<Rightarrow> None)"

lemma entry_read: "entry_of_text (text_of_entry e) = Some e"
  by (cases "se_ttl_secs e") (simp_all add: entry_of_text_def text_of_entry_def)

definition text_of_snapshot :: "snapshot \<Rightarrow> string" where
  "text_of_snapshot sn = resp_array (map text_of_entry (sn_entries sn))"

definition snapshot_of_text :: "string \<Rightarrow> snapshot option" where
  "snapshot_of_text s =
     Option.bind (read_array s)
       (\<lambda>ts. map_option (\<lambda>es. \<lparr>sn_entries = es\<rparr>) (those (map entry_of_text ts)))"

lemma snapshot_read [simp]: "snapshot_of_text (text_of_snapshot sn) = Some sn"
  using those_map [of entry_of_text text_of_entry, OF entry_read]
  by (simp add: snapshot_of_text_def text_of_snapshot_def del: map_map)

end
