(* ===== verification/Crash.thy ===== *)
theory Crash
  imports Recovery
begin

text \<open>
  The append-only file of \<open>src/src/database/aof.rs\<close> down to stable storage.  \<open>Database\<close>
  keeps the bytes written; here the handle also has its fsync policy and the number of bytes known
  to have reached the disk.  A process crash keeps what was written, a power loss keeps any
  prefix of it that contains what was synced.
\<close>

section \<open>The handle\<close>

record aof_file =
  af_bytes :: string
  af_synced :: nat
  af_policy :: fsync_policy

text \<open>Of what the file held before, nothing is known to have been synced.\<close>

definition aof_open :: "fsync_policy \<Rightarrow> string option \<Rightarrow> aof_file" where
  "aof_open policy existing =
     \<lparr>af_bytes = (case existing of Some b \<Rightarrow> b | None \<Rightarrow> []), af_synced = 0, af_policy = policy\<rparr>"

text \<open>\<open>sync_data\<close>, which may fail.\<close>

definition aof_sync :: "bool \<Rightarrow> aof_file \<Rightarrow> (unit + unit) \<times> aof_file" where
  "aof_sync sync_ok f =
     (if sync_ok then (Inr (), f\<lparr>af_synced := length (af_bytes f)\<rparr>) else (Inl (), f))"

text \<open>\<open>write_all\<close> may stop after some of the bytes; then the entry is not synced either.\<close>

definition aof_file_append ::
    "env \<Rightarrow> bool \<Rightarrow> string list \<Rightarrow> aof_file \<Rightarrow> (unit + unit) \<times> aof_file" where
  "aof_file_append ev sync_ok tokens f =
     (let payload = resp_array tokens in
      case ev_append_failure ev of
        Some n \<Rightarrow> (Inl (), f\<lparr>af_bytes := af_bytes f @ take n payload\<rparr>)
      | None \<Rightarrow>
          (let f' = f\<lparr>af_bytes := af_bytes f @ payload\<rparr>
           in if af_policy f = FsyncAlways then aof_sync sync_ok f' else (Inr (), f')))"

lemma append_refines_bytes:
  "af_bytes (snd (aof_file_append ev sync_ok tokens f)) = aof_append ev tokens (af_bytes f)"
  by (simp add: aof_file_append_def aof_append_def aof_sync_def Let_def split: option.splits)

definition survives :: "aof_file \<Rightarrow> string \<Rightarrow> bool" where
  "survives f p \<longleftrightarrow> (\<exists>q. p @ q = af_bytes f) \<and> af_synced f \<le> length p"

section \<open>Prefixes of a log\<close>

lemma log_prefix:
  "log_ok log \<Longrightarrow> p @ q = log_bytes log \<Longrightarrow>
     \<exists>n tail. n \<le> length log \<and> p = log_bytes (take n log) @ tail \<and> torn_tail tail \<and>
       (n < length log \<longrightarrow> length tail < length (resp_array (log ! n))) \<and> (n = length log \<longrightarrow> tail = [])"
proof (induction log arbitrary: p)
  case Nil
  then show ?case by (simp add: torn_tail_def)
next
  case (Cons ts log)
  have ok: "ts \<noteq> []" "request_ok ts" "log_ok log" using Cons.prems(1) by simp_all
  have "p @ q = resp_array ts @ log_bytes log" using Cons.prems(2) by simp
  then show ?case
  proof (cases rule: append_split)
    case (1 u)
    then have "torn_tail p" using ok by (auto simp: torn_tail_def)
    moreover have "length p < length (resp_array ts)" using 1 by (simp flip: 1(1))
    ultimately show ?thesis by (intro exI [of _ 0] exI [of _ p]) simp
  next
    case (2 p')
    from Cons.IH [OF ok(3) 2(2)] obtain n tail where
      n: "n \<le> length log" "p' = log_bytes (take n log) @ tail" "torn_tail tail"
        "n < length log \<longrightarrow> length tail < length (resp_array (log ! n))" "n = length log \<longrightarrow> tail = []"
      by blast
    then show ?thesis using 2(1) by (intro exI [of _ "Suc n"] exI [of _ tail]) simp
  qed
qed

lemma log_bytes_mono: "m \<le> n \<Longrightarrow> length (log_bytes (take m log)) \<le> length (log_bytes (take n log))"
proof -
  assume "m \<le> n"
  then have "take n log = take m log @ take (n - m) (drop m log)"
    by (metis le_add_diff_inverse take_add)
  then show ?thesis by simp
qed

lemma log_bytes_take_Suc:
  "n < length log \<Longrightarrow> log_bytes (take (Suc n) log) = log_bytes (take n log) @ resp_array (log ! n)"
  by (simp add: take_Suc_conv_app_nth)

text \<open>Replaying a prefix runs exactly the entries that lie whole within it.\<close>

lemma replay_prefix:
  assumes "log_ok log" "p @ q = log_bytes log"
  obtains n where "n \<le> length log" "replay_loop lib evs 0 p db = (n, run_log lib evs 0 (take n log) db)"
    "\<And>m. m \<le> length log \<Longrightarrow> length (log_bytes (take m log)) \<le> length p \<Longrightarrow> m \<le> n"
proof -
  obtain n tail where n: "n \<le> length log" "p = log_bytes (take n log) @ tail" "torn_tail tail"
    "n < length log \<longrightarrow> length tail < length (resp_array (log ! n))"
    using log_prefix [OF assms] by blast
  have "log_ok (take n log)" using assms(1) by (auto simp: log_ok_def dest: in_set_takeD)
  then have "replay_loop lib evs 0 p db = (n, run_log lib evs 0 (take n log) db)"
    using replay_log_torn [OF _ n(3), of "take n log" lib evs 0 db] n(1,2) by simp
  moreover have "m \<le> n" if "m \<le> length log" "length (log_bytes (take m log)) \<le> length p" for m
  proof (rule ccontr)
    assume "\<not> m \<le> n"
    then have "Suc n \<le> m" "n < length log" using that(1) by simp_all
    from log_bytes_mono [OF this(1), of log] log_bytes_take_Suc [OF this(2)] n(2,4) this(2) that(2)
    show False by simp
  qed
  ultimately show thesis using that n(1) by blast
qed

section \<open>Runs of appends and flushes\<close>

text \<open>What the handle goes through: an append for each logged write, and a flush for each tick of the
  flusher (\<open>spawn_aof_flusher\<close>, through \<open>Database::sync_aof\<close>), in any order.  The flusher only
  reports a failed flush and goes on.\<close>

datatype aof_op = Append env bool "string list" | Flush bool

fun aof_run :: "aof_op list \<Rightarrow> aof_file \<Rightarrow> (unit + unit) list \<times> aof_file" where
  "aof_run [] f = ([], f)"
| "aof_run (Append ev sync_ok tokens # ops) f =
     (case aof_file_append ev sync_ok tokens f of
        (r, f1) \<Rightarrow> (case aof_run ops f1 of (rs, f2) \<Rightarrow> (r # rs, f2)))"
| "aof_run (Flush sync_ok # ops) f =
     (case aof_sync sync_ok f of
        (r, f1) \<Rightarrow> (case aof_run ops f1 of (rs, f2) \<Rightarrow> (r # rs, f2)))"

lemma aof_run_steps [simp]:
  "fst (aof_run (Append ev ok ts # ops) f) =
     fst (aof_file_append ev ok ts f) # fst (aof_run ops (snd (aof_file_append ev ok ts f)))"
  "snd (aof_run (Append ev ok ts # ops) f) = snd (aof_run ops (snd (aof_file_append ev ok ts f)))"
  "fst (aof_run (Flush ok # ops) f) =
     fst (aof_sync ok f) # fst (aof_run ops (snd (aof_sync ok f)))"
  "snd (aof_run (Flush ok # ops) f) = snd (aof_run ops (snd (aof_sync ok f)))"
  by (simp_all add: case_prod_unfold)

declare aof_run.simps(2,3) [simp del]

text \<open>The requests that the appends logged, and whether each append was written whole.\<close>

fun appended :: "aof_op list \<Rightarrow> string list list" where
  "appended [] = []"
| "appended (Append ev sync_ok tokens # ops) = tokens # appended ops"
| "appended (Flush sync_ok # ops) = appended ops"

fun written_whole :: "aof_op list \<Rightarrow> bool" where
  "written_whole [] \<longleftrightarrow> True"
| "written_whole (Append ev sync_ok tokens # ops) \<longleftrightarrow>
     ev_append_failure ev = None \<and> written_whole ops"
| "written_whole (Flush sync_ok # ops) \<longleftrightarrow> written_whole ops"

lemma appended_append [simp]: "appended (xs @ ys) = appended xs @ appended ys"
  by (induction xs rule: appended.induct) simp_all

lemma written_whole_append [simp]:
  "written_whole (xs @ ys) \<longleftrightarrow> written_whole xs \<and> written_whole ys"
  by (induction xs rule: written_whole.induct) auto

lemma aof_run_append:
  "snd (aof_run (xs @ ys) f) = snd (aof_run ys (snd (aof_run xs f)))"
  by (induction xs arbitrary: f rule: appended.induct) simp_all

lemma aof_sync_simps [simp]:
  "af_bytes (snd (aof_sync ok f)) = af_bytes f"
  "af_policy (snd (aof_sync ok f)) = af_policy f"
  "af_synced (snd (aof_sync True f)) = length (af_bytes f)"
  by (simp_all add: aof_sync_def)

lemma append_policy [simp]: "af_policy (snd (aof_file_append ev sync_ok tokens f)) = af_policy f"
  by (simp add: aof_file_append_def Let_def split: option.splits)

lemma append_whole:
  "ev_append_failure ev = None \<Longrightarrow>
     af_bytes (snd (aof_file_append ev sync_ok tokens f)) = af_bytes f @ resp_array tokens"
  by (simp add: append_refines_bytes aof_append_def)

text \<open>The file holds exactly the logged requests, and a later step never forgets what was synced.\<close>

lemma run_bytes:
  "written_whole ops \<Longrightarrow>
     af_bytes (snd (aof_run ops f)) = af_bytes f @ log_bytes (appended ops)"
  by (induction ops arbitrary: f rule: appended.induct) (simp_all add: append_whole)

definition synced_within :: "aof_file \<Rightarrow> bool" where
  "synced_within f \<longleftrightarrow> af_synced f \<le> length (af_bytes f)"

lemma sync_grows:
  "synced_within f \<Longrightarrow> synced_within (snd (aof_sync ok f)) \<and> af_synced f \<le> af_synced (snd (aof_sync ok f))"
  by (simp add: synced_within_def aof_sync_def)

lemma append_grows:
  "synced_within f \<Longrightarrow> synced_within (snd (aof_file_append ev ok ts f)) \<and>
     af_synced f \<le> af_synced (snd (aof_file_append ev ok ts f))"
  by (auto simp: synced_within_def aof_file_append_def aof_sync_def Let_def split: option.splits)

lemma run_grows:
  "synced_within f \<Longrightarrow> synced_within (snd (aof_run ops f)) \<and> af_synced f \<le> af_synced (snd (aof_run ops f))"
proof (induction ops arbitrary: f rule: appended.induct)
  case (2 ev sync_ok tokens ops)
  from append_grows [OF 2(2), of ev sync_ok tokens] 2(1) show ?case by (force intro: order_trans)
next
  case (3 sync_ok ops)
  from sync_grows [OF 3(2), of sync_ok] 3(1) show ?case by (force intro: order_trans)
qed simp

lemma open_within [simp]: "synced_within (aof_open policy existing)"
  by (simp add: synced_within_def aof_open_def)

lemma aof_open_bytes [simp]: "af_bytes (aof_open policy None) = []"
  by (simp add: aof_open_def)

text \<open>A successful sync, by the flusher or by an append under \<open>always\<close>, makes everything that was
  appended up to it durable.\<close>

fun syncs :: "fsync_policy \<Rightarrow> aof_op \<Rightarrow> bool" where
  "syncs policy (Append ev sync_ok tokens) \<longleftrightarrow> policy = FsyncAlways \<and> sync_ok"
| "syncs policy (Flush sync_ok) \<longleftrightarrow> sync_ok"

lemma run_policy [simp]: "af_policy (snd (aof_run ops f)) = af_policy f"
  by (induction ops arbitrary: f rule: appended.induct) simp_all

lemma aof_open_policy [simp]: "af_policy (aof_open policy existing) = policy"
  by (simp add: aof_open_def)

lemma sync_op:
  "syncs (af_policy f) op \<Longrightarrow> written_whole [op] \<Longrightarrow>
     af_synced (snd (aof_run [op] f)) = length (af_bytes (snd (aof_run [op] f)))"
  by (cases op) (simp_all add: aof_file_append_def aof_sync_def Let_def)

lemma synced_op:
  assumes "written_whole (before @ op # after)" "syncs policy op"
  shows "length (log_bytes (old @ appended (before @ [op]))) \<le>
           af_synced (snd (aof_run (before @ op # after) (aof_open policy (Some (log_bytes old)))))"
proof -
  let ?o = "aof_open policy (Some (log_bytes old))"
  define f where "f = snd (aof_run (before @ [op]) ?o)"
  have op: "written_whole before" "written_whole [op]" using assms(1) by (cases op; simp)+
  then have "af_synced f = length (af_bytes f)"
    unfolding f_def aof_run_append using assms(2) by (intro sync_op) simp_all
  moreover have "af_bytes f = log_bytes (old @ appended (before @ [op]))"
    using op run_bytes [of "before @ [op]" ?o] by (simp add: f_def aof_open_def)
  moreover have "synced_within f" using run_grows [OF open_within] by (simp add: f_def)
  moreover have "snd (aof_run (before @ op # after) ?o) = snd (aof_run after f)"
    using aof_run_append [of "before @ [op]" after ?o] by (simp add: f_def)
  ultimately show ?thesis using run_grows [of f after] by simp
qed

section \<open>The policy always\<close>

lemma append_always:
  "af_policy f = FsyncAlways \<Longrightarrow> fst (aof_file_append ev sync_ok tokens f) = Inr () \<Longrightarrow>
     af_bytes (snd (aof_file_append ev sync_ok tokens f)) = af_bytes f @ resp_array tokens \<and>
     af_synced (snd (aof_file_append ev sync_ok tokens f)) = length (af_bytes f @ resp_array tokens)"
  by (auto simp: aof_file_append_def aof_sync_def Let_def split: option.splits if_splits)

lemma run_always:
  "af_policy f = FsyncAlways \<Longrightarrow> af_synced f = length (af_bytes f) \<Longrightarrow>
     \<forall>r \<in> set (fst (aof_run ops f)). r = Inr () \<Longrightarrow>
     af_bytes (snd (aof_run ops f)) = af_bytes f @ log_bytes (appended ops) \<and>
     af_synced (snd (aof_run ops f)) = length (af_bytes (snd (aof_run ops f)))"
proof (induction ops arbitrary: f rule: appended.induct)
  case (2 ev sync_ok tokens ops)
  then have "fst (aof_file_append ev sync_ok tokens f) = Inr ()" by simp
  from append_always [OF 2(2) this] 2(1) [of "snd (aof_file_append ev sync_ok tokens f)"] 2(2-4)
  show ?case by simp
next
  case (3 sync_ok ops)
  have "af_synced (snd (aof_sync sync_ok f)) = length (af_bytes f)"
    using 3(3) by (simp add: aof_sync_def)
  with 3(1) [of "snd (aof_sync sync_ok f)"] 3(2-4) show ?case by simp
qed simp

text \<open>The bytes of an append that reported success stay durable whatever the later steps do.\<close>

lemma run_extends: "\<exists>rest. af_bytes (snd (aof_run ops f)) = af_bytes f @ rest"
proof (induction ops arbitrary: f rule: appended.induct)
  case (2 ev sync_ok tokens ops)
  show ?case using 2 [of "snd (aof_file_append ev sync_ok tokens f)"]
    by (auto simp: append_refines_bytes aof_append_def split: option.splits)
next
  case (3 sync_ok ops)
  show ?case using 3 [of "snd (aof_sync sync_ok f)"] by simp
qed simp

lemma run_result:
  "fst (aof_run (before @ Append ev ok ts # after) f) ! length before =
     fst (aof_file_append ev ok ts (snd (aof_run before f)))"
  by (induction before arbitrary: f rule: appended.induct) simp_all

lemma reported_append_survives:
  assumes "fst (aof_run (before @ Append ev ok ts # after) (aof_open FsyncAlways existing)) ! length before = Inr ()"
    and "survives (snd (aof_run (before @ Append ev ok ts # after) (aof_open FsyncAlways existing))) p"
  shows "\<exists>rest. p = af_bytes (snd (aof_run before (aof_open FsyncAlways existing))) @ resp_array ts @ rest"
proof -
  define f where "f = snd (aof_run before (aof_open FsyncAlways existing))"
  define g where "g = snd (aof_file_append ev ok ts f)"
  have g: "af_bytes g = af_bytes f @ resp_array ts" "af_synced g = length (af_bytes g)"
    using append_always [of f ev ok ts] assms(1) by (simp_all add: run_result f_def g_def)
  have last: "snd (aof_run (before @ Append ev ok ts # after) (aof_open FsyncAlways existing)) = snd (aof_run after g)"
    by (simp add: aof_run_append f_def g_def)
  have "synced_within g" using g(2) by (simp add: synced_within_def)
  then have "length (af_bytes g) \<le> af_synced (snd (aof_run after g))" using run_grows g(2) by metis
  moreover obtain rest where "af_bytes (snd (aof_run after g)) = af_bytes g @ rest" using run_extends by blast
  moreover obtain q where "p @ q = af_bytes (snd (aof_run after g))" "af_synced (snd (aof_run after g)) \<le> length p"
    using assms(2) unfolding last survives_def by blast
  ultimately have "\<exists>rest. p = af_bytes g @ rest"
    by (metis append_eq_append_conv_if append_take_drop_id order_trans)
  then show ?thesis using g(1) by (simp add: f_def)
qed

end
