(* ===== verification/Append_Order.thy ===== *)
theory Append_Order
  imports Log_Limits Log_Entries Store_Properties "HOL-Library.Multiset"
begin

text \<open>
  The order of the log under concurrency.  \<open>dispatch\<close> of \<open>src/src/command/mod.rs\<close> has two
  phases: the command's effect, under the lock of the store, and after its release the append
  to the log, under the lock of the file.  Between the two, other connections run.  Here each
  phase is a step of its own: every acknowledged write is in the log under any interleaving, and
  the keyspace is that of the effects in their order, but the log may hold another order.
\<close>

section \<open>The two phases of dispatch\<close>

text \<open>The first phase gives the reply to be sent and the entry to be logged, if any.\<close>

definition dispatch_effect ::
    "libs \<Rightarrow> env \<Rightarrow> string list \<Rightarrow> database \<Rightarrow> string \<times> string list option \<times> database" where
  "dispatch_effect lib ev tokens db =
     (if tokens = [] then ([], None, db)
      else case parse tokens of
          Inr cmd \<Rightarrow>
            (case cmd of
               CSPop key \<Rightarrow>
                 (case on_store (db_spop (ev_now ev) key) db of
                    (popped, db1) \<Rightarrow>
                      (reply_optional popped,
                       (case popped of Inr (Some member) \<Rightarrow> Some [''SREM'', key, member] | _ \<Rightarrow> None),
                       db1))
             | _ \<Rightarrow>
                 (case execute cmd lib ev db of
                    (reply, db1) \<Rightarrow>
                      (reply, if is_write cmd \<and> \<not> is_error_reply reply then Some tokens else None,
                       db1)))
        | Inl err \<Rightarrow> (resp_error (command_error_string err), None, db))"

definition dispatch_append :: "env \<Rightarrow> string list option \<Rightarrow> database \<Rightarrow> database" where
  "dispatch_append ev entry db =
     (case entry of Some tokens \<Rightarrow> log_write ev tokens db | None \<Rightarrow> db)"

lemma effect_simps:
  "dispatch_effect lib ev [] db = ([], None, db)"
  "tokens \<noteq> [] \<Longrightarrow> parse tokens = Inl err \<Longrightarrow>
     dispatch_effect lib ev tokens db = (resp_error (command_error_string err), None, db)"
  "parse tokens = Inr cmd \<Longrightarrow> (\<And>key. cmd \<noteq> CSPop key) \<Longrightarrow>
     dispatch_effect lib ev tokens db =
       (case execute cmd lib ev db of
          (reply, db1) \<Rightarrow>
            (reply, if is_write cmd \<and> \<not> is_error_reply reply then Some tokens else None, db1))"
  subgoal by (simp add: dispatch_effect_def)
  subgoal by (simp add: dispatch_effect_def)
  subgoal premises p
  proof -
    have "tokens \<noteq> []" using p(1) by (auto simp: parse_def)
    then show ?thesis using p by (cases cmd; simp add: dispatch_effect_def)
  qed
  done

text \<open>One phase right after the other is \<open>dispatch\<close>.\<close>

lemma dispatch_phases:
  "dispatch lib ev tokens db =
     (case dispatch_effect lib ev tokens db of
        (reply, entry, db1) \<Rightarrow> (reply, dispatch_append ev entry db1))"
proof (cases tokens rule: dispatch_cases)
  case (spop key)
  then show ?thesis
    by (simp add: dispatch_def dispatch_effect_def dispatch_spop_def dispatch_append_def case_prod_unfold
        split: sum.splits option.splits)
next
  case (command cmd)
  then show ?thesis
    by (simp add: dispatch_simps effect_simps dispatch_command_def dispatch_append_def case_prod_unfold)
qed (simp_all add: dispatch_simps effect_simps dispatch_append_def)

lemma append_keeps [simp]:
  "db_store (dispatch_append ev entry db) = db_store db"
  "db_replaying (dispatch_append ev entry db) = db_replaying db"
  by (simp_all add: dispatch_append_def split: option.splits)

lemma effect_facts:
  assumes "dispatch_effect lib ev tokens db = (reply, entry, db1)"
  shows "db_store db1 = db_store (snd (dispatch lib ev tokens db))"
    and "db_replaying db1 = db_replaying db" "db_aof db1 = db_aof db"
    and "logged lib ev tokens db = (case entry of None \<Rightarrow> [] | Some e \<Rightarrow> [e])"
proof -
  have d: "snd (dispatch lib ev tokens db) = dispatch_append ev entry db1"
    "fst (dispatch lib ev tokens db) = reply"
    using assms by (simp_all add: dispatch_phases)
  show "db_store db1 = db_store (snd (dispatch lib ev tokens db))" by (simp add: d)
  show "db_replaying db1 = db_replaying db"
    using dispatch_replaying [of lib ev tokens db] by (simp add: d)
  show "db_aof db1 = db_aof db"
  proof (cases tokens rule: dispatch_cases)
    case (command cmd)
    then show ?thesis using assms by (simp add: effect_simps(3) case_prod_unfold) auto
  next
    case (spop key)
    then show ?thesis using assms by (auto simp: dispatch_effect_def on_store_eq)
  qed (use assms in \<open>auto simp: effect_simps\<close>)
  show "logged lib ev tokens db = (case entry of None \<Rightarrow> [] | Some e \<Rightarrow> [e])"
    using assms
    by (cases tokens rule: dispatch_cases)
      (auto simp: logged_def effect_simps(1) dispatch_phases dispatch_effect_def on_store_eq parse_def
        case_prod_unfold reply_optional_def split: sum.splits option.splits command.splits if_splits)
qed

section \<open>Interleavings\<close>

text \<open>What connections have in flight: a connection whose write has taken effect but is not yet in the
  log, with its reply and its entry.  \<open>ra_asked\<close> is the last request of each connection,
  \<open>ra_effects\<close> are the logged writes in the order of their effects, \<open>ra_log\<close> in the order of
  their appends, and \<open>ra_replies\<close> the replies that were sent, each with the connection and the
  request it answers.\<close>

record race =
  ra_db :: database
  ra_pending :: "(nat \<times> env \<times> string \<times> string list) list"
  ra_asked :: "nat \<Rightarrow> string list"
  ra_effects :: "string list list"
  ra_log :: "string list list"
  ra_replies :: "(nat \<times> string list \<times> string) list"

definition race_start :: "database \<Rightarrow> race" where
  "race_start db =
     \<lparr>ra_db = db, ra_pending = [], ra_asked = (\<lambda>_. []), ra_effects = [], ra_log = [], ra_replies = []\<rparr>"

text \<open>A connection runs one request at a time; \<open>allowed\<close> says which requests the clients send.\<close>

inductive race_step :: "libs \<Rightarrow> (env \<times> string list \<Rightarrow> bool) \<Rightarrow> race \<Rightarrow> race \<Rightarrow> bool"
  for lib allowed where
  unlogged:
    "i \<notin> fst ` set (ra_pending s) \<Longrightarrow> allowed (ev, tokens) \<Longrightarrow>
     dispatch_effect lib ev tokens (ra_db s) = (reply, None, db') \<Longrightarrow>
     race_step lib allowed s
       (s\<lparr>ra_db := db', ra_replies := ra_replies s @ [(i, tokens, reply)]\<rparr>)"
| effect:
    "i \<notin> fst ` set (ra_pending s) \<Longrightarrow> allowed (ev, tokens) \<Longrightarrow>
     dispatch_effect lib ev tokens (ra_db s) = (reply, Some entry, db') \<Longrightarrow>
     race_step lib allowed s
       (s\<lparr>ra_db := db', ra_pending := (i, ev, reply, entry) # ra_pending s,
          ra_asked := (ra_asked s)(i := tokens), ra_effects := ra_effects s @ [entry]\<rparr>)"
| append:
    "ra_pending s = before @ (i, ev, reply, entry) # after \<Longrightarrow>
     race_step lib allowed s
       (s\<lparr>ra_db := dispatch_append ev (Some entry) (ra_db s), ra_pending := before @ after,
          ra_log := ra_log s @ [entry], ra_replies := ra_replies s @ [(i, ra_asked s i, reply)]\<rparr>)"

text \<open>The keyspace is that of the effects in their order, and the log holds all but the pending.\<close>

definition entry_of :: "nat \<times> env \<times> string \<times> string list \<Rightarrow> string list" where
  "entry_of p = (case p of (i, ev, reply, entry) \<Rightarrow> entry)"

lemma entry_of_simp [simp]: "entry_of (i, ev, reply, entry) = entry"
  by (simp add: entry_of_def)

definition race_inv :: "libs \<Rightarrow> (nat \<Rightarrow> env) \<Rightarrow> database \<Rightarrow> race \<Rightarrow> bool" where
  "race_inv lib evs fresh s \<longleftrightarrow>
     store_inv (lib_float lib) (db_store (ra_db s)) \<and> store_all members_ok (db_store (ra_db s)) \<and>
     \<not> db_replaying (ra_db s) \<and> db_aof (ra_db s) = Some (log_bytes (ra_log s)) \<and>
     log_ok (ra_effects s) \<and> same_keys (ra_db s) (run_log lib evs 0 (ra_effects s) fresh) \<and>
     mset (ra_effects s) = mset (ra_log s) + mset (map entry_of (ra_pending s)) \<and>
     (\<forall>p \<in> set (ra_pending s). case p of (i, ev, reply, entry) \<Rightarrow> ev_append_failure ev = None)"

text \<open>The effect of a request that may be sent keeps what is said of the keyspace.\<close>

lemma effect_keeps:
  assumes "ordered_float (lib_float lib)" "race_inv lib evs fresh s" "plain_request (ev, tokens)"
    and "dispatch_effect lib ev tokens (ra_db s) = (reply, entry, db')"
  defines "new \<equiv> (case entry of None \<Rightarrow> [] | Some e \<Rightarrow> [e])"
  shows "store_inv (lib_float lib) (db_store db')" "store_all members_ok (db_store db')"
    and "same_keys db' (run_log lib evs 0 (ra_effects s @ new) fresh)" "log_ok new"
proof -
  have no_ttl: "\<And>cmd. parse tokens = Inr cmd \<Longrightarrow> no_ttl cmd" and rq: "request_ok tokens"
    using assms(3) by (auto simp: plain_request_def)
  note inv = assms(2) [unfolded race_inv_def]
  note facts = effect_facts [OF assms(4), folded new_def]
  show "store_inv (lib_float lib) (db_store db')"
    using dispatch_inv [OF assms(1)] inv by (simp add: facts(1))
  show "store_all members_ok (db_store db')"
    using dispatch_members_ok [of tokens "ra_db s" lib ev] inv rq by (simp add: facts(1) request_ok_def)
  have "same_keys (snd (dispatch lib ev tokens (ra_db s)))
      (run_log lib evs (length (ra_effects s)) (logged lib ev tokens (ra_db s))
        (run_log lib evs 0 (ra_effects s) fresh))"
    using inv by (intro replay_logged no_ttl) auto
  then show "same_keys db' (run_log lib evs 0 (ra_effects s @ new) fresh)"
    by (simp add: same_keys_def run_log_append facts)
  show "log_ok new"
    using logged_ok [OF rq, of "lib_float lib" "ra_db s" lib ev] inv by (simp add: facts)
qed

lemma race_step_inv:
  assumes "ordered_float (lib_float lib)" "race_inv lib evs fresh s" "race_step lib plain_request s s'"
  shows "race_inv lib evs fresh s'"
  using assms(3)
proof (cases rule: race_step.cases)
  case (unlogged i ev tokens reply db')
  note k = effect_keeps [OF assms(1,2) unlogged(3,4)] effect_facts [OF unlogged(4)]
  show ?thesis using assms(2) k unfolding unlogged(1) by (simp add: race_inv_def)
next
  case (effect i ev tokens reply entry db')
  note k = effect_keeps [OF assms(1,2) effect(3,4)] effect_facts [OF effect(4)]
  have "ev_append_failure ev = None" using effect(3) by (simp add: plain_request_def)
  then show ?thesis using assms(2) k unfolding effect(1) by (simp add: race_inv_def)
next
  case (append before i ev reply entry after)
  have "ev_append_failure ev = None" using assms(2) append(2) by (simp add: race_inv_def)
  then have "db_aof (dispatch_append ev (Some entry) (ra_db s)) =
      Some (log_bytes (ra_log s @ [entry]))"
    using assms(2) by (simp add: race_inv_def dispatch_append_def log_write_logging)
  then show ?thesis
    using assms(2) append(2) unfolding append(1) by (simp add: race_inv_def same_keys_def)
qed

lemma race_start_inv:
  "db_store fresh = [] \<Longrightarrow>
     race_inv lib evs fresh (race_start (with_persistence t path (Some [])))"
  by (simp add: race_inv_def race_start_def same_keys_def undated_Nil store_inv_def store_all_Nil)

lemma race_run_inv:
  assumes "ordered_float (lib_float lib)" "(race_step lib plain_request)\<^sup>*\<^sup>* s s'" "race_inv lib evs fresh s"
  shows "race_inv lib evs fresh s'"
  using assms(2,3) by (induction rule: rtranclp_induct) (auto intro: race_step_inv [OF assms(1)])

lemma restart_in_order:
  assumes "\<And>fresh. db_store fresh = [] \<Longrightarrow> race_inv lib evs fresh s" "ra_log s = ra_effects s"
  shows "hm_get (db_store (restart lib evs (log_bytes (ra_log s)))) = hm_get (db_store (ra_db s))"
proof -
  obtain db0 where db0: "db_store db0 = []" "db_store (restart lib evs (log_bytes (ra_log s))) =
      db_store (snd (replay_loop lib evs 0 (log_bytes (ra_log s)) db0))"
    using restart_replays by metis
  note inv = assms(1) [OF db0(1), unfolded race_inv_def]
  have "replay_loop lib evs 0 (log_bytes (ra_log s)) db0 =
      (length (ra_log s), run_log lib evs 0 (ra_log s) db0)"
    using replay_log_torn [of "ra_log s" "[]" lib evs 0 db0] inv assms(2) by (simp add: torn_tail_def)
  then show ?thesis using inv assms(2) db0(2) by (simp add: same_keys_def)
qed

section \<open>What reaches the log\<close>

text \<open>Any request at all, as long as its append is written whole.\<close>

fun whole_append :: "env \<times> string list \<Rightarrow> bool" where
  "whole_append (ev, tokens) \<longleftrightarrow> ev_append_failure ev = None"

text \<open>The entries that the answers call for, judged by request and reply alone.\<close>

definition answered :: "(nat \<times> string list \<times> string) list \<Rightarrow> string list list \<Rightarrow> bool" where
  "answered given log \<longleftrightarrow>
     (\<exists>ess. list_all2 (\<lambda>(i, tokens, reply). log_entries tokens reply) given ess \<and>
        mset log = mset (concat ess))"

lemma answered_snoc:
  assumes "answered given log" "log_entries tokens reply es"
  shows "answered (given @ [(i, tokens, reply)]) (log @ es)"
proof -
  obtain ess where "list_all2 (\<lambda>(i, tokens, reply). log_entries tokens reply) given ess"
    "mset log = mset (concat ess)" using assms(1) unfolding answered_def by blast
  with assms(2) show ?thesis
    unfolding answered_def by (intro exI [of _ "ess @ [es]"]) (simp add: list_all2_appendI)
qed

lemma effect_entries:
  "dispatch_effect lib ev tokens db = (reply, entry, db1) \<Longrightarrow>
     log_entries tokens reply (case entry of None \<Rightarrow> [] | Some e \<Rightarrow> [e])"
  using logged_entries [of tokens lib ev db] effect_facts(4) [of lib ev tokens db reply entry db1]
  by (simp add: dispatch_phases)

definition log_inv :: "race \<Rightarrow> bool" where
  "log_inv s \<longleftrightarrow>
     \<not> db_replaying (ra_db s) \<and> db_aof (ra_db s) = Some (log_bytes (ra_log s)) \<and>
     mset (ra_effects s) = mset (ra_log s) + mset (map entry_of (ra_pending s)) \<and>
     answered (ra_replies s) (ra_log s) \<and>
     (\<forall>(i, ev, reply, entry) \<in> set (ra_pending s).
        ev_append_failure ev = None \<and> log_entries (ra_asked s i) reply [entry])"

lemma log_inv_step:
  assumes "log_inv s" "race_step lib whole_append s s'"
  shows "log_inv s'"
  using assms(2)
proof (cases rule: race_step.cases)
  case (unlogged i ev tokens reply db')
  show ?thesis
    using assms(1) answered_snoc [of "ra_replies s" "ra_log s" tokens reply "[]" i]
      effect_entries [OF unlogged(4)] effect_facts [OF unlogged(4)]
    unfolding unlogged(1) by (simp add: log_inv_def)
next
  case (effect i ev tokens reply entry db')
  then show ?thesis
    using assms(1) effect_entries [OF effect(4)] effect_facts [OF effect(4)]
    unfolding effect(1) by (force simp: log_inv_def)
next
  case (append before i ev reply entry after)
  have "ev_append_failure ev = None" "log_entries (ra_asked s i) reply [entry]"
    using assms(1) append(2) by (simp_all add: log_inv_def)
  then have "db_aof (dispatch_append ev (Some entry) (ra_db s)) = Some (log_bytes (ra_log s @ [entry]))"
    "answered (ra_replies s @ [(i, ra_asked s i, reply)]) (ra_log s @ [entry])"
    using assms(1) answered_snoc by (simp_all add: log_inv_def dispatch_append_def log_write_logging)
  then show ?thesis using assms(1) append(2) unfolding append(1) by (simp add: log_inv_def)
qed

lemma log_inv_run:
  assumes "(race_step lib whole_append)\<^sup>*\<^sup>* (race_start (with_persistence t path (Some []))) s"
  shows "log_inv s"
  using assms
proof (induction rule: rtranclp_induct)
  case base
  show ?case by (simp add: log_inv_def race_start_def answered_def)
next
  case (step s s')
  then show ?case by (blast intro: log_inv_step)
qed

lemma plain_whole: "race_step lib plain_request s s' \<Longrightarrow> race_step lib whole_append s s'"
  by (induction rule: race_step.induct) (auto simp: plain_request_def intro: race_step.intros)

section \<open>Two writers\<close>

definition put :: "string \<Rightarrow> string \<Rightarrow> string list" where
  "put k v = [''SET'', k, v]"

definition put_store :: "string \<Rightarrow> string \<Rightarrow> database \<Rightarrow> database" where
  "put_store k v db =
     db\<lparr>db_store := hm_insert k \<lparr>en_value = VStr v, en_expires_at = None\<rparr> (db_store db)\<rparr>"

lemma put_effect:
  "dispatch_effect lib ev (put k v) db = (simple_string ''OK'', Some (put k v), put_store k v db)"
  using effect_simps(3) [OF parse_set2]
  by (simp add: put_def put_store_def run_eq db_set_def is_error_reply_def simple_string_def)

lemma put_plain: "request_ok (put k v) \<Longrightarrow> plain_request (sample_env t, put k v)"
  by (simp add: plain_request_def sample_env_def) (simp add: put_def parse_set2)

lemma puts_ok:
  "request_ok (put ''k1'' ''v1'')" "request_ok (put ''k1'' ''v2'')" "request_ok (put ''k2'' ''v2'')"
proof -
  have "utf8 ''SET''" "utf8 ''k1''" "utf8 ''k2''" "utf8 ''v1''" "utf8 ''v2''" by code_simp+
  then show "request_ok (put ''k1'' ''v1'')" "request_ok (put ''k1'' ''v2'')" "request_ok (put ''k2'' ''v2'')"
    by (simp_all add: put_def request_ok_def token_ok_def MAX_MULTIBULK_def MAX_BULK_BYTES_def)
qed

text \<open>Two effects, and then their appends in the opposite order.\<close>

definition in_flight :: "nat \<Rightarrow> string list \<Rightarrow> nat \<times> env \<times> string \<times> string list" where
  "in_flight i ts = (i, sample_env 0, simple_string ''OK'', ts)"

definition put_one :: "string \<Rightarrow> database \<Rightarrow> race" where
  "put_one k db =
     \<lparr>ra_db = put_store k ''v1'' db, ra_pending = [in_flight 1 (put k ''v1'')],
      ra_asked = (\<lambda>_. [])(1 := put k ''v1''), ra_effects = [put k ''v1''], ra_log = [], ra_replies = []\<rparr>"

definition put_both :: "string \<Rightarrow> string \<Rightarrow> database \<Rightarrow> race" where
  "put_both k l db =
     \<lparr>ra_db = put_store l ''v2'' (put_store k ''v1'' db),
      ra_pending = [in_flight 2 (put l ''v2''), in_flight 1 (put k ''v1'')],
      ra_asked = (\<lambda>_. [])(1 := put k ''v1'', 2 := put l ''v2''),
      ra_effects = [put k ''v1'', put l ''v2''], ra_log = [], ra_replies = []\<rparr>"

definition put_half :: "string \<Rightarrow> string \<Rightarrow> database \<Rightarrow> race" where
  "put_half k l db =
     (put_both k l db)
       \<lparr>ra_db := dispatch_append (sample_env 0) (Some (put l ''v2'')) (ra_db (put_both k l db)),
         ra_pending := [in_flight 1 (put k ''v1'')], ra_log := [put l ''v2''],
         ra_replies := [(2, put l ''v2'', simple_string ''OK'')]\<rparr>"

definition put_done :: "string \<Rightarrow> string \<Rightarrow> database \<Rightarrow> race" where
  "put_done k l db =
     (put_half k l db)
       \<lparr>ra_db := dispatch_append (sample_env 0) (Some (put k ''v1'')) (ra_db (put_half k l db)),
         ra_pending := [], ra_log := [put l ''v2'', put k ''v1''],
         ra_replies := [(2, put l ''v2'', simple_string ''OK''), (1, put k ''v1'', simple_string ''OK'')]\<rparr>"

lemmas put_states = put_one_def put_both_def put_half_def put_done_def

lemma put_steps:
  assumes "request_ok (put k ''v1'')" "request_ok (put l ''v2'')"
  shows "race_step lib plain_request (race_start db) (put_one k db)"
    and "race_step lib plain_request (put_one k db) (put_both k l db)"
    and "race_step lib plain_request (put_both k l db) (put_half k l db)"
    and "race_step lib plain_request (put_half k l db) (put_done k l db)"
proof -
  have effect: "race_step lib plain_request s
      (s\<lparr>ra_db := put_store k v (ra_db s), ra_pending := in_flight i (put k v) # ra_pending s,
         ra_asked := (ra_asked s)(i := put k v), ra_effects := ra_effects s @ [put k v]\<rparr>)"
    if "request_ok (put k v)" "i \<notin> fst ` set (ra_pending s)" for i k v s
    unfolding in_flight_def
    by (rule race_step.effect [OF that(2) _ put_effect]) (rule put_plain [OF that(1)])
  have append: "race_step lib plain_request s
      (s\<lparr>ra_db := dispatch_append (sample_env 0) (Some ts) (ra_db s), ra_pending := after,
         ra_log := ra_log s @ [ts], ra_replies := ra_replies s @ [(i, ra_asked s i, simple_string ''OK'')]\<rparr>)"
    if "ra_pending s = in_flight i ts # after" for s after i ts
    using race_step.append [of s "[]" i "sample_env 0" "simple_string ''OK''" ts after lib plain_request] that
    by (simp add: in_flight_def)
  show "race_step lib plain_request (race_start db) (put_one k db)"
    using effect [OF assms(1), of 1 "race_start db"] by (simp add: put_states race_start_def)
  show "race_step lib plain_request (put_one k db) (put_both k l db)"
    using effect [OF assms(2), of 2 "put_one k db"] by (simp add: put_states in_flight_def)
  show "race_step lib plain_request (put_both k l db) (put_half k l db)"
    using append [of "put_both k l db" 2 "put l ''v2''"] by (simp add: put_states)
  show "race_step lib plain_request (put_half k l db) (put_done k l db)"
    using append [of "put_half k l db" 1 "put k ''v1''" "[]"] by (simp add: put_states)
qed

lemma put_reach:
  assumes "request_ok (put k ''v1'')" "request_ok (put l ''v2'')"
  shows "(race_step lib plain_request)\<^sup>*\<^sup>* (race_start db) (put_done k l db)"
  using put_steps [OF assms, of lib db] by (meson converse_rtranclp_into_rtranclp rtranclp.rtrancl_refl)

lemma put_done_aof:
  "db_aof db = Some [] \<Longrightarrow> \<not> db_replaying db \<Longrightarrow>
     db_aof (ra_db (put_done k l db)) = Some (log_bytes [put l ''v2'', put k ''v1''])"
  by (simp add: put_states put_store_def dispatch_append_def log_write_def aof_append_def sample_env_def)

lemma put_done_fields:
  "ra_pending (put_done k l db) = []" "ra_log (put_done k l db) = [put l ''v2'', put k ''v1'']"
  "ra_effects (put_done k l db) = [put k ''v1'', put l ''v2'']"
  "ra_replies (put_done k l db) =
     [(2, put l ''v2'', simple_string ''OK''), (1, put k ''v1'', simple_string ''OK'')]"
  by (simp_all add: put_states)

lemma put_done_store:
  "db_store (ra_db (put_done k l db)) = db_store (put_store l ''v2'' (put_store k ''v1'' db))"
  by (simp add: put_states)

text \<open>What a restart makes of a log of the two.\<close>

lemma restart_puts:
  assumes "request_ok (put k v)" "request_ok (put l w)"
  shows "hm_get (db_store (restart lib evs (log_bytes [put k v, put l w]))) l =
     Some \<lparr>en_value = VStr w, en_expires_at = None\<rparr>"
proof -
  obtain db0 where "db_store (restart lib evs (log_bytes [put k v, put l w])) =
      db_store (snd (replay_loop lib evs 0 (log_bytes [put k v, put l w]) db0))"
    using restart_replays by metis
  moreover have "put k v \<noteq> []" "put l w \<noteq> []" by (simp_all add: put_def)
  then have "log_ok [put k v, put l w]" using assms by simp
  then have "replay_loop lib evs 0 (log_bytes [put k v, put l w]) db0 =
      (2, run_log lib evs 0 [put k v, put l w] db0)"
    using replay_log_torn [of "[put k v, put l w]" "[]" lib evs 0 db0]
    by (simp add: torn_tail_def del: run_log.simps log_bytes.simps)
  ultimately show ?thesis
    by (simp only: snd_conv run_log.simps) (simp add: put_def dispatch_set2_store)
qed

section \<open>Properties\<close>

text \<open>C6: every answered write is in the log, however connections interleave between the effect of a write
  and its append.  Whatever the requests, as long as their appends are written whole, the log holds
  exactly the entries that the answered requests call for by their tokens and replies, each as
  often, and together with what is still pending they are the writes that took effect.  When the
  requests also set no deadline and are within the protocol limits, and the appends came in the
  order of the effects, a restart rebuilds the keyspace.\<close>

theorem interleaved_writes_are_all_logged:
  assumes "(race_step lib whole_append)\<^sup>*\<^sup>* (race_start (with_persistence t path (Some []))) s"
  shows "db_aof (ra_db s) = Some (log_bytes (ra_log s)) \<and> answered (ra_replies s) (ra_log s) \<and>
         mset (ra_effects s) = mset (ra_log s) + mset (map entry_of (ra_pending s)) \<and>
         (ordered_float (lib_float lib) \<and> ra_log s = ra_effects s \<and>
          (race_step lib plain_request)\<^sup>*\<^sup>* (race_start (with_persistence t path (Some []))) s \<longrightarrow>
            hm_get (db_store (restart lib evs (log_bytes (ra_log s)))) = hm_get (db_store (ra_db s)))"
  using log_inv_run [OF assms] restart_in_order [of lib evs s] race_run_inv [OF _ _ race_start_inv]
  unfolding log_inv_def by blast

text \<open>Two SETs, answered and logged in the opposite order of their effects.\<close>

lemma interleaved_writes_are_all_logged_witness:
  "let s = put_done ''k1'' ''k2'' (with_persistence 0 None (Some [])) in
   db_aof (ra_db s) = Some (log_bytes [put ''k2'' ''v2'', put ''k1'' ''v1'']) \<and>
   answered [(2, put ''k2'' ''v2'', simple_string ''OK''), (1, put ''k1'' ''v1'', simple_string ''OK'')]
     [put ''k2'' ''v2'', put ''k1'' ''v1'']"
proof -
  let ?db = "with_persistence 0 None (Some [])"
  have "(race_step sample_libs whole_append)\<^sup>*\<^sup>* (race_start ?db) (put_done ''k1'' ''k2'' ?db)"
    using put_reach [OF puts_ok(1,3), of sample_libs ?db]
    by (rule rtranclp_mono [THEN predicate2D, rotated]) (auto intro: plain_whole)
  from interleaved_writes_are_all_logged [OF this] show ?thesis
    by (simp only: put_done_fields Let_def simp_thms)
qed

text \<open>C13: the order may be another: two connections set the same key, both are answered, and the log holds
  the two in the opposite order of their effects, so that a restart gives the key the value that
  had been overwritten.\<close>

theorem reordered_appends_restore_an_overwritten_value:
  "\<exists>s bytes. (race_step lib plain_request)\<^sup>*\<^sup>* (race_start (with_persistence t path (Some []))) s \<and>
     ra_pending s = [] \<and> db_aof (ra_db s) = Some bytes \<and>
     hm_get (db_store (ra_db s)) ''k1'' = Some \<lparr>en_value = VStr ''v2'', en_expires_at = None\<rparr> \<and>
     hm_get (db_store (restart lib evs bytes)) ''k1'' = Some \<lparr>en_value = VStr ''v1'', en_expires_at = None\<rparr>"
proof (intro exI conjI)
  let ?db = "with_persistence t path (Some [])"
  let ?s = "put_done ''k1'' ''k1'' ?db"
  show "(race_step lib plain_request)\<^sup>*\<^sup>* (race_start ?db) ?s" by (rule put_reach [OF puts_ok(1,2)])
  show "ra_pending ?s = []" by (rule put_done_fields(1))
  show "hm_get (db_store (ra_db ?s)) ''k1'' = Some \<lparr>en_value = VStr ''v2'', en_expires_at = None\<rparr>"
    by (simp add: put_done_store put_store_def)
  show "db_aof (ra_db ?s) = Some (log_bytes [put ''k1'' ''v2'', put ''k1'' ''v1''])"
    by (rule put_done_aof) simp_all
  show "hm_get (db_store (restart lib evs (log_bytes [put ''k1'' ''v2'', put ''k1'' ''v1'']))) ''k1'' =
      Some \<lparr>en_value = VStr ''v1'', en_expires_at = None\<rparr>"
    by (rule restart_puts [OF puts_ok(2,1)])
qed

end
