(* ===== verification/Conflict_Free.thy ===== *)
theory Conflict_Free
  imports Append_Order
begin

text \<open>
  When the order of concurrent appends does not matter.  A write reads and changes only the keys it
  names (all of them for FLUSHALL), so two writes without a common key commute; and if no two writes
  that share a key are ever in flight together, the log, in whatever order, replays to the keyspace
  of the effects.
\<close>

section \<open>Locality of writes\<close>

fun touches :: "command \<Rightarrow> string \<Rightarrow> bool" where
  "touches (CSet k v ttl) = (=) k"
| "touches (CDel ks) = (\<lambda>k. k \<in> set ks)"
| "touches (CLPush k vs) = (=) k"
| "touches (CRPush k vs) = (=) k"
| "touches (CLPop k) = (=) k"
| "touches (CRPop k) = (=) k"
| "touches (CSAdd k vs) = (=) k"
| "touches (CSRem k vs) = (=) k"
| "touches (CZAdd k ms) = (=) k"
| "touches (CZRem k mb) = (=) k"
| "touches (CHSet k f v) = (=) k"
| "touches (CHDel k f) = (=) k"
| "touches (CHIncrBy k f delta) = (=) k"
| "touches (CExpire k n) = (=) k"
| "touches (CPersist k) = (=) k"
| "touches (CRename k k') = (\<lambda>j. j = k \<or> j = k')"
| "touches CFlushAll = (\<lambda>j. True)"
| "touches (CIncrBy k delta) = (=) k"
| "touches (CAppend k v) = (=) k"
| "touches (CMSet pairs) = (\<lambda>k. k \<in> fst ` set pairs)"
| "touches (CSetNx k v) = (=) k"
| "touches (CGetSet k v) = (=) k"
| "touches (CLSet k i v) = (=) k"
| "touches (CSPop k) = (=) k"
| "touches (CZIncrBy k incr mb) = (=) k"
| "touches _ = (\<lambda>j. False)"

text \<open>The keyspace after a command, whether it succeeds or not.\<close>

definition outcome :: "float_order \<Rightarrow> command \<Rightarrow> keyspace \<Rightarrow> keyspace" where
  "outcome fo cmd m = (case effect cmd fo 0 m of Inr m' \<Rightarrow> m' | Inl _ \<Rightarrow> m)"

lemma alter_local:
  "j \<noteq> k \<Longrightarrow> (case alter unwrap wrap f k m of Inr m' \<Rightarrow> m' | Inl _ \<Rightarrow> m) j = m j"
  "m k = m' k \<Longrightarrow>
     (case alter unwrap wrap f k m of Inr n \<Rightarrow> n | Inl _ \<Rightarrow> m) k =
     (case alter unwrap wrap f k m' of Inr n \<Rightarrow> n | Inl _ \<Rightarrow> m') k"
  by (auto simp: alter_def map_sum_def split: option.splits sum.splits)

lemma requires_local [simp]:
  "(case requires unwrap k m of Inr m' \<Rightarrow> m' | Inl _ \<Rightarrow> m) = m"
  "(case requires_all unwrap ks m of Inr m' \<Rightarrow> m' | Inl _ \<Rightarrow> m) = m"
  by (auto simp: requires_def requires_all_def split: option.splits)

lemma outcome_elsewhere: "\<not> touches cmd k \<Longrightarrow> outcome fo cmd m k = m k"
  by (cases cmd)
    (auto simp: outcome_def alter_local(1) requires_def map_add_dom_app_simps(3) Let_def dom_map_of_conv_image_fst image_image
      case_prod_unfold split: option.splits)

lemma outcome_there:
  assumes "\<And>k. touches cmd k \<Longrightarrow> m k = m' k" "touches cmd k"
  shows "outcome fo cmd m k = outcome fo cmd m' k"
  using assms
  by (cases cmd)
    (auto simp: outcome_def alter_local(2) [of m _ m'] requires_def Let_def map_add_def
      split: option.splits)

section \<open>Entries of the log\<close>

definition entry_outcome :: "float_order \<Rightarrow> string list \<Rightarrow> keyspace \<Rightarrow> keyspace" where
  "entry_outcome fo ts m = (case parse ts of Inr cmd \<Rightarrow> outcome fo cmd m | Inl _ \<Rightarrow> m)"

definition entry_touches :: "string list \<Rightarrow> string \<Rightarrow> bool" where
  "entry_touches ts k = (case parse ts of Inr cmd \<Rightarrow> touches cmd k | Inl _ \<Rightarrow> False)"

definition apart :: "string list \<Rightarrow> string list \<Rightarrow> bool" where
  "apart a b \<longleftrightarrow> (\<forall>k. \<not> (entry_touches a k \<and> entry_touches b k))"

lemma apart_sym: "apart a b \<longleftrightarrow> apart b a"
  by (auto simp: apart_def)

lemma entry_elsewhere: "\<not> entry_touches ts k \<Longrightarrow> entry_outcome fo ts m k = m k"
  by (auto simp: entry_outcome_def entry_touches_def outcome_elsewhere split: sum.splits)

lemma entry_there:
  "(\<And>k. entry_touches ts k \<Longrightarrow> m k = m' k) \<Longrightarrow> entry_touches ts k \<Longrightarrow>
     entry_outcome fo ts m k = entry_outcome fo ts m' k"
  by (auto simp: entry_outcome_def entry_touches_def intro: outcome_there split: sum.splits)

text \<open>Writes without a common key commute.\<close>

lemma entries_commute:
  assumes "apart a b"
  shows "entry_outcome fo b (entry_outcome fo a m) = entry_outcome fo a (entry_outcome fo b m)"
proof
  fix k
  have half: "entry_outcome fo y (entry_outcome fo x m) k = entry_outcome fo x (entry_outcome fo y m) k"
    if "apart x y" "entry_touches x k" for x y
  proof -
    have "\<not> entry_touches y j" if "entry_touches x j" for j using that \<open>apart x y\<close> by (auto simp: apart_def)
    then show ?thesis
      using entry_there [of x "entry_outcome fo y m" m k fo] entry_elsewhere that(2) by simp
  qed
  show "entry_outcome fo b (entry_outcome fo a m) k = entry_outcome fo a (entry_outcome fo b m) k"
  proof (cases "entry_touches a k")
    case True
    then show ?thesis using half [OF assms] by simp
  next
    case False
    then show ?thesis
      using half [of b a] assms apart_sym [of a b] entry_elsewhere by (cases "entry_touches b k") auto
  qed
qed

text \<open>Orders that differ in the order of such writes only.\<close>

inductive reordered :: "string list list \<Rightarrow> string list list \<Rightarrow> bool" where
  same: "reordered xs xs"
| swap: "reordered xs (ys @ a # b # zs) \<Longrightarrow> apart a b \<Longrightarrow> reordered xs (ys @ b # a # zs)"

lemma reordered_outcome:
  "reordered xs ys \<Longrightarrow> fold (entry_outcome fo) xs m = fold (entry_outcome fo) ys m"
  by (induction rule: reordered.induct) (simp_all add: entries_commute)

lemma reordered_set: "reordered xs ys \<Longrightarrow> set ys = set xs"
  by (induction rule: reordered.induct) auto

lemma reordered_snoc: "reordered xs ys \<Longrightarrow> reordered (xs @ [e]) (ys @ [e])"
proof (induction rule: reordered.induct)
  case (swap xs ys a b zs)
  then show ?case using reordered.swap [of "xs @ [e]" ys a b "zs @ [e]"] by simp
qed (rule reordered.same)

lemma reordered_move:
  "reordered xs (l @ ys @ x # r) \<Longrightarrow> \<forall>y \<in> set ys. apart y x \<Longrightarrow> reordered xs (l @ x # ys @ r)"
proof (induction ys arbitrary: r rule: rev_induct)
  case (snoc y ys)
  have "reordered xs ((l @ ys) @ x # y # r)"
    using snoc.prems reordered.swap [of xs "l @ ys" y x r] by simp
  then show ?case using snoc.IH [of "y # r"] snoc.prems(2) by simp
qed simp

section \<open>Replay as outcomes\<close>

definition plain_entry :: "string list \<Rightarrow> bool" where
  "plain_entry ts \<longleftrightarrow> (\<exists>cmd. parse ts = Inr cmd \<and> no_ttl cmd)"

lemma dispatch_outcome:
  assumes "plain_entry ts" "undated (db_store db)"
  shows "hm_get (db_store (snd (dispatch lib ev ts db))) =
           entry_outcome (lib_float lib) ts (hm_get (db_store db))"
    and "undated (db_store (snd (dispatch lib ev ts db)))"
proof -
  obtain cmd where cmd: "parse ts = Inr cmd" "no_ttl cmd" using assms(1) by (auto simp: plain_entry_def)
  show u: "undated (db_store (snd (dispatch lib ev ts db)))"
    by (rule dispatch_undated) (use cmd assms(2) in auto)
  show "hm_get (db_store (snd (dispatch lib ev ts db))) =
      entry_outcome (lib_float lib) ts (hm_get (db_store db))"
  proof (cases "effect cmd (lib_float lib) 0 (hm_get (db_store db))")
    case (Inr m)
    then show ?thesis
      using get_dispatch [OF cmd assms(2) Inr] by (simp add: entry_outcome_def outcome_def cmd(1))
  next
    case (Inl err)
    then have "cmd \<noteq> CSave" by auto
    moreover have "effect cmd (lib_float lib) (ev_now ev) (hm_get (db_store db)) = Inl err"
      using Inl effect_timeless [OF cmd(2)] by metis
    ultimately have "live (ev_now ev) (db_store (snd (dispatch lib ev ts db))) =
        live (ev_now ev) (db_store db)"
      using dispatch_refines [OF cmd(1), of ev db lib] assms(2) by (simp add: refines_def live_undated)
    then show ?thesis
      using Inl u assms(2) by (simp add: entry_outcome_def outcome_def cmd(1) live_undated)
  qed
qed

lemma run_log_outcome:
  "\<forall>ts \<in> set log. plain_entry ts \<Longrightarrow> undated (db_store db) \<Longrightarrow>
     hm_get (db_store (run_log lib evs i log db)) =
       fold (entry_outcome (lib_float lib)) log (hm_get (db_store db))"
  by (induction log arbitrary: i db) (simp_all add: dispatch_outcome)

section \<open>Runs without conflicts\<close>

text \<open>No two writes in flight share a key.\<close>

definition no_conflict :: "race \<Rightarrow> bool" where
  "no_conflict s \<longleftrightarrow> sorted_wrt apart (map entry_of (ra_pending s))"

definition careful_step :: "libs \<Rightarrow> race \<Rightarrow> race \<Rightarrow> bool" where
  "careful_step lib s s' \<longleftrightarrow> race_step lib plain_request s s' \<and> no_conflict s'"

definition careful_inv :: "race \<Rightarrow> bool" where
  "careful_inv s \<longleftrightarrow>
     no_conflict s \<and> (\<forall>ts \<in> set (ra_effects s). plain_entry ts) \<and>
     reordered (ra_effects s) (ra_log s @ rev (map entry_of (ra_pending s)))"

lemma effect_plain_entry:
  assumes "plain_request (ev, ts)" "dispatch_effect lib ev ts db = (reply, Some entry, db')"
  shows "plain_entry entry"
proof -
  have l: "logged lib ev ts db = [entry]" using effect_facts(4) [OF assms(2)] by simp
  show ?thesis
  proof (cases rule: logged_cases [of lib ev ts db])
    case (2 cmd)
    then show ?thesis using l assms(1) by (simp add: plain_entry_def plain_request_def)
  next
    case (3 key x)
    then show ?thesis using l parse_srem [of key x] by (auto simp: plain_entry_def)
  qed (use l in simp)
qed

lemma careful_step_inv:
  assumes "careful_inv s" "careful_step lib s s'"
  shows "careful_inv s'"
proof -
  have step: "race_step lib plain_request s s'" and free: "no_conflict s'"
    using assms(2) by (simp_all add: careful_step_def)
  from step show ?thesis
  proof (cases rule: race_step.cases)
    case (unlogged i ev tokens reply db')
    then show ?thesis using assms(1) by (simp add: careful_inv_def no_conflict_def)
  next
    case (effect i ev tokens reply entry db')
    have "plain_entry entry" by (rule effect_plain_entry [OF effect(3,4)])
    then show ?thesis
      using assms(1) free
        reordered_snoc [of "ra_effects s" "ra_log s @ rev (map entry_of (ra_pending s))" entry]
      unfolding effect(1) by (simp add: careful_inv_def)
  next
    case (append before i ev reply entry after)
    let ?old = "rev (map entry_of after)"
    have "reordered (ra_effects s) (ra_log s @ ?old @ entry # rev (map entry_of before))"
      using assms(1) append(2) by (simp add: careful_inv_def)
    moreover have "\<forall>y \<in> set ?old. apart y entry"
      using assms(1) append(2) apart_sym
      by (auto simp: careful_inv_def no_conflict_def sorted_wrt_append)
    ultimately have "reordered (ra_effects s) (ra_log s @ entry # ?old @ rev (map entry_of before))"
      by (rule reordered_move)
    then show ?thesis
      using assms(1) free unfolding append(1) by (simp add: careful_inv_def)
  qed
qed

lemma careful_run:
  assumes "(careful_step lib)\<^sup>*\<^sup>* (race_start db) s"
  shows "(race_step lib plain_request)\<^sup>*\<^sup>* (race_start db) s \<and> careful_inv s"
  using assms
proof (induction rule: rtranclp_induct)
  case base
  show ?case by (simp add: careful_inv_def no_conflict_def race_start_def reordered.same)
next
  case (step s s')
  then show ?case
    using careful_step_inv by (auto simp: careful_step_def intro: rtranclp.rtrancl_into_rtrancl)
qed

text \<open>C7: writes may be logged in another order than their effects without harm as long as no two that share
  a key are in flight together, the requests set no deadline and are within the protocol limits,
  and no append fails: once all are answered, a restart on the log, whatever its order, rebuilds
  exactly the keyspace.\<close>

theorem conflict_free_log_restores_the_keyspace:
  assumes "ordered_float (lib_float lib)"
    and "(careful_step lib)\<^sup>*\<^sup>* (race_start (with_persistence t path (Some []))) s"
    and "ra_pending s = []" "db_aof (ra_db s) = Some bytes"
  shows "hm_get (db_store (restart lib evs bytes)) = hm_get (db_store (ra_db s))"
proof -
  have run: "(race_step lib plain_request)\<^sup>*\<^sup>* (race_start (with_persistence t path (Some []))) s"
    and careful: "\<forall>ts \<in> set (ra_effects s). plain_entry ts" "reordered (ra_effects s) (ra_log s)"
    using careful_run [OF assms(2)] assms(3) by (simp_all add: careful_inv_def)
  obtain db0 where db0: "db_store db0 = []"
    "db_store (restart lib evs bytes) = db_store (snd (replay_loop lib evs 0 bytes db0))"
    using restart_replays by metis
  note inv = race_run_inv [OF assms(1) run race_start_inv [OF db0(1), of lib evs t path], unfolded race_inv_def]
  have same: "set (ra_log s) = set (ra_effects s)" by (rule reordered_set [OF careful(2)])
  then have "log_ok (ra_log s)" using inv by (simp add: log_ok_def)
  then have "replay_loop lib evs 0 bytes db0 = (length (ra_log s), run_log lib evs 0 (ra_log s) db0)"
    using replay_log_torn [of "ra_log s" "[]" lib evs 0 db0] inv assms(4) by (simp add: torn_tail_def)
  moreover have "undated (db_store db0)" by (simp add: db0(1) undated_Nil)
  ultimately show ?thesis
    using inv db0 careful same reordered_outcome [OF careful(2)]
      run_log_outcome [of "ra_log s" db0 lib evs 0] run_log_outcome [of "ra_effects s" db0 lib evs 0]
    by (simp add: same_keys_def)
qed

lemma put_apart: "k \<noteq> l \<Longrightarrow> apart (put k v) (put l w)"
  by (simp add: apart_def entry_touches_def put_def parse_set2)

lemma put_careful:
  assumes "request_ok (put k ''v1'')" "request_ok (put l ''v2'')" "k \<noteq> l"
  shows "(careful_step lib)\<^sup>*\<^sup>* (race_start db) (put_done k l db)"
proof -
  have "no_conflict (put_one k db)" "no_conflict (put_both k l db)" "no_conflict (put_half k l db)"
    "no_conflict (put_done k l db)"
    using put_apart [of l k "''v2''" "''v1''"] assms(3) by (simp_all add: no_conflict_def put_states in_flight_def)
  with put_steps [OF assms(1,2), of lib db] have
    "careful_step lib (race_start db) (put_one k db)" "careful_step lib (put_one k db) (put_both k l db)"
    "careful_step lib (put_both k l db) (put_half k l db)"
    "careful_step lib (put_half k l db) (put_done k l db)" by (simp_all add: careful_step_def)
  then show ?thesis by (meson converse_rtranclp_into_rtranclp rtranclp.rtrancl_refl)
qed

lemma conflict_free_log_restores_the_keyspace_witness:
  "hm_get (db_store (restart sample_libs sample_env
       (log_bytes [put ''k2'' ''v2'', put ''k1'' ''v1'']))) =
   [''k1'' \<mapsto> \<lparr>en_value = VStr ''v1'', en_expires_at = None\<rparr>,
    ''k2'' \<mapsto> \<lparr>en_value = VStr ''v2'', en_expires_at = None\<rparr>]"
proof -
  let ?db = "with_persistence 0 None (Some [])"
  have "db_aof (ra_db (put_done ''k1'' ''k2'' ?db)) = Some (log_bytes [put ''k2'' ''v2'', put ''k1'' ''v1''])"
    by (rule put_done_aof) simp_all
  moreover have "ra_pending (put_done ''k1'' ''k2'' ?db) = []" by (rule put_done_fields(1))
  moreover have "(careful_step sample_libs)\<^sup>*\<^sup>* (race_start ?db) (put_done ''k1'' ''k2'' ?db)"
    by (rule put_careful [OF puts_ok(1,3)]) simp
  ultimately show ?thesis
    using conflict_free_log_restores_the_keyspace [OF sample_facts(1)]
    by (simp add: put_done_store put_store_def fun_eq_iff)
qed

end
