(* ===== verification/Log_Lifetimes.thy ===== *)
theory Log_Lifetimes
  imports Startup Log_Limits Store_Properties
begin

text \<open>
  Recovery in append-only mode over whole lifetimes of the server: connections that interleave,
  transactions, the sweeper, saves, and any number of ends and starts.  A step of \<open>sys_step\<close> is
  labelled with the request or queued command it executes; a write's effect and its append are one
  step here, which \<open>Append_Order\<close> takes apart.
\<close>

section \<open>What a step executes\<close>

inductive traffic ::
    "libs \<Rightarrow> (env \<times> string list) option \<Rightarrow> system \<Rightarrow> system \<Rightarrow> bool" for lib where
  connect:
    "client_connected (sys_db s) = (n, db1) \<Longrightarrow> session_new (sys_seen s) db1 = (ss, db2) \<Longrightarrow>
     traffic lib None s (s\<lparr>sys_db := db2,
       sys_conns := (sys_conns s)(sys_seen s \<mapsto> \<lparr>cn_session = ss, cn_running = None, cn_out = []\<rparr>),
       sys_seen := sys_seen s + 1\<rparr>)"
| request:
    "sys_conns s i = Some c \<Longrightarrow> cn_running c = None \<Longrightarrow> starts_exec (cn_session c) tokens = None \<Longrightarrow>
     ev_open_boxes ev = dom (sys_conns s) \<Longrightarrow>
     handle lib (\<lambda>_. ev) tokens (cn_session c) (sys_db s) = (r, ss', db') \<Longrightarrow>
     traffic lib (Some (ev, tokens)) s (s\<lparr>sys_db := db',
       sys_conns := (sys_conns s)(i \<mapsto> c\<lparr>cn_session := ss', cn_out := cn_out c @ r\<rparr>)\<rparr>)"
| exec_start:
    "sys_conns s i = Some c \<Longrightarrow> cn_running c = None \<Longrightarrow>
     starts_exec (cn_session c) tokens = Some cmds \<Longrightarrow>
     traffic lib None s (s\<lparr>sys_conns := (sys_conns s)(i \<mapsto>
       c\<lparr>cn_session := (cn_session c)\<lparr>ss_transaction := None\<rparr>,
         cn_running := Some (cmds, ''*'' @ show_nat (length cmds) @ crlf)\<rparr>)\<rparr>)"
| exec_next:
    "sys_conns s i = Some c \<Longrightarrow> cn_running c = Some (cmd # cmds, reply) \<Longrightarrow>
     ev_open_boxes ev = dom (sys_conns s) \<Longrightarrow>
     dispatch lib ev cmd (sys_db s) = (r, db') \<Longrightarrow>
     traffic lib (Some (ev, cmd)) s (s\<lparr>sys_db := db',
       sys_conns := (sys_conns s)(i \<mapsto> c\<lparr>cn_running := Some (cmds, reply @ r)\<rparr>)\<rparr>)"
| exec_done:
    "sys_conns s i = Some c \<Longrightarrow> cn_running c = Some ([], reply) \<Longrightarrow>
     traffic lib None s (s\<lparr>sys_conns := (sys_conns s)(i \<mapsto>
       c\<lparr>cn_running := None, cn_out := cn_out c @ reply\<rparr>)\<rparr>)"
| disconnect:
    "sys_conns s i = Some c \<Longrightarrow> cn_running c = None \<Longrightarrow>
     traffic lib None s (s\<lparr>sys_db := client_disconnected (cleanup (cn_session c) (sys_db s)),
       sys_conns := (sys_conns s)(i := None)\<rparr>)"
| sweep_step:
    "traffic lib None s (s\<lparr>sys_db := snd (sweep ev (sys_db s))\<rparr>)"
| save_step:
    "0 < db_pending_saves (sys_db s) \<Longrightarrow>
     traffic lib None s (s\<lparr>sys_db := snd (db_save lib ev
       (sys_db s\<lparr>db_pending_saves := db_pending_saves (sys_db s) - 1\<rparr>))\<rparr>)"

text \<open>These are exactly the steps of the server.\<close>

lemma traffic_sys_step: "(\<exists>l. traffic lib l s s') \<longleftrightarrow> sys_step lib s s'"
proof
  assume "\<exists>l. traffic lib l s s'"
  then show "sys_step lib s s'" by (auto elim!: traffic.cases intro: sys_step.intros)
next
  assume "sys_step lib s s'"
  then show "\<exists>l. traffic lib l s s'" by cases (blast intro: traffic.intros)+
qed

section \<open>Steps that leave the data alone\<close>

definition same_data :: "database \<Rightarrow> database \<Rightarrow> bool" where
  "same_data db db' \<longleftrightarrow>
     db_store db' = db_store db \<and> db_aof db' = db_aof db \<and> db_replaying db' = db_replaying db"

lemma same_data_refl [simp]: "same_data db db"
  by (simp add: same_data_def)

lemma same_data_subscribe [simp]: "same_data db (db_subscribe ch i b db)"
  "same_data db (db_unsubscribe ch i db)"
  by (simp_all add: same_data_def db_subscribe_def db_unsubscribe_def)

lemma same_data_trans: "same_data db1 db2 \<Longrightarrow> same_data db2 db3 \<Longrightarrow> same_data db1 db3"
  by (simp add: same_data_def)

lemma registry_change_data: "registry_change i db db' \<Longrightarrow> same_data db db'"
  by (auto simp: registry_change_def same_data_def)

lemma loops_data:
  "subscribe_loop chs r ss db = (r', ss', db') \<Longrightarrow> same_data db db'"
  "unsubscribe_loop chs r ss db = (r', ss', db') \<Longrightarrow> same_data db db'"
  subgoal by (induction chs r ss db rule: subscribe_loop.induct)
      (auto simp: Let_def intro: same_data_trans [OF same_data_subscribe(1)] split: if_splits)
  subgoal by (induction chs r ss db rule: unsubscribe_loop.induct)
      (auto simp: Let_def intro: same_data_trans [OF same_data_subscribe(2)] split: if_splits)
  done

lemma subscriptions_data:
  "subscribe chs ss db = (r, ss', db') \<Longrightarrow> same_data db db'"
  "unsubscribe chs ss db = (r, ss', db') \<Longrightarrow> same_data db db'"
  by (auto simp: subscribe_def unsubscribe_def Let_def split: if_splits intro: loops_data)

text \<open>A request that does not start an EXEC runs at most one command.\<close>

lemma handle_data:
  assumes "handle lib evs tokens ss db = (r, ss', db')" "starts_exec ss tokens = None"
  shows "same_data db db' \<or> db' = snd (dispatch lib (evs 0) tokens db)"
  using assms(1)
proof (cases rule: handle_cases)
  case exec
  show ?thesis
  proof (cases "tokens = []")
    case True
    then show ?thesis using assms(1) by (simp add: handle_def)
  next
    case False
    then have "tx_dirty tx" if "ss_transaction ss = Some tx" for tx
      using assms(2) exec(1,2) that by (auto simp: starts_exec_def split: if_splits)
    from exec_unclean [of ss, OF this] exec(3) show ?thesis by (metis same_data_refl snd_conv)
  qed
qed (auto dest: subscriptions_data)

text \<open>A step that executes no command leaves the data alone, or is a sweep; one that executes a request
  leaves it alone or runs its command.\<close>

lemma traffic_quiet:
  assumes "traffic lib None s s'"
  shows "same_data (sys_db s) (sys_db s') \<or> (\<exists>ev. s' = s\<lparr>sys_db := snd (sweep ev (sys_db s))\<rparr>)"
  using assms
proof (cases rule: traffic.cases)
  case (connect n db1 ss db2)
  then show ?thesis
    by (auto simp: session_new_def next_subscriber_id_def client_connected_def same_data_def Let_def case_prod_unfold)
next
  case (disconnect i c)
  then show ?thesis
    using registry_change_data [OF cleanup_registry_change]
    by (simp add: cleanup_def client_disconnected_def same_data_def)
next
  case (save_step ev)
  then show ?thesis by (auto simp: same_data_def db_save_def split: option.splits)
qed auto

lemma traffic_command:
  "traffic lib (Some (ev, ts)) s s' \<Longrightarrow>
   same_data (sys_db s) (sys_db s') \<or> sys_db s' = snd (dispatch lib ev ts (sys_db s))"
  by (cases rule: traffic.cases) (auto dest: handle_data)

section \<open>The log holds the keyspace\<close>

text \<open>The log can be replayed, at any time, to the keys of the store.\<close>

definition logs_all :: "libs \<Rightarrow> database \<Rightarrow> string list list \<Rightarrow> bool" where
  "logs_all lib db log \<longleftrightarrow>
     (\<forall>evs fresh. db_store fresh = [] \<longrightarrow> recoverable lib evs fresh db log)"

definition plain_label :: "(env \<times> string list) option \<Rightarrow> bool" where
  "plain_label l \<longleftrightarrow> (case l of Some r \<Rightarrow> plain_request r | None \<Rightarrow> True)"

lemma logs_all_data: "logs_all lib db log \<Longrightarrow> same_data db db' \<Longrightarrow> logs_all lib db' log"
  by (simp add: logs_all_def same_data_def recoverable_def same_keys_def)

lemma logs_all_dispatch:
  assumes "ordered_float (lib_float lib)" "plain_request (ev, ts)" "logs_all lib db log"
  shows "logs_all lib (snd (dispatch lib ev ts db)) (log @ logged lib ev ts db)"
  using assms(3) recoverable_step [OF assms(1,2)] by (simp add: logs_all_def)

lemma sweep_undated:
  assumes "undated s" "hm_wf s"
  shows "snd (db_sweep_expired now s) = s"
proof -
  have "\<not> is_expired now e" if "(k, e) \<in> set s" for k e
    using assms map_of_is_SomeI [OF _ that] by (auto simp: undated_def is_expired_def split: option.splits)
  then show ?thesis by (auto simp: db_sweep_expired_def Let_def filter_id_conv)
qed

lemma sweep_data:
  assumes "logs_all lib db log"
  shows "same_data db (snd (sweep ev db))"
proof -
  have "recoverable lib (\<lambda>_. ev) (db\<lparr>db_store := []\<rparr>) db log" using assms by (simp add: logs_all_def)
  then have "undated (db_store db)" "hm_wf (db_store db)"
    by (auto simp: recoverable_def same_keys_def store_all_alt)
  from sweep_undated [OF this] show ?thesis by (simp add: sweep_def on_store_eq same_data_def)
qed

lemma traffic_logs:
  assumes "ordered_float (lib_float lib)" "logs_all lib (sys_db s) log" "traffic lib l s s'" "plain_label l"
  shows "\<exists>log'. logs_all lib (sys_db s') log'"
proof (cases l)
  case None
  then have "same_data (sys_db s) (sys_db s')"
    using assms(3) sweep_data [OF assms(2)] by (auto dest!: traffic_quiet)
  with assms(2) show ?thesis by (blast intro: logs_all_data)
next
  case (Some r)
  obtain ev ts where r: "r = (ev, ts)" by fastforce
  then have "plain_request (ev, ts)" using assms(4) Some by (simp add: plain_label_def)
  from logs_all_dispatch [OF assms(1) this assms(2)] show ?thesis
    using traffic_command [of lib ev ts s s'] assms(2,3) Some r by (auto dest: logs_all_data)
qed

section \<open>Lifetimes on the log\<close>

text \<open>A server in append-only mode, through its lifetimes, as long as its requests set no deadline and
  their appends are written whole: it starts without a log, serves, ends at any time, by a
  shutdown or not, and starts again on the log it left.\<close>

inductive logged_life :: "libs \<Rightarrow> config \<Rightarrow> system \<Rightarrow> bool" for lib cf where
  first:
    "dk_aof dk = None \<Longrightarrow> log_readable dk \<Longrightarrow> init_persistence lib evs cf dk = Inr (db, policy) \<Longrightarrow>
     logged_life lib cf (booted db)"
| serve:
    "logged_life lib cf s \<Longrightarrow> traffic lib l s s' \<Longrightarrow> plain_label l \<Longrightarrow> logged_life lib cf s'"
| again:
    "logged_life lib cf s \<Longrightarrow> ended lib s left \<Longrightarrow> dk_aof dk = db_aof left \<Longrightarrow> log_readable dk \<Longrightarrow>
     init_persistence lib evs cf dk = Inr (db, policy) \<Longrightarrow> logged_life lib cf (booted db)"

lemma ended_data: "ended lib s left \<Longrightarrow> same_data (sys_db s) left"
  by (auto simp: ended_def same_data_def server_shutdown_def db_save_def split: option.splits)

lemma logs_all_aof: "logs_all lib db log \<Longrightarrow> db_aof db = Some (log_bytes log)"
proof -
  assume "logs_all lib db log"
  then have "recoverable lib (\<lambda>_. undefined) (db\<lparr>db_store := []\<rparr>) db log" by (simp add: logs_all_def)
  then show ?thesis by (simp add: recoverable_def)
qed

text \<open>A start on the log, also one whose last entry is torn, gives the same keys.\<close>

lemma start_on_log:
  assumes "logs_all lib db log" "torn_tail tail" "dk_aof dk = Some (log_bytes log @ tail)" "log_readable dk"
    and "cf_appendonly cf" "fsync_policy_from_str (cf_appendfsync cf) = Inr policy"
  shows "\<exists>db'. init_persistence lib evs cf dk = Inr (db', Some policy) \<and>
           hm_get (db_store db') = hm_get (db_store db) \<and> \<not> db_replaying db' \<and>
           db_aof db' = Some (log_bytes log @ tail)"
proof -
  let ?fresh = "begin_replay (fresh_database (evs 0) cf dk (log_bytes log @ tail))"
  have r: "recoverable lib evs ?fresh db log" using assms(1) by (simp add: logs_all_def)
  then have "replay_loop lib evs 0 (log_bytes log @ tail) ?fresh = (length log, run_log lib evs 0 log ?fresh)"
    using replay_log_torn [OF _ assms(2), of log lib evs 0 ?fresh] by (simp add: recoverable_def)
  moreover have "db_aof (snd (replay_loop lib evs 0 (log_bytes log @ tail) ?fresh)) = Some (log_bytes log @ tail)"
    by (subst replay_loop_keeps_aof) (simp_all add: begin_replay_def)
  ultimately show ?thesis
    using init_append_only [OF assms(5,6,3,4), of lib evs] r
    by (simp add: recoverable_def same_keys_def end_replay_def)
qed

lemma torn_nothing: "torn_tail []"
  by (simp add: torn_tail_def)

text \<open>So the server it starts can be recovered from the same log again.\<close>

lemma logs_all_restarted:
  assumes "ordered_float (lib_float lib)" "logs_all lib db log" "dk_aof dk = Some (log_bytes log)" "log_readable dk"
    and "cf_appendonly cf" "init_persistence lib evs cf dk = Inr (db', policy)"
  shows "logs_all lib db' log"
proof -
  obtain p where p: "fsync_policy_from_str (cf_appendfsync cf) = Inr p"
    using assms(5,6) by (auto simp: init_persistence_def split: sum.splits)
  have db': "hm_get (db_store db') = hm_get (db_store db)" "\<not> db_replaying db'" "db_aof db' = Some (log_bytes log)"
    using start_on_log [OF assms(2) torn_nothing _ assms(4,5) p, of evs] assms(3,6) by auto
  have inv: "store_inv (lib_float lib) (db_store db')"
    using init_idle [OF assms(1,6)] assms(5) by (simp add: idle_def)
  show ?thesis
    unfolding logs_all_def
  proof (intro allI impI)
    fix evs' :: "nat \<Rightarrow> env" and fresh :: database
    assume "db_store fresh = []"
    then have "recoverable lib evs' fresh db log" using assms(2) by (simp add: logs_all_def)
    then show "recoverable lib evs' fresh db' log"
      using db' inv by (auto simp: recoverable_def same_keys_def undated_def store_inv_def store_all_alt)
  qed
qed

text \<open>A missing log is created empty.\<close>

lemma init_missing_log:
  assumes "cf_appendonly cf" "dk_aof dk = None"
  shows "init_persistence lib evs cf (dk\<lparr>dk_aof := Some []\<rparr>) = init_persistence lib evs cf dk"
proof (cases "fsync_policy_from_str (cf_appendfsync cf)")
  case (Inr policy)
  then show ?thesis using assms by (cases "dk_open_error dk") (simp_all add: init_persistence_def)
qed (simp add: assms(1) init_persistence_def)

lemma first_start:
  assumes "cf_appendonly cf" "dk_aof dk = None" "log_readable dk"
    and "init_persistence lib evs cf dk = Inr (db, policy)"
  shows "db_store db = []" "db_aof db = Some []" "\<not> db_replaying db"
proof -
  obtain p where "fsync_policy_from_str (cf_appendfsync cf) = Inr p"
    using assms(1,4) by (auto simp: init_persistence_def split: sum.splits)
  from init_append_only [OF assms(1) this, of "dk\<lparr>dk_aof := Some []\<rparr>" "[]" lib evs]
  have "db = end_replay (snd (replay_loop lib evs 0 [] (begin_replay
      (fresh_database (evs 0) cf (dk\<lparr>dk_aof := Some []\<rparr>) []))))"
    using assms(3,4) init_missing_log [OF assms(1,2), of lib evs] by (simp add: log_readable_def)
  then show "db_store db = []" "db_aof db = Some []" "\<not> db_replaying db"
    using replay_log_torn [OF _ torn_nothing, of "[]" lib evs 0]
    by (simp_all add: begin_replay_def end_replay_def)
qed

lemma log_starts:
  assumes "cf_appendonly cf" "fsync_policy_from_str (cf_appendfsync cf) = Inr policy" "log_readable dk"
  obtains db where "init_persistence lib evs cf dk = Inr (db, Some policy)"
  using assms by (auto simp: init_persistence_def log_readable_def Let_def case_prod_unfold)

lemma life_logs:
  assumes "ordered_float (lib_float lib)" "cf_appendonly cf"
  shows "logged_life lib cf s \<Longrightarrow> \<exists>log. logs_all lib (sys_db s) log"
proof (induction rule: logged_life.induct)
  case (first dk evs db policy)
  let ?new = "with_persistence 0 None (Some [])" and ?dk = "dk\<lparr>dk_aof := Some []\<rparr>"
  have new: "logs_all lib ?new []" by (simp add: logs_all_def recoverable_fresh)
  have log: "dk_aof ?dk = Some (log_bytes [])" "log_readable ?dk"
    using first(2) by (simp_all add: log_readable_def)
  have "init_persistence lib evs cf ?dk = Inr (db, policy)"
    using first(3) init_missing_log [OF assms(2) first(1)] by simp
  from logs_all_restarted [OF assms(1) new log assms(2) this] have "logs_all lib db []" .
  then show ?case by (auto simp: booted_def)
next
  case (serve s l s')
  then show ?case using traffic_logs [OF assms(1)] by blast
next
  case (again s left dk evs db policy)
  then obtain log where log: "logs_all lib left log" using logs_all_data ended_data by blast
  then have "dk_aof dk = Some (log_bytes log)" using again(3) by (simp add: logs_all_aof)
  from logs_all_restarted [OF assms(1) log this again(4) assms(2) again(5)]
  have "logs_all lib db log" .
  then show ?case by (auto simp: booted_def)
qed

section \<open>A sample life\<close>

lemma handle_set:
  assumes "ss_transaction ss = None" "ss_channels ss = []"
  shows "handle lib evs (''SET'' # args) ss db =
    (case dispatch lib (evs 0) (''SET'' # args) db of (r, db') \<Rightarrow> (r, ss, db'))"
proof -
  have "to_ascii_uppercase ''SET'' = ''SET''" by code_simp
  then show ?thesis using assms by (simp add: handle_def is_subscribed_def)
qed

lemma starts_exec_idle: "ss_transaction ss = None \<Longrightarrow> starts_exec ss tokens = None"
  by (simp add: starts_exec_def)

text \<open>A client connects and sets a key.\<close>

lemma client_sets:
  assumes "ev_open_boxes ev = {0}"
  obtains s s' where "traffic lib None (booted db) s" "same_data db (sys_db s)"
    "traffic lib (Some (ev, ''SET'' # args)) s s'" "sys_db s' = snd (dispatch lib ev (''SET'' # args) (sys_db s))"
proof -
  obtain n db1 where n: "client_connected (sys_db (booted db)) = (n, db1)" by fastforce
  obtain ss db2 where ss: "session_new (sys_seen (booted db)) db1 = (ss, db2)" by fastforce
  have fresh: "ss_transaction ss = None" "ss_channels ss = []"
    using ss by (auto simp: session_new_def next_subscriber_id_def case_prod_unfold)
  let ?c = "\<lparr>cn_session = ss, cn_running = None, cn_out = []\<rparr>"
  let ?s = "(booted db)\<lparr>sys_db := db2, sys_conns := (sys_conns (booted db))(sys_seen (booted db) \<mapsto> ?c),
    sys_seen := sys_seen (booted db) + 1\<rparr>"
  have data: "same_data db (sys_db ?s)"
    using n ss by (auto simp: booted_def session_new_def next_subscriber_id_def client_connected_def
        same_data_def Let_def case_prod_unfold)
  obtain r db3 where d: "dispatch lib ev (''SET'' # args) db2 = (r, db3)" by fastforce
  have boxes: "ev_open_boxes ev = dom (sys_conns ?s)" by (simp add: booted_def assms)
  have h: "handle lib (\<lambda>_. ev) (''SET'' # args) (cn_session ?c) (sys_db ?s) = (r, ss, db3)"
    by (simp add: handle_set fresh d)
  have conn: "sys_conns ?s 0 = Some ?c" by (simp add: booted_def)
  have idle: "cn_running ?c = None" "starts_exec (cn_session ?c) (''SET'' # args) = None"
    by (simp_all add: starts_exec_idle fresh)
  show thesis by (rule that [OF traffic.connect [OF n ss] data traffic.request [OF conn idle boxes h]]) (simp add: d)
qed

lemma life_with_set:
  assumes "logged_life lib cf (booted db)" "plain_request ((sample_env 0)\<lparr>ev_open_boxes := {0}\<rparr>, [''SET'', k, v])"
  obtains s where "logged_life lib cf s"
    "hm_get (db_store (sys_db s)) k = Some \<lparr>en_value = VStr v, en_expires_at = None\<rparr>"
proof -
  let ?ev = "(sample_env 0)\<lparr>ev_open_boxes := {0}\<rparr>"
  obtain s s' where s: "traffic lib None (booted db) s" "traffic lib (Some (?ev, [''SET'', k, v])) s s'"
    "sys_db s' = snd (dispatch lib ?ev [''SET'', k, v] (sys_db s))"
    by (rule client_sets [of ?ev lib db "[k, v]"]) simp_all
  have "logged_life lib cf s'"
    by (rule serve [OF serve [OF assms(1) s(1)] s(2)]) (use assms(2) in \<open>simp_all add: plain_label_def\<close>)
  then show thesis using dispatch_set2_store [of lib ?ev k v "sys_db s"] s(3) by (intro that [of s']) simp_all
qed

section \<open>The property\<close>

text \<open>C1: recovery over whole lifetimes.  Take any life of a server in append-only mode: its connections
  interleave, transactions run, clients come and go, the sweeper and saves run, it ends by a
  shutdown or a crash and starts again, any number of times, on the log it left.  As long as its
  requests set no deadline and are within the protocol limits (\<open>request_ok\<close>: at most
  \<open>MAX_MULTIBULK\<close> arguments, of at most \<open>MAX_BULK_BYTES\<close> bytes of UTF-8), no append fails, and a
  write's effect and its append are one step, one more start, even after a crash that tore the last
  append, rebuilds exactly the keyspace as the server had it at the end, with logging on.\<close>

theorem every_restart_restores_the_keyspace:
  assumes "ordered_float (lib_float lib)" "logged_life lib cf s" "ended lib s left"
    and "db_aof left = Some bytes" "torn_tail tail" "dk_aof dk = Some (bytes @ tail)" "log_readable dk"
    and "cf_appendonly cf" "fsync_policy_from_str (cf_appendfsync cf) = Inr policy"
  shows "\<exists>db'. init_persistence lib evs cf dk = Inr (db', Some policy) \<and>
           hm_get (db_store db') = hm_get (db_store left) \<and> \<not> db_replaying db'"
proof -
  obtain log where log: "logs_all lib left log"
    using life_logs [OF assms(1,8,2)] logs_all_data ended_data [OF assms(3)] by blast
  have "dk_aof dk = Some (log_bytes log @ tail)" using logs_all_aof [OF log] assms(4,6) by simp
  from start_on_log [OF log assms(5) this assms(7-9), of evs] show ?thesis by blast
qed

text \<open>A server starts, a client sets a key, the server crashes and starts again, and crashes once more
  while it appends.\<close>

lemma every_restart_restores_the_keyspace_witness:
  "\<exists>s bytes db'. logged_life sample_libs (default_config\<lparr>cf_appendonly := True\<rparr>) s \<and>
     db_aof (sys_db s) = Some bytes \<and>
     init_persistence sample_libs sample_env (default_config\<lparr>cf_appendonly := True\<rparr>)
       (good_disk None (Some (bytes @ torn_set))) = Inr (db', Some FsyncEverySec) \<and>
     hm_get (db_store db') ''k1'' = Some \<lparr>en_value = VStr ''v1'', en_expires_at = None\<rparr>"
proof -
  let ?cf = "default_config\<lparr>cf_appendonly := True\<rparr>" and ?lib = "sample_libs"
  have ao: "cf_appendonly ?cf" by simp
  have policy: "fsync_policy_from_str (cf_appendfsync ?cf) = Inr FsyncEverySec" by code_simp
  obtain db where "init_persistence ?lib sample_env ?cf (good_disk None None) = Inr (db, Some FsyncEverySec)"
    by (rule log_starts [OF ao policy, of "good_disk None None"]) simp_all
  then have "logged_life ?lib ?cf (booted db)" by (intro first [of "good_disk None None"]) simp_all
  moreover have "plain_request ((sample_env 0)\<lparr>ev_open_boxes := {0}\<rparr>, [''SET'', ''k1'', ''v1''])"
    using first_set_ok by (simp add: plain_request_def sample_env_def parse_set2)
  ultimately obtain s where s: "logged_life ?lib ?cf s"
    "hm_get (db_store (sys_db s)) ''k1'' = Some \<lparr>en_value = VStr ''v1'', en_expires_at = None\<rparr>"
    by (rule life_with_set)
  let ?key = "Some \<lparr>en_value = VStr ''v1'', en_expires_at = None\<rparr>"
  have restart: "\<exists>db'. init_persistence ?lib sample_env ?cf (good_disk None (Some (bytes @ tail))) =
        Inr (db', Some FsyncEverySec) \<and> hm_get (db_store db') = hm_get (db_store (sys_db q))"
    if "logged_life ?lib ?cf q" "db_aof (sys_db q) = Some bytes" "torn_tail tail" for q bytes tail
    using every_restart_restores_the_keyspace [OF sample_facts(1) that(1) _ that(2,3) _ _ ao policy,
        of "good_disk None (Some (bytes @ tail))" sample_env] by (auto simp: ended_def)
  have aof: "\<exists>bytes. db_aof (sys_db q) = Some bytes" if "logged_life ?lib ?cf q" for q
    using life_logs [OF sample_facts(1) ao that] logs_all_aof by blast
  obtain bytes where bytes: "db_aof (sys_db s) = Some bytes" using aof [OF s(1)] by blast
  obtain db2 where db2: "init_persistence ?lib sample_env ?cf (good_disk None (Some bytes)) =
      Inr (db2, Some FsyncEverySec)" "hm_get (db_store db2) = hm_get (db_store (sys_db s))"
    using restart [OF s(1) bytes torn_nothing] by auto
  have s2: "logged_life ?lib ?cf (booted db2)"
    by (rule again [OF s(1) _ _ _ db2(1), of "sys_db s"]) (simp_all add: ended_def bytes)
  obtain bytes2 where bytes2: "db_aof (sys_db (booted db2)) = Some bytes2" using aof [OF s2] by blast
  have "hm_get (db_store (sys_db (booted db2))) ''k1'' = ?key" using db2(2) s(2) by (simp add: booted_def)
  with restart [OF s2 bytes2 torn_set_tail] s2 bytes2 show ?thesis by metis
qed

end
