(* ===== verification/Ttl_Recovery.thy ===== *)
theory Ttl_Recovery
  imports Log_Limits
begin

text \<open>
  Recovery from a log with deadlines.  Replay counts a relative deadline again from the time it
  runs, so it cannot rebuild the same keyspace; but as long as no key expired while the log was
  written, it rebuilds the same keys with the same values, and no deadline moves to an earlier
  time.  Replay simulates the history: one lemma for the effect of a command on two related
  keyspaces at two times, carried along the log; \<open>Ttl_Lifetimes\<close> carries it through lifetimes of the
  server.
\<close>

section \<open>Keyspaces that agree up to later deadlines\<close>

text \<open>The same value, and a deadline later by at most \<open>d\<close>, or none in both.\<close>

definition postponed :: "nat \<Rightarrow> entry \<Rightarrow> entry \<Rightarrow> bool" where
  "postponed d e e' \<longleftrightarrow>
     en_value e' = en_value e \<and>
     rel_option (\<lambda>x x'. x \<le> x' \<and> x' \<le> x + d) (en_expires_at e) (en_expires_at e')"

definition outlives :: "nat \<Rightarrow> keyspace \<Rightarrow> keyspace \<Rightarrow> bool" where
  "outlives d m m' \<longleftrightarrow> (\<forall>k. rel_option (postponed d) (m k) (m' k))"

text \<open>Commands whose deadlines are at least a second away, and far from the end of the clock.\<close>

fun short_ttl :: "command \<Rightarrow> bool" where
  "short_ttl (CSet k v ttl) = (case ttl of None \<Rightarrow> True | Some n \<Rightarrow> 1 \<le> n \<and> n < 2 ^ 62)"
| "short_ttl (CExpire k n) = (sint n < 2 ^ 62)"
| "short_ttl _ = True"

definition early :: "nat \<Rightarrow> bool" where
  "early now \<longleftrightarrow> now div nanos < 2 ^ 62"

lemma early_mono: "early b \<Longrightarrow> a \<le> b \<Longrightarrow> early a"
  unfolding early_def by (meson div_le_mono le_less_trans)

lemma deadline_early:
  "early now \<Longrightarrow> n < 2 ^ 62 \<Longrightarrow> deadline_after now n = Some (now + n * nanos)"
  by (simp add: early_def deadline_after_def)

lemma outlivesD: "outlives d m m' \<Longrightarrow> rel_option (postponed d) (m k) (m' k)"
  by (simp add: outlives_def)

lemma outlives_upd:
  "outlives d m m' \<Longrightarrow> rel_option (postponed d) x x' \<Longrightarrow> outlives d (m(k := x)) (m'(k := x'))"
  by (simp add: outlives_def)

lemma outlives_None: "outlives d m m' \<Longrightarrow> m k = None \<longleftrightarrow> m' k = None"
  using outlivesD [of d m m' k] by (auto elim: option.rel_cases)

lemma alter_outlives:
  assumes "outlives d m m'"
  shows "rel_sum (=) (outlives d) (alter unwrap wrap f k m) (alter unwrap wrap f k m')"
  using outlivesD [OF assms, of k] assms
  by (cases "f None"; cases "m k"; cases "m' k")
    (auto simp: alter_def postponed_def intro!: outlives_upd
      split: option.splits sum.splits simp: map_sum_def option.rel_map option.rel_refl)

lemma requires_outlives:
  assumes "outlives d m m'"
  shows "rel_sum (=) (outlives d) (requires unwrap k m) (requires unwrap k m')"
  using outlivesD [OF assms, of k] assms
  by (cases "m k"; cases "m' k") (auto simp: requires_def postponed_def)

lemma requires_all_outlives:
  assumes "outlives d m m'"
  shows "rel_sum (=) (outlives d) (requires_all unwrap ks m) (requires_all unwrap ks m')"
proof -
  have "requires unwrap k m = Inr m \<longleftrightarrow> requires unwrap k m' = Inr m'" for k
    using outlivesD [OF assms, of k]
    by (cases "m k"; cases "m' k") (auto simp: requires_def postponed_def)
  then show ?thesis using assms by (simp add: requires_all_def)
qed

lemma postponed_refl_undated: "en_expires_at e = None \<Longrightarrow> postponed d e e"
  by (simp add: postponed_def)

lemma outlives_map_add:
  assumes "outlives d m m'" "\<And>k e. w k = Some e \<Longrightarrow> en_expires_at e = None"
  shows "outlives d (m ++ w) (m' ++ w)"
  unfolding outlives_def
proof
  fix k
  show "rel_option (postponed d) ((m ++ w) k) ((m' ++ w) k)"
    using outlivesD [OF assms(1), of k] assms(2) [of k]
    by (cases "w k") (auto simp: map_add_def postponed_refl_undated)
qed

lemma outlives_restrict: "outlives d m m' \<Longrightarrow> outlives d (m |` A) (m' |` A)"
  by (simp add: outlives_def restrict_map_def)

lemma outlives_change:
  assumes "outlives d m m'" "\<And>e e'. postponed d e e' \<Longrightarrow> postponed d (f e) (f' e')"
  shows "outlives d (m(k := map_option f (m k))) (m'(k := map_option f' (m' k)))"
  using outlivesD [OF assms(1), of k] assms
  by (intro outlives_upd) (auto simp: option.rel_map elim!: option.rel_mono_strong)

text \<open>A command has the same outcome on two such keyspaces, at two times.\<close>

lemma effect_outlives:
  assumes "outlives d m m'" "short_ttl cmd" "now \<le> now'" "now' \<le> now + d" "early now'"
  shows "rel_sum (=) (outlives d) (effect cmd fo now m) (effect cmd fo now' m')"
proof -
  have due: "early now" using early_mono [OF assms(5,3)] .
  show ?thesis
  proof (cases cmd)
    case (CSet k v ttl)
    then show ?thesis
      using assms due
      by (cases ttl)
        (auto simp: deadline_early is_expired_def postponed_def nanos_def intro!: outlives_upd)
  next
    case (CExpire k n)
    have "outlives d (m(k := map_option (\<lambda>e. e\<lparr>en_expires_at := Some (now + i)\<rparr>) (m k)))
        (m'(k := map_option (\<lambda>e. e\<lparr>en_expires_at := Some (now' + i)\<rparr>) (m' k)))" for i
      using assms by (intro outlives_change) (auto simp: postponed_def)
    then show ?thesis
      using CExpire assms due deadline_early [of now "nat (sint n)"] deadline_early [of now' "nat (sint n)"]
      by (auto simp: nat_less_iff intro!: outlives_upd)
  next
    case (CDel ks)
    then show ?thesis using assms(1) by (simp add: outlives_restrict)
  next
    case (CMSet pairs)
    have "en_expires_at e = None"
      if "map_of (rev (map (\<lambda>(k, v). (k, \<lparr>en_value = VStr v, en_expires_at = None\<rparr>)) pairs)) k = Some e" for k e
      using map_of_SomeD [OF that] by auto
    then show ?thesis using CMSet assms(1) by (simp add: outlives_map_add)
  next
    case (CPersist k)
    then show ?thesis using assms(1) by (auto simp: postponed_def intro!: outlives_change)
  next
    case (CRename k k')
    then show ?thesis
      using outlivesD [OF assms(1), of k] assms(1)
      by (cases "m k"; cases "m' k") (auto intro!: outlives_upd)
  next
    case (CSetNx k v)
    then show ?thesis
      using outlives_None [OF assms(1), of k] assms(1)
      by (auto intro!: outlives_upd postponed_refl_undated)
  next
    case (CGetSet k v)
    have "outlives d (m(k \<mapsto> e)) (m'(k \<mapsto> e))" if "en_expires_at e = None" for e
      using assms(1) that by (auto intro!: outlives_upd postponed_refl_undated)
    then show ?thesis
      using CGetSet requires_outlives [OF assms(1), of as_str k]
      by (auto simp: map_sum_def elim!: rel_sum.cases)
  next
    case CFlushAll
    then show ?thesis by (simp add: outlives_def)
  qed (simp_all add: assms(1) alter_outlives requires_outlives requires_all_outlives)
qed

section \<open>Keys that outlast the replay\<close>

definition lasting :: "nat \<Rightarrow> keyspace \<Rightarrow> bool" where
  "lasting until m \<longleftrightarrow> (\<forall>k e x. m k = Some e \<longrightarrow> en_expires_at e = Some x \<longrightarrow> until < x)"

lemma lasting_upd:
  "lasting u m \<Longrightarrow> (\<And>e x. r = Some e \<Longrightarrow> en_expires_at e = Some x \<Longrightarrow> u < x) \<Longrightarrow> lasting u (m(k := r))"
  by (auto simp: lasting_def)

lemma lasting_alter:
  "lasting u m \<Longrightarrow> alter unwrap wrap f k m = Inr m' \<Longrightarrow> lasting u m'"
  by (fastforce simp: alter_def lasting_def map_sum_def split: option.splits sum.splits if_splits)

lemma lasting_requires:
  "lasting u m \<Longrightarrow> requires unwrap k m = Inr m' \<Longrightarrow> lasting u m'"
  "lasting u m \<Longrightarrow> requires_all unwrap ks m = Inr m' \<Longrightarrow> lasting u m'"
  by (auto simp: requires_def requires_all_def split: option.splits if_splits)

lemma effect_lasting:
  assumes "lasting u m" "effect cmd fo now m = Inr m'" "short_ttl cmd" "u < now + nanos"
  shows "lasting u m'"
proof (cases cmd)
  case (CSet k v ttl)
  have "u < x" if "Option.bind ttl (deadline_after now) = Some x" for x
    using that assms(3,4) CSet
    by (cases ttl) (auto simp: deadline_after_def nanos_def split: if_splits)
  then show ?thesis
    using assms(1,2) CSet by (auto simp: Let_def intro!: lasting_upd split: if_splits)
next
  case (CExpire k n)
  have "u < x" if "deadline_after now (nat (sint n)) = Some x" "0 < sint n" for x
  proof -
    have "x = now + nat (sint n) * nanos" using that(1) by (simp add: deadline_after_def split: if_splits)
    moreover have "nanos \<le> nat (sint n) * nanos" using that(2) by (cases "nat (sint n)") simp_all
    ultimately show ?thesis using assms(4) by linarith
  qed
  then show ?thesis
    using assms(1,2) CExpire by (auto intro!: lasting_upd split: if_splits)
next
  case (CDel ks)
  then show ?thesis using assms(1,2) by (auto simp: lasting_def restrict_map_def split: if_splits)
next
  case (CMSet pairs)
  have "en_expires_at e = None"
    if "map_of (rev (map (\<lambda>(k, v). (k, \<lparr>en_value = VStr v, en_expires_at = None\<rparr>)) pairs)) k = Some e" for k e
    using map_of_SomeD [OF that] by auto
  then show ?thesis
    using assms(1,2) CMSet by (fastforce simp: lasting_def map_add_Some_iff)
next
  case (CGetSet k v)
  then show ?thesis
    using assms(1,2) by (auto simp: map_sum_def intro!: lasting_upd split: sum.splits)
next
  case (CPersist k)
  then show ?thesis using assms(1,2) by (auto intro!: lasting_upd)
next
  case (CRename k k')
  then show ?thesis using assms(1,2) by (auto simp: lasting_def split: option.splits if_splits)
next
  case (CSetNx k v)
  then show ?thesis using assms(1,2) by (auto intro!: lasting_upd split: if_splits)
next
  case CFlushAll
  then show ?thesis using assms(2) by (auto simp: lasting_def)
qed (use assms(1,2) in \<open>auto dest: lasting_alter lasting_requires\<close>)

text \<open>Such keys are still live when the next entry is replayed.\<close>

lemma lasting_live:
  assumes "lasting u (live now s)" "now \<le> later" "later \<le> u"
  shows "live later s = live now s"
proof
  fix k
  show "live later s k = live now s k"
  proof (cases "hm_get s k")
    case (Some e)
    have "u < x" if "en_expires_at e = Some x" "now < x" for x
    proof -
      have "live now s k = Some e" using Some that by (simp add: live_def is_expired_def)
      then show ?thesis using assms(1) that(1) by (auto simp: lasting_def)
    qed
    then show ?thesis
      using Some assms(2,3) by (cases "en_expires_at e") (force simp: live_def is_expired_def)+
  qed (simp add: live_def)
qed

section \<open>Replay simulates the history\<close>

definition lasting_request :: "env \<times> string list \<Rightarrow> bool" where
  "lasting_request r \<longleftrightarrow>
     ev_append_failure (fst r) = None \<and> request_ok (snd r) \<and>
     (case parse (snd r) of Inr cmd \<Rightarrow> short_ttl cmd | Inl _ \<Rightarrow> True)"

text \<open>The replay runs from \<open>from\<close> to \<open>until\<close>, in less than a second, and its clock does not go back.\<close>

definition quick :: "(nat \<Rightarrow> env) \<Rightarrow> nat \<Rightarrow> nat \<Rightarrow> bool" where
  "quick evs from until \<longleftrightarrow>
     (\<forall>i. from \<le> ev_now (evs i) \<and> ev_now (evs i) \<le> until) \<and>
     (\<forall>i. ev_now (evs i) \<le> ev_now (evs (Suc i))) \<and> until < from + nanos \<and> early until"

lemma refines_live:
  assumes "parse ts = Inr cmd" "cmd \<noteq> CSave"
    and "effect cmd (lib_float lib) (ev_now ev) (live (ev_now ev) (db_store db)) = Inr m"
  shows "live (ev_now ev) (db_store (snd (dispatch lib ev ts db))) = m"
  using dispatch_refines [OF assms(1,2), of ev db lib] assms(3) by (simp add: refines_def)

text \<open>One entry: it is replayed at a time of the replay, and the next time comes after it.\<close>

lemma replay_entry:
  assumes "outlives d m (live now' (db_store db'))" "lasting until (live now' (db_store db'))"
    and "parse ts = Inr cmd" "cmd \<noteq> CSave" "short_ttl cmd" "effect cmd (lib_float lib) now m = Inr n"
    and "now \<le> now'" "now' \<le> now + d" "early now'" "until < now' + nanos"
    and "ev_now ev' = now'" "now' \<le> later" "later \<le> until"
  shows "outlives d n (live later (db_store (snd (dispatch lib ev' ts db')))) \<and>
         lasting until (live later (db_store (snd (dispatch lib ev' ts db'))))"
proof -
  obtain n' where n': "effect cmd (lib_float lib) now' (live now' (db_store db')) = Inr n'" "outlives d n n'"
    using effect_outlives [OF assms(1,5,7,8,9), of "lib_float lib"] assms(6)
    by (auto elim!: rel_sum.cases)
  have "live now' (db_store (snd (dispatch lib ev' ts db'))) = n'"
    using refines_live [OF assms(3,4), of lib ev' db'] n'(1) assms(11) by simp
  moreover have "lasting until n'" by (rule effect_lasting [OF assms(2) n'(1) assms(5,10)])
  ultimately show ?thesis
    using lasting_live [of until now' "db_store (snd (dispatch lib ev' ts db'))" later] n'(2) assms(12,13)
    by simp
qed

text \<open>What is known of the database while the history runs, at time \<open>now\<close>.\<close>

definition tracked ::
    "libs \<Rightarrow> (nat \<Rightarrow> env) \<Rightarrow> nat \<Rightarrow> nat \<Rightarrow> database \<Rightarrow> nat \<Rightarrow> database \<Rightarrow> string list list \<Rightarrow> bool" where
  "tracked lib evs d until fresh now db log \<longleftrightarrow>
     store_inv (lib_float lib) (db_store db) \<and> store_all members_ok (db_store db) \<and>
     \<not> db_replaying db \<and> db_aof db = Some (log_bytes log) \<and> log_ok log \<and>
     (let m' = live (ev_now (evs (length log))) (db_store (run_log lib evs 0 log fresh))
      in outlives d (live now (db_store db)) m' \<and> lasting until m')"

lemma tracked_step:
  assumes "ordered_float (lib_float lib)" "lasting_request (ev, ts)"
    and "tracked lib evs d until fresh (ev_now ev) db log"
    and "quick evs from until" "ev_now ev \<le> from" "until \<le> ev_now ev + d"
  shows "tracked lib evs d until fresh (ev_now ev) (snd (dispatch lib ev ts db)) (log @ logged lib ev ts db)"
proof -
  let ?now = "ev_now ev" and ?now' = "ev_now (evs (length log))"
  let ?db1 = "snd (dispatch lib ev ts db)" and ?db' = "run_log lib evs 0 log fresh"
  have short: "\<And>cmd. parse ts = Inr cmd \<Longrightarrow> short_ttl cmd" and rq: "request_ok ts"
    and ap: "ev_append_failure ev = None" using assms(2) by (auto simp: lasting_request_def)
  note r = assms(3) [unfolded tracked_def Let_def]
  have inv: "store_inv (lib_float lib) (db_store ?db1)" using dispatch_inv [OF assms(1)] r by blast
  have mem: "store_all members_ok (db_store ?db1)"
    using dispatch_members_ok [of ts db lib ev] r rq by (simp add: request_ok_def)
  have "logging ev db (log_bytes log)" using r ap by (simp add: logging_def)
  note aof = dispatch_aof [OF this, of lib ts]
  have time: "?now \<le> ?now'" "?now' \<le> ?now + d" "early ?now'" "until < ?now' + nanos"
    "?now' \<le> ev_now (evs (Suc (length log)))" "ev_now (evs (Suc (length log))) \<le> until"
    using assms(4-6) early_mono unfolding quick_def by (auto intro: order.trans less_le_trans)
  have rel: "outlives d (live ?now (db_store db)) (live ?now' (db_store ?db'))"
    "lasting until (live ?now' (db_store ?db'))" using r by blast+
  have "let m' = live (ev_now (evs (length (log @ logged lib ev ts db))))
          (db_store (run_log lib evs 0 (log @ logged lib ev ts db) fresh))
      in outlives d (live ?now (db_store ?db1)) m' \<and> lasting until m'"
  proof (cases rule: logged_cases [of lib ev ts db])
    case 1
    then show ?thesis using rel unlogged_keeps_live [of "lib_float lib" db lib ev ts] r by simp
  next
    case (2 cmd)
    obtain n where n: "effect cmd (lib_float lib) ?now (live ?now (db_store db)) = Inr n"
      using dispatch_success_effect [OF 2(1,3)] by blast
    have save: "cmd \<noteq> CSave" using 2 by (auto simp: logged_def)
    have "live ?now (db_store ?db1) = n" by (rule refines_live [OF 2(1) save n])
    with replay_entry [OF rel 2(1) save short [OF 2(1)] n time(1-4) refl time(5,6)] show ?thesis
      by (simp add: 2(2) run_log_append)
  next
    case (3 key x)
    have ok: "\<not> is_error_reply (fst (dispatch lib ev ts db))"
      by (simp add: dispatch_simps 3(1) fst_dispatch_spop 3(3) reply_optional_def)
    obtain n where n: "effect (CSPop key) (lib_float lib) ?now (live ?now (db_store db)) = Inr n"
      using dispatch_success_effect [OF 3(1) ok] by blast
    have "effect (CSRem key [x]) (lib_float lib) ?now (live ?now (db_store db)) = Inr n"
      using spop_effect [OF _ 3(3), of "lib_float lib" "lib_float lib" ?now] n r by simp
    from replay_entry [OF rel parse_srem _ _ this time(1-4) refl time(5,6)]
      refines_live [OF 3(1) _ n] show ?thesis by (simp add: 3(2) run_log_append)
  qed
  then show ?thesis
    using inv mem aof r logged_ok [OF rq, of "lib_float lib" db lib ev]
    by (simp add: tracked_def del: run_log.simps)
qed

lemma tracked_fresh:
  assumes "db_store fresh = []" "db_store db = []" "db_aof db = Some []" "\<not> db_replaying db"
  shows "tracked lib evs d until fresh now db []"
  using assms
  by (simp add: tracked_def store_inv_def store_all_Nil outlives_def lasting_def live_def)

end
