(* ===== verification/Ttl_Lifetimes.thy ===== *)
theory Ttl_Lifetimes
  imports Log_Lifetimes Ttl_Recovery
begin

text \<open>
  Recovery in append-only mode over whole lifetimes of the server with deadlines.  A life is that of
  \<open>Log_Lifetimes\<close> with a clock: no key expires while it is served, a request and a sweep run at
  the present time, and every start replays the log in less than a second.  Each start counts the
  deadlines of the log again from its own time, so the keyspaces of two replays of one log are
  compared first.
\<close>

section \<open>Two replays of one log\<close>

text \<open>What the log of such a life holds: commands that set no deadline that is less than a second away.\<close>

definition timed_entry :: "string list \<Rightarrow> bool" where
  "timed_entry ts \<longleftrightarrow> (\<exists>cmd. parse ts = Inr cmd \<and> cmd \<noteq> CSave \<and> short_ttl cmd)"

lemma timed_entry_logged:
  assumes "lasting_request (ev, ts)" "e \<in> set (logged lib ev ts db)"
  shows "timed_entry e"
proof (cases rule: logged_cases [of lib ev ts db])
  case (2 cmd)
  then have "cmd \<noteq> CSave" by (auto simp: logged_def)
  then show ?thesis using 2 assms by (auto simp: timed_entry_def lasting_request_def)
next
  case (3 key x)
  then show ?thesis using assms(2) by (simp add: timed_entry_def parse_srem)
qed (use assms(2) in simp)

lemma entry_live:
  assumes "parse ts = Inr cmd" "cmd \<noteq> CSave"
  shows "live (ev_now ev) (db_store (snd (dispatch lib ev ts db))) =
    (case effect cmd (lib_float lib) (ev_now ev) (live (ev_now ev) (db_store db)) of
       Inl _ \<Rightarrow> live (ev_now ev) (db_store db)
     | Inr m \<Rightarrow> m)"
  using dispatch_refines [OF assms, of ev db lib] by (auto simp: refines_def split: sum.splits)

lemma entry_lasting:
  assumes "lasting until (live now (db_store db))" "parse ts = Inr cmd" "cmd \<noteq> CSave" "short_ttl cmd"
    and "ev_now ev = now" "until < now + nanos" "now \<le> later" "later \<le> until"
  shows "lasting until (live later (db_store (snd (dispatch lib ev ts db))))"
    and "live later (db_store (snd (dispatch lib ev ts db))) = live now (db_store (snd (dispatch lib ev ts db)))"
proof -
  have l: "lasting until (live now (db_store (snd (dispatch lib ev ts db))))"
    using entry_live [OF assms(2,3), of ev lib db] assms(1,4,5,6)
      effect_lasting [OF assms(1) _ assms(4,6), of "lib_float lib"]
    by (auto split: sum.splits)
  from lasting_live [OF l assms(7,8)]
  show "live later (db_store (snd (dispatch lib ev ts db))) = live now (db_store (snd (dispatch lib ev ts db)))" .
  with l show "lasting until (live later (db_store (snd (dispatch lib ev ts db))))" by simp
qed

lemma replay_twice:
  assumes "quick evs from until" "quick evs' from' until'" "until \<le> from'"
    and "db_store fresh = []" "db_store fresh' = []"
  shows "\<forall>ts \<in> set log. timed_entry ts \<Longrightarrow>
    (let m = live (ev_now (evs (length log))) (db_store (run_log lib evs 0 log fresh));
         m' = live (ev_now (evs' (length log))) (db_store (run_log lib evs' 0 log fresh'))
     in outlives (until' - from) m m' \<and> lasting until m \<and> lasting until' m')"
proof (induction log rule: rev_induct)
  case Nil
  then show ?case using assms(4,5) by (simp add: outlives_def lasting_def live_def)
next
  case (snoc ts log)
  obtain cmd where cmd: "parse ts = Inr cmd" "cmd \<noteq> CSave" "short_ttl cmd"
    using snoc.prems by (auto simp: timed_entry_def)
  let ?a = "ev_now (evs (length log))" and ?b = "ev_now (evs' (length log))"
  let ?s = "run_log lib evs 0 log fresh" and ?s' = "run_log lib evs' 0 log fresh'"
  let ?m = "live ?a (db_store ?s)" and ?m' = "live ?b (db_store ?s')"
  have ih: "outlives (until' - from) ?m ?m'" "lasting until ?m" "lasting until' ?m'"
    using snoc by (simp_all add: Let_def)
  have a: "from \<le> ?a" "?a \<le> until" "until < ?a + nanos" "?a \<le> ev_now (evs (Suc (length log)))"
    "ev_now (evs (Suc (length log))) \<le> until"
    using assms(1) by (auto simp: quick_def intro: less_le_trans)
  have b: "from' \<le> ?b" "?b \<le> until'" "until' < ?b + nanos" "?b \<le> ev_now (evs' (Suc (length log)))"
    "ev_now (evs' (Suc (length log))) \<le> until'" "early ?b"
    using assms(2) early_mono by (auto simp: quick_def intro: less_le_trans)
  have "?a \<le> ?b" "?b \<le> ?a + (until' - from)" using a b assms(3) by linarith+
  from effect_outlives [OF ih(1) cmd(3) this b(6), of "lib_float lib"] ih(1)
  have "outlives (until' - from) (live ?a (db_store (snd (dispatch lib (evs (length log)) ts ?s))))
      (live ?b (db_store (snd (dispatch lib (evs' (length log)) ts ?s'))))"
    unfolding entry_live [OF cmd(1,2)] by (auto elim!: rel_sum.cases)
  then show ?case
    using entry_lasting [OF ih(2) cmd refl a(3-5)] entry_lasting [OF ih(3) cmd refl b(3-5)]
    by (simp add: run_log_append Let_def)
qed

section \<open>A life with a clock\<close>

text \<open>\<open>timed_life lib cf t0 now s\<close>: at the time \<open>now\<close> the server has the state \<open>s\<close>, and it was started at
  \<open>t0\<close>.  A step that executes no command and is no sweep leaves the store and the log alone.\<close>

inductive timed_life :: "libs \<Rightarrow> config \<Rightarrow> nat \<Rightarrow> nat \<Rightarrow> system \<Rightarrow> bool" for lib cf where
  first:
    "dk_aof dk = None \<Longrightarrow> log_readable dk \<Longrightarrow> init_persistence lib evs cf dk = Inr (db, policy) \<Longrightarrow>
     timed_life lib cf now now (booted db)"
| wait:
    "timed_life lib cf t0 now s \<Longrightarrow> now \<le> later \<Longrightarrow>
     live later (db_store (sys_db s)) = live now (db_store (sys_db s)) \<Longrightarrow> timed_life lib cf t0 later s"
| command:
    "timed_life lib cf t0 now s \<Longrightarrow> traffic lib (Some (ev, ts)) s s' \<Longrightarrow> ev_now ev = now \<Longrightarrow>
     lasting_request (ev, ts) \<Longrightarrow> timed_life lib cf t0 now s'"
| sweeps:
    "timed_life lib cf t0 now s \<Longrightarrow> ev_now ev = now \<Longrightarrow>
     timed_life lib cf t0 now (s\<lparr>sys_db := snd (sweep ev (sys_db s))\<rparr>)"
| quiet:
    "timed_life lib cf t0 now s \<Longrightarrow> traffic lib None s s' \<Longrightarrow> same_data (sys_db s) (sys_db s') \<Longrightarrow>
     timed_life lib cf t0 now s'"
| again:
    "timed_life lib cf t0 now s \<Longrightarrow> ended lib s left \<Longrightarrow> dk_aof dk = db_aof left \<Longrightarrow> log_readable dk \<Longrightarrow>
     quick evs from until \<Longrightarrow> now \<le> from \<Longrightarrow>
     init_persistence lib evs cf dk = Inr (db, policy) \<Longrightarrow> timed_life lib cf from until (booted db)"

text \<open>Every step of the server that runs at the present time is one of these (\<open>traffic_quiet\<close>).\<close>

section \<open>The log through such a life\<close>

text \<open>Any quick replay of the log, from now on, rebuilds the live keys, with deadlines later by at most the
  time from the last start to the end of that replay.\<close>

definition logs_deadlines :: "libs \<Rightarrow> nat \<Rightarrow> nat \<Rightarrow> database \<Rightarrow> string list list \<Rightarrow> bool" where
  "logs_deadlines lib t0 now db log \<longleftrightarrow>
     t0 \<le> now \<and> (\<forall>ts \<in> set log. timed_entry ts) \<and>
     (\<forall>evs from until fresh. quick evs from until \<longrightarrow> now \<le> from \<longrightarrow> db_store fresh = [] \<longrightarrow>
        tracked lib evs (until - t0) until fresh now db log)"

lemma logs_deadlinesD:
  assumes "logs_deadlines lib t0 now db log" "quick evs from until" "now \<le> from"
  shows "log_ok log" "db_aof db = Some (log_bytes log)"
proof -
  have "db_store (with_persistence 0 None None) = []" by simp
  with assms have "tracked lib evs (until - t0) until (with_persistence 0 None None) now db log"
    unfolding logs_deadlines_def by blast
  then show "log_ok log" "db_aof db = Some (log_bytes log)" by (simp_all add: tracked_def)
qed

lemma logs_deadlines_data:
  "logs_deadlines lib t0 now db log \<Longrightarrow> same_data db db' \<Longrightarrow> logs_deadlines lib t0 now db' log"
  by (simp add: logs_deadlines_def same_data_def tracked_def)

lemma logs_deadlines_wait:
  "logs_deadlines lib t0 now db log \<Longrightarrow> now \<le> later \<Longrightarrow>
   live later (db_store db) = live now (db_store db) \<Longrightarrow> logs_deadlines lib t0 later db log"
  by (auto simp: logs_deadlines_def tracked_def)

lemma logs_deadlines_sweep:
  assumes "logs_deadlines lib t0 (ev_now ev) db log"
  shows "logs_deadlines lib t0 (ev_now ev) (snd (sweep ev db)) log"
proof -
  let ?db = "snd (sweep ev db)"
  have "tracked lib evs d until fresh (ev_now ev) ?db log"
    if t: "tracked lib evs d until fresh (ev_now ev) db log" for evs d until fresh
  proof -
    have inv: "store_inv (lib_float lib) (db_store db)" "store_all members_ok (db_store db)"
      using t by (simp_all add: tracked_def)
    have "alike lib (ev_now ev) ?db db" by (rule sweep_alike [OF inv(1)])
    then have "store_inv (lib_float lib) (db_store ?db)"
      "live (ev_now ev) (db_store ?db) = live (ev_now ev) (db_store db)" by (simp_all add: alike_def)
    moreover have "store_all members_ok (db_store ?db)"
      using inv(2) by (simp add: sweep_def on_store_eq key_ops_inv)
    ultimately show ?thesis using t by (simp add: tracked_def sweep_def on_store_eq)
  qed
  then show ?thesis using assms by (simp add: logs_deadlines_def)
qed

lemma logs_deadlines_dispatch:
  assumes "ordered_float (lib_float lib)" "lasting_request (ev, ts)" "logs_deadlines lib t0 (ev_now ev) db log"
  shows "logs_deadlines lib t0 (ev_now ev) (snd (dispatch lib ev ts db)) (log @ logged lib ev ts db)"
proof -
  have "tracked lib evs (until - t0) until fresh (ev_now ev) (snd (dispatch lib ev ts db)) (log @ logged lib ev ts db)"
    if "quick evs start until" "ev_now ev \<le> start" "db_store fresh = []" for evs start until fresh
  proof (rule tracked_step [OF assms(1,2) _ that(1,2)])
    show "tracked lib evs (until - t0) until fresh (ev_now ev) db log"
      using assms(3) that by (simp add: logs_deadlines_def)
    show "until \<le> ev_now ev + (until - t0)" using assms(3) by (auto simp: logs_deadlines_def)
  qed
  then show ?thesis
    using assms(3) timed_entry_logged [OF assms(2)] by (auto simp: logs_deadlines_def)
qed

lemma logs_deadlines_fresh:
  "db_store db = [] \<Longrightarrow> db_aof db = Some [] \<Longrightarrow> \<not> db_replaying db \<Longrightarrow> logs_deadlines lib now now db []"
  by (simp add: logs_deadlines_def tracked_fresh)

lemma run_log_members:
  "log_ok log \<Longrightarrow> store_all members_ok (db_store db) \<Longrightarrow> store_all members_ok (db_store (run_log lib evs i log db))"
  by (induction log arbitrary: i db) (simp_all add: request_ok_def dispatch_members_ok)

lemma run_log_inv:
  "ordered_float (lib_float lib) \<Longrightarrow> store_inv (lib_float lib) (db_store db) \<Longrightarrow>
   store_inv (lib_float lib) (db_store (run_log lib evs i log db))"
  by (induction log arbitrary: i db) (simp_all add: dispatch_inv)

text \<open>A start on the log, with a torn entry at its end or not.\<close>

lemma start_on_deadlines:
  assumes "logs_deadlines lib t0 now db log" "torn_tail tail" "dk_aof dk = Some (log_bytes log @ tail)"
    and "log_readable dk" "cf_appendonly cf" "fsync_policy_from_str (cf_appendfsync cf) = Inr policy"
    and "quick evs from until" "now \<le> from"
  shows "\<exists>fresh. db_store fresh = [] \<and> db_replaying fresh \<and> db_aof fresh = Some (log_bytes log @ tail) \<and>
    init_persistence lib evs cf dk = Inr (end_replay (run_log lib evs 0 log fresh), Some policy) \<and>
    db_aof (run_log lib evs 0 log fresh) = Some (log_bytes log @ tail)"
proof -
  let ?fresh = "begin_replay (fresh_database (evs 0) cf dk (log_bytes log @ tail))"
  have replay: "replay_loop lib evs 0 (log_bytes log @ tail) ?fresh = (length log, run_log lib evs 0 log ?fresh)"
    using replay_log_torn [OF logs_deadlinesD(1) [OF assms(1,7,8)] assms(2), of lib evs 0 ?fresh] by simp
  have "db_aof (snd (replay_loop lib evs 0 (log_bytes log @ tail) ?fresh)) = Some (log_bytes log @ tail)"
    by (subst replay_loop_keeps_aof) (simp_all add: begin_replay_def)
  then show ?thesis
    using init_append_only [OF assms(5,6,3,4), of lib evs] replay
    by (intro exI [of _ ?fresh]) (simp add: begin_replay_def)
qed

lemma live_of_replay:
  assumes "lasting until (live (ev_now (evs n)) s)" "quick evs from until"
  shows "live until s = live (ev_now (evs n)) s"
  using assms by (intro lasting_live) (auto simp: quick_def)

lemma logs_deadlines_restarted:
  assumes "ordered_float (lib_float lib)" "logs_deadlines lib t0 now db log" "dk_aof dk = Some (log_bytes log)"
    and "log_readable dk" "cf_appendonly cf" "quick evs from until" "now \<le> from"
    and "init_persistence lib evs cf dk = Inr (db', policy)"
  shows "logs_deadlines lib from until db' log"
proof -
  obtain p where p: "fsync_policy_from_str (cf_appendfsync cf) = Inr p"
    using assms(5,8) by (auto simp: init_persistence_def split: sum.splits)
  obtain fresh where fresh: "db_store fresh = []"
      "db' = end_replay (run_log lib evs 0 log fresh)" "db_aof db' = Some (log_bytes log)"
    using start_on_deadlines [OF assms(2) torn_nothing _ assms(4,5) p assms(6,7)] assms(3,8)
    by (auto simp: end_replay_def)
  note log = logs_deadlinesD(1) [OF assms(2,6,7)]
  have entries: "\<forall>ts \<in> set log. timed_entry ts" using assms(2) by (simp add: logs_deadlines_def)
  have times: "from \<le> until" using assms(6) by (auto simp: quick_def intro: order.trans)
  have "store_inv (lib_float lib) (db_store db')" "store_all members_ok (db_store db')"
    using run_log_inv [OF assms(1), of fresh evs 0 log] run_log_members [OF log, of fresh lib evs 0] fresh(1)
    by (simp_all add: fresh(2) end_replay_def store_inv_def store_all_Nil)
  moreover have "let m' = live (ev_now (evs' (length log))) (db_store (run_log lib evs' 0 log fresh'))
      in outlives (until' - from) (live until (db_store db')) m' \<and> lasting until' m'"
    if "quick evs' start until'" "until \<le> start" "db_store fresh' = []" for evs' start until' fresh'
    using replay_twice [OF assms(6) that(1,2) fresh(1) that(3) entries]
      live_of_replay [OF _ assms(6), of "length log" "db_store (run_log lib evs 0 log fresh)"]
    by (auto simp: Let_def fresh(2) end_replay_def)
  ultimately show ?thesis
    using entries log times fresh(3) by (simp add: logs_deadlines_def tracked_def fresh(2) end_replay_def)
qed

lemma timed_life_logs:
  assumes "ordered_float (lib_float lib)" "cf_appendonly cf"
  shows "timed_life lib cf t0 now s \<Longrightarrow> \<exists>log. logs_deadlines lib t0 now (sys_db s) log"
proof (induction rule: timed_life.induct)
  case (first dk evs db policy now)
  from first_start [OF assms(2) first(1-3)] show ?case by (auto simp: booted_def intro: logs_deadlines_fresh)
next
  case (command t0 now s ev ts s')
  then obtain log where log: "logs_deadlines lib t0 (ev_now ev) (sys_db s) log" by blast
  note d = logs_deadlines_dispatch [OF assms(1) command(4) log]
  with traffic_command [OF command(2)] log command(3) show ?case by (auto dest: logs_deadlines_data)
next
  case (again t0 now s left dk evs start until db policy)
  then obtain log where log: "logs_deadlines lib t0 now left log"
    using logs_deadlines_data ended_data by blast
  have "dk_aof dk = Some (log_bytes log)"
    using logs_deadlinesD(2) [OF log again(5,6)] again(3) by simp
  from logs_deadlines_restarted [OF assms(1) log this again(4) assms(2) again(5-7)]
  show ?case by (auto simp: booted_def)
qed (auto intro: logs_deadlines_wait logs_deadlines_sweep logs_deadlines_data)

section \<open>The property\<close>

text \<open>C2: recovery with deadlines over whole lifetimes.  Take any life of a server in append-only mode, with
  its connections, transactions, sweeps and saves, its shutdowns, crashes and starts.  Assume that
  no key expired while it was served, that its requests are within the protocol limits
  (\<open>request_ok\<close>) and set deadlines from a second to less than 2^62 seconds away, that no append
  failed, that a write's effect and its append are one step, that the clock does not go back and
  stays below 2^62 seconds, and that every start replays its log in less than a second.  Then one
  more start, even after a crash that tore the last append, loses no key and no value; no key dies
  earlier than it should, and each deadline is later by at most the time from the previous start to
  the end of this one.\<close>

theorem restarts_never_shorten_a_life:
  assumes "ordered_float (lib_float lib)" "timed_life lib cf t0 now s" "ended lib s left"
    and "db_aof left = Some bytes" "torn_tail tail" "dk_aof dk = Some (bytes @ tail)" "log_readable dk"
    and "cf_appendonly cf" "fsync_policy_from_str (cf_appendfsync cf) = Inr policy"
    and "quick evs from until" "now \<le> from"
  shows "\<exists>db'. init_persistence lib evs cf dk = Inr (db', Some policy) \<and>
           outlives (until - t0) (live now (db_store left)) (live until (db_store db'))"
proof -
  obtain log where log: "logs_deadlines lib t0 now left log"
    using timed_life_logs [OF assms(1,8,2)] logs_deadlines_data ended_data [OF assms(3)] by blast
  have "dk_aof dk = Some (log_bytes log @ tail)"
    using logs_deadlinesD(2) [OF log assms(10,11)] assms(4,6) by simp
  from start_on_deadlines [OF log assms(5) this assms(7-11)] obtain fresh where
    fresh: "db_store fresh = []" and
    start: "init_persistence lib evs cf dk = Inr (end_replay (run_log lib evs 0 log fresh), Some policy)"
    by blast
  let ?s = "db_store (run_log lib evs 0 log fresh)"
  have "outlives (until - t0) (live now (db_store left)) (live (ev_now (evs (length log))) ?s)"
    "lasting until (live (ev_now (evs (length log))) ?s)"
    using log assms(10,11) fresh by (simp_all add: logs_deadlines_def tracked_def Let_def)
  with start live_of_replay [OF _ assms(10)] show ?thesis by (simp add: end_replay_def)
qed

text \<open>A key is set with a second to live; the server crashes half a second later, starts again after a
  minute, crashes at once while it appends, and starts after another minute.\<close>

lemma one_second_key:
  assumes "cf_appendonly cf" "fsync_policy_from_str (cf_appendfsync cf) = Inr policy"
  obtains s where "timed_life sample_libs cf 0 (nanos div 2) s"
    "live (nanos div 2) (db_store (sys_db s)) ''k'' \<noteq> None"
proof -
  obtain db where db: "init_persistence sample_libs sample_env cf (good_disk None None) = Inr (db, Some policy)"
    by (rule log_starts [OF assms, of "good_disk None None"]) simp_all
  let ?ev = "at 0 ((sample_env 0)\<lparr>ev_open_boxes := {0}\<rparr>)"
  have set: "set_with_ttl = ''SET'' # tl set_with_ttl" by (simp add: set_with_ttl_def)
  obtain s s' where s: "traffic sample_libs None (booted db) s" "same_data (sys_db (booted db)) (sys_db s)"
    "traffic sample_libs (Some (?ev, set_with_ttl)) s s'"
    "sys_db s' = snd (dispatch sample_libs ?ev set_with_ttl (sys_db s))"
    by (rule client_sets [of ?ev sample_libs db "tl set_with_ttl"])
      (simp_all add: set [symmetric] booted_def at_def)
  have ok: "lasting_request (?ev, set_with_ttl)"
    using ttl_requests_ok by (simp add: lasting_request_def parse_ttl_requests)
  have "timed_life sample_libs cf 0 0 (booted db)" by (rule first [OF _ _ db]) simp_all
  from command [OF quiet [OF this s(1,2)] s(3) _ ok] have life: "timed_life sample_libs cf 0 0 s'" by simp
  have "db_store (sys_db s) = []"
    using s(2) first_start(1) [OF assms(1) _ _ db] by (simp add: same_data_def booted_def)
  then have "db_store (sys_db s') = [(''k'', \<lparr>en_value = VStr ''old'', en_expires_at = Some nanos\<rparr>)]"
    by (simp add: s(4) set_with_ttl_store)
  then have "live (nanos div 2) (db_store (sys_db s')) = live 0 (db_store (sys_db s'))"
    "live (nanos div 2) (db_store (sys_db s')) ''k'' \<noteq> None"
    by (auto simp: live_def is_expired_def nanos_def)
  with wait [OF life] show thesis by (intro that [of s']) simp_all
qed

lemma quick_sample: "now < 1000 * nanos \<Longrightarrow> quick (\<lambda>_. sample_env now) now now"
  by (simp add: quick_def sample_env_def early_def nanos_def)

lemma restarts_never_shorten_a_life_witness:
  "\<exists>s bytes db'. timed_life sample_libs (default_config\<lparr>cf_appendonly := True\<rparr>) (60 * nanos) (60 * nanos) s \<and>
     db_aof (sys_db s) = Some bytes \<and>
     init_persistence sample_libs (\<lambda>_. sample_env (120 * nanos)) (default_config\<lparr>cf_appendonly := True\<rparr>)
       (good_disk None (Some (bytes @ torn_set))) = Inr (db', Some FsyncEverySec) \<and>
     live (120 * nanos) (db_store db') ''k'' \<noteq> None"
proof -
  let ?cf = "default_config\<lparr>cf_appendonly := True\<rparr>" and ?lib = "sample_libs"
  have ao: "cf_appendonly ?cf" by simp
  have policy: "fsync_policy_from_str (cf_appendfsync ?cf) = Inr FsyncEverySec" by code_simp
  have restart: "\<exists>bytes. db_aof (sys_db s) = Some bytes \<and>
      (\<forall>tail. torn_tail tail \<longrightarrow> (\<exists>db'. init_persistence ?lib (\<lambda>_. sample_env later) ?cf
          (good_disk None (Some (bytes @ tail))) = Inr (db', Some FsyncEverySec) \<and>
        live later (db_store db') ''k'' \<noteq> None))"
    if life: "timed_life ?lib ?cf t0 now s" and key: "live now (db_store (sys_db s)) ''k'' \<noteq> None"
      and later: "now \<le> later" "later < 1000 * nanos" for t0 now s later
  proof -
    obtain log where log: "logs_deadlines ?lib t0 now (sys_db s) log"
      using timed_life_logs [OF sample_facts(1) _ life] by auto
    note aof = logs_deadlinesD(2) [OF log quick_sample [OF later(2)] later(1)]
    have "\<exists>db'. init_persistence ?lib (\<lambda>_. sample_env later) ?cf (good_disk None (Some (log_bytes log @ tail))) =
        Inr (db', Some FsyncEverySec) \<and> live later (db_store db') ''k'' \<noteq> None" if tail: "torn_tail tail" for tail
    proof -
      let ?dk = "good_disk None (Some (log_bytes log @ tail))"
      have "ended ?lib s (sys_db s)" "dk_aof ?dk = Some (log_bytes log @ tail)" "log_readable ?dk"
        by (simp_all add: ended_def)
      from restarts_never_shorten_a_life [OF sample_facts(1) life this(1) aof tail this(2,3) ao policy
          quick_sample [OF later(2)] later(1)]
      show ?thesis using key by (auto dest: outlives_None [of _ _ _ "''k''"])
    qed
    with aof show ?thesis by blast
  qed
  obtain s where s: "timed_life ?lib ?cf 0 (nanos div 2) s" "live (nanos div 2) (db_store (sys_db s)) ''k'' \<noteq> None"
    by (rule one_second_key [OF ao policy])
  obtain bytes db where bytes: "db_aof (sys_db s) = Some bytes" and
    db: "init_persistence ?lib (\<lambda>_. sample_env (60 * nanos)) ?cf (good_disk None (Some bytes)) = Inr (db, Some FsyncEverySec)"
      "live (60 * nanos) (db_store db) ''k'' \<noteq> None"
    using restart [OF s, of "60 * nanos"] torn_nothing by (fastforce simp: nanos_def)
  have "timed_life ?lib ?cf (60 * nanos) (60 * nanos) (booted db)"
    by (rule again [OF s(1) _ _ _ quick_sample _ db(1), of "sys_db s"]) (simp_all add: ended_def bytes nanos_def)
  with restart [OF this, of "120 * nanos"] db(2) torn_set_tail show ?thesis
    by (fastforce simp: nanos_def booted_def)
qed

end
