(* ===== verification/Save_File.thy ===== *)
theory Save_File
  imports Lifecycle
begin

text \<open>
  Saving, in the steps of \<open>Database::save_to\<close> (\<open>src/src/database/db.rs\<close>): take a snapshot under
  the lock of the store, choose a temporary name, write that file, rename it to the snapshot
  file.  SAVE, background saves and the save at shutdown run these steps concurrently with each
  other and with requests, and a crash may come between any two.  \<open>db_save\<close> of \<open>Database\<close> is a
  save that nothing interrupts.
\<close>

section \<open>The temporary name\<close>

text \<open>Split at the last occurrence of a character.\<close>

fun rsplit :: "char \<Rightarrow> string \<Rightarrow> (string \<times> string) option" where
  "rsplit c [] = None"
| "rsplit c (x # s) =
     (case rsplit c s of
        Some (a, b) \<Rightarrow> Some (x # a, b)
      | None \<Rightarrow> (if x = c then Some ([], s) else None))"

text \<open>\<open>Path::with_extension\<close>, for a path that ends in a plain name (not empty, \<open>.\<close> or \<open>..\<close>) and an
  extension that is not empty: a leading dot is part of the stem.\<close>

definition with_extension :: "string \<Rightarrow> string \<Rightarrow> string" where
  "with_extension ext path =
     (let (dir, name) = (case rsplit CHR ''/'' path of
            Some (d, n) \<Rightarrow> (d @ ''/'', n) | None \<Rightarrow> ([], path));
          stem = (case rsplit CHR ''.'' name of
            Some (st, e) \<Rightarrow> (if st = [] then name else st) | None \<Rightarrow> name)
      in dir @ stem @ ''.'' @ ext)"

definition temp_name :: "nat \<Rightarrow> nat \<Rightarrow> string \<Rightarrow> string" where
  "temp_name pid unique path =
     with_extension (''tmp.'' @ show_nat pid @ ''.'' @ show_nat unique) path"

lemma rsplit_None: "rsplit c s = None \<Longrightarrow> c \<notin> set s"
  by (induction s) (auto split: option.splits if_splits)

lemma rsplit_Some: "rsplit c s = Some (a, b) \<Longrightarrow> s = a @ c # b \<and> c \<notin> set b"
  by (induction s arbitrary: a) (auto split: option.splits if_splits dest: rsplit_None)

lemma with_extension_inj: "with_extension e path = with_extension e' path \<Longrightarrow> e = e'"
  by (simp add: with_extension_def Let_def case_prod_unfold)

text \<open>An extension with a dot in it always makes a new name.\<close>

lemma with_extension_new:
  assumes "CHR ''.'' \<in> set e"
  shows "with_extension e path \<noteq> path"
proof -
  obtain dir name where dn: "path = dir @ name"
    "with_extension e path =
       dir @ (case rsplit CHR ''.'' name of Some (st, x) \<Rightarrow> (if st = [] then name else st) | None \<Rightarrow> name) @
         ''.'' @ e"
  proof (cases "rsplit CHR ''/'' path")
    case None
    then show thesis using that [of "[]" path] by (simp add: with_extension_def Let_def)
  next
    case (Some p)
    obtain d n where p: "p = (d, n)" by fastforce
    then have "path = (d @ ''/'') @ n" using rsplit_Some [of "CHR ''/''" path d n] Some by simp
    then show thesis using that [of "d @ ''/''" n] Some p by (simp add: with_extension_def Let_def)
  qed
  show ?thesis
  proof (cases "rsplit CHR ''.'' name")
    case (Some p)
    obtain st x where p: "p = (st, x)" by fastforce
    then have name: "name = st @ CHR ''.'' # x" "CHR ''.'' \<notin> set x" using rsplit_Some Some by blast+
    have "with_extension e path = dir @ (if st = [] then name else st) @ ''.'' @ e"
      by (simp add: dn(2) Some p)
    then show ?thesis using dn(1) name assms by (auto split: if_splits)
  next
    case None
    then show ?thesis using dn(1) unfolding dn(2) by simp
  qed
qed

lemma show_nat_inj: "show_nat a = show_nat b \<Longrightarrow> a = b"
  by (metis option.inject parse_digits_show_nat)

lemma temp_name_inj: "temp_name pid a path = temp_name pid b path \<Longrightarrow> a = b"
  by (auto simp: temp_name_def dest!: with_extension_inj intro: show_nat_inj)

lemma temp_name_new: "temp_name pid u path \<noteq> path"
  unfolding temp_name_def by (rule with_extension_new) simp

section \<open>The steps of a save\<close>

text \<open>A save holds the text of its snapshot, then also its temporary name, and then has written that
  file.\<close>

datatype save_phase = Taken string | Named string string | Written string

text \<open>\<open>sv_counter\<close> is \<open>TEMP_COUNTER\<close>.  \<open>sv_named\<close> counts the names given out, and \<open>sv_taken\<close> are the
  keyspaces that were ever taken, with the time.\<close>

record saver =
  sv_store :: store
  sv_files :: "string \<Rightarrow> string option"
  sv_counter :: nat
  sv_tasks :: "nat \<Rightarrow> save_phase option"
  sv_replies :: "(nat \<times> bool) list"
  sv_named :: nat
  sv_taken :: "(nat \<times> store) list"

definition keyspace_ok :: "libs \<Rightarrow> store \<Rightarrow> bool" where
  "keyspace_ok lib s \<longleftrightarrow> store_inv (lib_float lib) s \<and> sizes_ok s"

definition snapshot_text :: "libs \<Rightarrow> nat \<Rightarrow> store \<Rightarrow> string" where
  "snapshot_text lib now s = lib_to_json lib (db_snapshot now s)"

text \<open>\<open>fs::write\<close> truncates the file and writes it piece by piece; a save may fail at any step.\<close>

inductive save_step :: "libs \<Rightarrow> nat \<Rightarrow> string \<Rightarrow> saver \<Rightarrow> saver \<Rightarrow> bool" for lib pid path where
  request: "keyspace_ok lib st \<Longrightarrow> save_step lib pid path s (s\<lparr>sv_store := st\<rparr>)"
| take:
    "sv_tasks s i = None \<Longrightarrow>
     save_step lib pid path s
       (s\<lparr>sv_tasks := (sv_tasks s)(i \<mapsto> Taken (snapshot_text lib now (sv_store s))),
          sv_taken := sv_taken s @ [(now, sv_store s)]\<rparr>)"
| name:
    "sv_tasks s i = Some (Taken text) \<Longrightarrow>
     save_step lib pid path s
       (s\<lparr>sv_tasks := (sv_tasks s)(i \<mapsto> Named text (temp_name pid (sv_counter s) path)),
          sv_counter := (sv_counter s + 1) mod 2 ^ 64, sv_named := sv_named s + 1\<rparr>)"
| write_some:
    "sv_tasks s i = Some (Named text temp) \<Longrightarrow>
     save_step lib pid path s (s\<lparr>sv_files := (sv_files s)(temp \<mapsto> List.take n text)\<rparr>)"
| write_all:
    "sv_tasks s i = Some (Named text temp) \<Longrightarrow>
     save_step lib pid path s
       (s\<lparr>sv_files := (sv_files s)(temp \<mapsto> text), sv_tasks := (sv_tasks s)(i \<mapsto> Written temp)\<rparr>)"
| rename:
    "sv_tasks s i = Some (Written temp) \<Longrightarrow> sv_files s temp = Some bytes \<Longrightarrow>
     save_step lib pid path s
       (s\<lparr>sv_files := (sv_files s)(path \<mapsto> bytes, temp := None), sv_tasks := (sv_tasks s)(i := None),
          sv_replies := sv_replies s @ [(i, True)]\<rparr>)"
| failed:
    "sv_tasks s i = Some phase \<Longrightarrow>
     save_step lib pid path s
       (s\<lparr>sv_tasks := (sv_tasks s)(i := None), sv_replies := sv_replies s @ [(i, False)]\<rparr>)"

inductive_cases save_step_cases: "save_step lib pid path s s'"

text \<open>A server with no save running yet; earlier processes may have left files behind.\<close>

definition save_start :: "libs \<Rightarrow> saver \<Rightarrow> bool" where
  "save_start lib s \<longleftrightarrow>
     keyspace_ok lib (sv_store s) \<and> sv_tasks s = Map.empty \<and> sv_counter s = 0 \<and> sv_named s = 0 \<and>
     sv_taken s = [] \<and> sv_replies s = []"

section \<open>The snapshot file is always whole\<close>

fun phase_temp :: "save_phase \<Rightarrow> string option" where
  "phase_temp (Taken text) = None"
| "phase_temp (Named text temp) = Some temp"
| "phase_temp (Written temp) = Some temp"

definition whole :: "libs \<Rightarrow> saver \<Rightarrow> string \<Rightarrow> bool" where
  "whole lib s bytes \<longleftrightarrow> (\<exists>(now, st) \<in> set (sv_taken s). bytes = snapshot_text lib now st)"

fun phase_ok :: "libs \<Rightarrow> saver \<Rightarrow> save_phase \<Rightarrow> bool" where
  "phase_ok lib s (Taken text) \<longleftrightarrow> whole lib s text"
| "phase_ok lib s (Named text temp) \<longleftrightarrow> whole lib s text"
| "phase_ok lib s (Written temp) \<longleftrightarrow> (\<exists>bytes. sv_files s temp = Some bytes \<and> whole lib s bytes)"

definition save_inv :: "libs \<Rightarrow> nat \<Rightarrow> string \<Rightarrow> string option \<Rightarrow> saver \<Rightarrow> bool" where
  "save_inv lib pid path orig s \<longleftrightarrow>
     keyspace_ok lib (sv_store s) \<and> (\<forall>(now, st) \<in> set (sv_taken s). keyspace_ok lib st) \<and>
     sv_counter s = sv_named s \<and>
     (\<forall>i ph. sv_tasks s i = Some ph \<longrightarrow> phase_ok lib s ph) \<and>
     (\<forall>i ph temp. sv_tasks s i = Some ph \<longrightarrow> phase_temp ph = Some temp \<longrightarrow>
        (\<exists>u < sv_named s. temp = temp_name pid u path)) \<and>
     (\<forall>i j ph ph' temp. sv_tasks s i = Some ph \<longrightarrow> sv_tasks s j = Some ph' \<longrightarrow>
        phase_temp ph = Some temp \<longrightarrow> phase_temp ph' = Some temp \<longrightarrow> i = j) \<and>
     (sv_files s path = orig \<or> (\<exists>bytes. sv_files s path = Some bytes \<and> whole lib s bytes))"

lemma save_start_inv: "save_start lib s \<Longrightarrow> save_inv lib pid path (sv_files s path) s"
  by (simp add: save_start_def save_inv_def)

lemma whole_frame [simp]:
  "whole lib (s\<lparr>sv_store := a\<rparr>) = whole lib s" "whole lib (s\<lparr>sv_files := f\<rparr>) = whole lib s"
  "whole lib (s\<lparr>sv_counter := n\<rparr>) = whole lib s" "whole lib (s\<lparr>sv_tasks := t\<rparr>) = whole lib s"
  "whole lib (s\<lparr>sv_replies := r\<rparr>) = whole lib s" "whole lib (s\<lparr>sv_named := n\<rparr>) = whole lib s"
  by (simp_all add: whole_def fun_eq_iff)

text \<open>What a step must show: the texts of the tasks, their names, and the file.\<close>

lemma phase_ok_frame:
  "phase_ok lib s ph \<Longrightarrow> (\<And>b. whole lib s b \<Longrightarrow> whole lib s' b) \<Longrightarrow>
     (\<And>temp. ph = Written temp \<Longrightarrow> sv_files s' temp = sv_files s temp) \<Longrightarrow> phase_ok lib s' ph"
  by (cases ph) auto

lemma save_step_inv:
  assumes "save_inv lib pid path orig s" "save_step lib pid path s s'" "sv_named s' < 2 ^ 64"
  shows "save_inv lib pid path orig s'"
proof -
  note inv = assms(1) [unfolded save_inv_def]
  have texts: "phase_ok lib s ph" if "sv_tasks s i = Some ph" for i ph using inv that by blast
  have names: "\<exists>u < sv_named s. temp = temp_name pid u path"
    if "sv_tasks s i = Some ph" "phase_temp ph = Some temp" for i ph temp using inv that by blast
  have apart: "i = j" if "sv_tasks s i = Some ph" "sv_tasks s j = Some ph'"
    "phase_temp ph = Some temp" "phase_temp ph' = Some temp" for i j ph ph' temp using inv that by blast
  have other: "temp \<noteq> path" if "sv_tasks s i = Some ph" "phase_temp ph = Some temp" for i ph temp
    using names [OF that] by (auto simp: temp_name_new)
  have rest: "keyspace_ok lib (sv_store s)" "\<forall>(now, st) \<in> set (sv_taken s). keyspace_ok lib st"
    "sv_counter s = sv_named s"
    "sv_files s path = orig \<or> (\<exists>bytes. sv_files s path = Some bytes \<and> whole lib s bytes)"
    using inv by blast+
  from assms(2) show ?thesis
  proof (cases rule: save_step.cases)
    case (request st)
    have "phase_ok lib s' ph" if "sv_tasks s i = Some ph" for i ph
      by (rule phase_ok_frame [OF texts [OF that]]) (simp_all add: request(1))
    then show ?thesis
      using rest names apart request(2) unfolding request(1) save_inv_def by simp
  next
    case (take i now)
    have "phase_ok lib s' ph" if "sv_tasks s' j = Some ph" for j ph
    proof (cases "j = i")
      case True
      then show ?thesis using that by (auto simp: take(1) whole_def)
    next
      case False
      then have "sv_tasks s j = Some ph" using that by (simp add: take(1))
      from phase_ok_frame [OF texts [OF this]] show ?thesis by (simp add: take(1) whole_def)
    qed
    moreover have "whole lib s' b" if "whole lib s b" for b using that by (auto simp: take(1) whole_def)
    ultimately show ?thesis
      using rest names apart unfolding take(1) save_inv_def by (auto split: if_splits)
  next
    case (name i doc)
    have "phase_ok lib s' ph" if "sv_tasks s' j = Some ph" for j ph
      using that texts [OF name(2)] texts [of j ph]
      by (auto simp: name(1) split: if_splits elim!: phase_ok_frame)
    moreover have "phase_temp ph \<noteq> Some (temp_name pid (sv_named s) path)" if "sv_tasks s j = Some ph" for j ph
      using names [OF that] temp_name_inj by blast
    moreover have "\<exists>u < Suc (sv_named s). temp = temp_name pid u path"
      if "sv_tasks s j = Some ph" "phase_temp ph = Some temp" for j ph temp
      using names [OF that] less_SucI by blast
    ultimately show ?thesis
      using rest apart assms(3) unfolding name(1) save_inv_def by (auto split: if_splits)
  next
    case (write_some i doc temp n)
    have "phase_ok lib s' ph" if "sv_tasks s j = Some ph" for j ph
    proof (rule phase_ok_frame [OF texts [OF that]])
      show "sv_files s' t = sv_files s t" if "ph = Written t" for t
        using apart [OF \<open>sv_tasks s j = Some ph\<close> write_some(2), of t] write_some(2) \<open>sv_tasks s j = Some ph\<close> that
        by (auto simp: write_some(1))
    qed (simp add: write_some(1))
    then show ?thesis
      using rest names apart other [OF write_some(2)] unfolding write_some(1) save_inv_def by simp
  next
    case (write_all i doc temp)
    have "phase_ok lib s' ph" if "sv_tasks s' j = Some ph" for j ph
    proof (cases "j = i")
      case True
      then show ?thesis using that texts [OF write_all(2)] by (auto simp: write_all(1))
    next
      case False
      then have j: "sv_tasks s j = Some ph" using that by (simp add: write_all(1))
      show ?thesis
      proof (rule phase_ok_frame [OF texts [OF j]])
        show "sv_files s' t = sv_files s t" if "ph = Written t" for t
          using apart [OF j write_all(2), of t] False that by (auto simp: write_all(1))
      qed (simp add: write_all(1))
    qed
    then show ?thesis
      using rest names names [OF write_all(2)] apart apart [OF write_all(2)] other [OF write_all(2)]
      unfolding write_all(1) save_inv_def by (auto split: if_splits)
  next
    case (rename i temp bytes)
    have "phase_ok lib s' ph" if "sv_tasks s' j = Some ph" for j ph
    proof -
      have j: "sv_tasks s j = Some ph" "j \<noteq> i" using that by (auto simp: rename(1) split: if_splits)
      show ?thesis
      proof (rule phase_ok_frame [OF texts [OF j(1)]])
        show "sv_files s' t = sv_files s t" if "ph = Written t" for t
          using apart [OF j(1) rename(2), of t] other [OF j(1), of t] j(2) that by (auto simp: rename(1))
      qed (simp add: rename(1))
    qed
    moreover have "whole lib s bytes" "temp \<noteq> path"
      using texts [OF rename(2)] other [OF rename(2)] rename(3) by auto
    ultimately show ?thesis
      using rest names apart unfolding rename(1) save_inv_def by (auto split: if_splits)
  next
    case (failed i phase)
    have "phase_ok lib s' ph" if "sv_tasks s j = Some ph" for j ph
      by (rule phase_ok_frame [OF texts [OF that]]) (simp_all add: failed(1))
    then show ?thesis
      using rest names apart unfolding failed(1) save_inv_def by (auto split: if_splits)
  qed
qed

lemma save_named_mono: "save_step lib pid path s s' \<Longrightarrow> sv_named s \<le> sv_named s'"
  by (erule save_step_cases) auto

lemma save_run_inv:
  assumes "(save_step lib pid path)\<^sup>*\<^sup>* s s'" "save_inv lib pid path orig s"
  shows "sv_named s' < 2 ^ 64 \<Longrightarrow> save_inv lib pid path orig s'"
  using assms(1)
proof (induction rule: rtranclp_induct)
  case base
  show ?case by (rule assms(2))
next
  case (step s1 s2)
  then show ?case using save_step_inv [OF _ step(2)] save_named_mono [OF step(2)] by simp
qed

text \<open>A start after a crash at any moment of any number of overlapping saves.\<close>

lemma start_on_saved:
  assumes "ordered_float (lib_float lib)" "\<And>sn. codec_reads lib sn" "\<not> cf_appendonly cf"
    and "save_start lib s0" "(save_step lib pid path)\<^sup>*\<^sup>* s0 s" "sv_named s < 2 ^ 64"
    and "sv_files s path \<noteq> sv_files s0 path" "dk_snapshot dk = sv_files s path"
  shows "\<exists>now st db. (now, st) \<in> set (sv_taken s) \<and> init_persistence lib evs cf dk = Inr (db, None) \<and>
           (\<forall>k. rel_option (restarted now (ev_now (evs 0))) (live now st k) (hm_get (db_store db) k))"
proof -
  have inv: "save_inv lib pid path (sv_files s0 path) s"
    by (rule save_run_inv [OF assms(5) save_start_inv [OF assms(4)] assms(6)])
  then obtain now st where st: "(now, st) \<in> set (sv_taken s)" "sv_files s path = Some (snapshot_text lib now st)"
    using assms(7) by (auto simp: save_inv_def whole_def)
  have "lib_from_json lib (snapshot_text lib now st) = Some (db_snapshot now st)"
    using assms(2) by (simp add: codec_reads_def snapshot_text_def)
  from init_snapshot [OF assms(3) _ this, of dk evs] st(2) assms(8) obtain db where
    db: "init_persistence lib evs cf dk = Inr (db, None)"
    "db_store db = db_load_snapshot (lib_float lib) (ev_now (evs 0)) (db_snapshot now st) []" by auto
  have "keyspace_ok lib st" using inv st(1) by (auto simp: save_inv_def)
  then show ?thesis
    using st(1) db snapshot_restarts [OF assms(1), of st now "ev_now (evs 0)"] unfolding keyspace_ok_def
    by metis
qed

section \<open>Saves to the end\<close>

lemma save_finish:
  assumes "sv_tasks s i = Some (Taken doc)"
  obtains s' where "(save_step lib pid path)\<^sup>*\<^sup>* s s'" "sv_tasks s' = (sv_tasks s)(i := None)"
    "sv_store s' = sv_store s" "sv_taken s' = sv_taken s" "sv_files s' path = Some doc"
    "sv_replies s' = sv_replies s @ [(i, True)]" "sv_named s' = sv_named s + 1"
proof -
  let ?temp = "temp_name pid (sv_counter s) path"
  let ?a = "s\<lparr>sv_tasks := (sv_tasks s)(i \<mapsto> Named doc ?temp),
    sv_counter := (sv_counter s + 1) mod 2 ^ 64, sv_named := sv_named s + 1\<rparr>"
  let ?b = "?a\<lparr>sv_files := (sv_files ?a)(?temp \<mapsto> doc), sv_tasks := (sv_tasks ?a)(i \<mapsto> Written ?temp)\<rparr>"
  let ?c = "?b\<lparr>sv_files := (sv_files ?b)(path \<mapsto> doc, ?temp := None), sv_tasks := (sv_tasks ?b)(i := None),
    sv_replies := sv_replies ?b @ [(i, True)]\<rparr>"
  have "save_step lib pid path s ?a" using assms by (rule save_step.name)
  moreover have "save_step lib pid path ?a ?b" by (rule save_step.write_all) simp
  moreover have "save_step lib pid path ?b ?c" by (rule save_step.rename) simp_all
  ultimately have "(save_step lib pid path)\<^sup>*\<^sup>* s ?c"
    by (meson converse_rtranclp_into_rtranclp rtranclp.rtrancl_refl)
  moreover have "sv_files ?c path = Some doc" using temp_name_new [of pid "sv_counter s" path] by auto
  ultimately show thesis by (intro that [of ?c]) simp_all
qed

text \<open>A save that nothing interrupts leaves what \<open>db_save\<close> leaves.\<close>

lemma save_alone:
  assumes "sv_tasks s i = None"
  obtains s' where "(save_step lib pid path)\<^sup>*\<^sup>* s s'" "sv_tasks s' = sv_tasks s" "sv_store s' = sv_store s"
    "sv_taken s' = sv_taken s @ [(now, sv_store s)]"
    "sv_files s' path = Some (snapshot_text lib now (sv_store s))"
    "sv_replies s' = sv_replies s @ [(i, True)]" "sv_named s' = sv_named s + 1"
proof -
  let ?text = "snapshot_text lib now (sv_store s)"
  let ?a = "s\<lparr>sv_tasks := (sv_tasks s)(i \<mapsto> Taken ?text), sv_taken := sv_taken s @ [(now, sv_store s)]\<rparr>"
  have first: "save_step lib pid path s ?a" using assms by (rule save_step.take)
  have "sv_tasks ?a i = Some (Taken ?text)" by simp
  from save_finish [OF this, of lib pid path] obtain s' where
    "(save_step lib pid path)\<^sup>*\<^sup>* ?a s'" "sv_tasks s' = (sv_tasks ?a)(i := None)" "sv_store s' = sv_store ?a"
    "sv_taken s' = sv_taken ?a" "sv_files s' path = Some ?text" "sv_replies s' = sv_replies ?a @ [(i, True)]"
    "sv_named s' = sv_named ?a + 1" .
  with first assms show thesis by (intro that [of s']) (auto simp: converse_rtranclp_into_rtranclp)
qed

lemma db_save_text:
  assumes "db_snapshot_path db \<noteq> None" "ev_save_error ev = None"
  shows "db_snapshot_file (snd (db_save lib ev db)) = Some (snapshot_text lib (ev_now ev) (db_store db))"
  using assms by (auto simp: db_save_def snapshot_text_def)

section \<open>Overlapping saves\<close>

definition new_saver :: "store \<Rightarrow> (string \<Rightarrow> string option) \<Rightarrow> saver" where
  "new_saver st files =
     \<lparr>sv_store = st, sv_files = files, sv_counter = 0, sv_tasks = Map.empty, sv_replies = [],
      sv_named = 0, sv_taken = []\<rparr>"

definition one_key :: store where
  "one_key = [(''k1'', \<lparr>en_value = VStr ''v1'', en_expires_at = None\<rparr>)]"

lemma one_key_ok: "keyspace_ok lib one_key"
  by (simp add: keyspace_ok_def one_key_def store_inv_def store_all_def sizes_ok_def)

text \<open>C12: a save that began earlier may end later and replace the file of a newer one: after a background
  save has taken its snapshot, a client sets a key and SAVE writes it out and is answered with
  success; then the background save renames its older file into place.  Both were reported as
  done, and a start on the file does not have the key.\<close>

theorem overlapping_save_replaces_a_newer_one:
  "\<exists>s. (save_step lib pid path)\<^sup>*\<^sup>* (new_saver [] files) s \<and> sv_tasks s = Map.empty \<and>
     sv_taken s = [(0, []), (1, one_key)] \<and> sv_replies s = [(2, True), (1, True)] \<and>
     sv_store s = one_key \<and> sv_files s path = Some (snapshot_text lib 0 []) \<and>
     hm_get (db_load_snapshot (lib_float lib) later (db_snapshot 0 []) []) ''k1'' = None"
proof -
  let ?text = "snapshot_text lib 0 []" and ?s0 = "new_saver [] files"
  let ?a = "?s0\<lparr>sv_tasks := (sv_tasks ?s0)(1 \<mapsto> Taken (snapshot_text lib 0 (sv_store ?s0))),
    sv_taken := sv_taken ?s0 @ [(0, sv_store ?s0)]\<rparr>"
  have "save_step lib pid path ?s0 ?a" by (rule save_step.take) (simp add: new_saver_def)
  moreover have "save_step lib pid path ?a (?a\<lparr>sv_store := one_key\<rparr>)"
    by (rule save_step.request [OF one_key_ok])
  ultimately have began: "(save_step lib pid path)\<^sup>*\<^sup>* ?s0 (?a\<lparr>sv_store := one_key\<rparr>)" by simp
  have "sv_tasks (?a\<lparr>sv_store := one_key\<rparr>) 2 = None" by (simp add: new_saver_def)
  from save_alone [OF this, of lib pid path 1] obtain b where
    b: "(save_step lib pid path)\<^sup>*\<^sup>* (?a\<lparr>sv_store := one_key\<rparr>) b" "sv_tasks b = sv_tasks ?a"
      "sv_store b = one_key" "sv_taken b = [(0, []), (1, one_key)]" "sv_replies b = [(2, True)]"
    by (auto simp: new_saver_def)
  then have "sv_tasks b 1 = Some (Taken ?text)" by (simp add: new_saver_def)
  from save_finish [OF this, of lib pid path] obtain c where
    c: "(save_step lib pid path)\<^sup>*\<^sup>* b c" "sv_tasks c = Map.empty" "sv_store c = one_key"
      "sv_taken c = [(0, []), (1, one_key)]" "sv_files c path = Some ?text" "sv_replies c = [(2, True), (1, True)]"
    using b by (auto simp: new_saver_def)
  from began b(1) c(1) have "(save_step lib pid path)\<^sup>*\<^sup>* ?s0 c" by (meson rtranclp_trans)
  then show ?thesis
    using c by (intro exI [of _ c]) (simp add: db_load_snapshot_def db_snapshot_def)
qed

end
