(* ===== verification/Run.thy ===== *)
theory Run
  imports Log_Lifetimes
begin

text \<open>
  The life of one process: \<open>main\<close> of \<open>src/src/main.rs\<close>, and \<open>run\<close>, \<open>accept_loop\<close> and the two
  background tickers of \<open>src/src/server/mod.rs\<close>.  Connections go on being served while the
  server shuts down, until \<open>main\<close> returns and the runtime drops their tasks.
\<close>

section \<open>Start\<close>

text \<open>Binding the listener may fail; whatever fails afterwards in \<open>init_persistence\<close> fails the start
  too.\<close>

definition run_start ::
    "libs \<Rightarrow> (nat \<Rightarrow> env) \<Rightarrow> config \<Rightarrow> string option \<Rightarrow> disk \<Rightarrow>
     string + database \<times> fsync_policy option" where
  "run_start lib evs cf bind_error dk =
     (case bind_error of
        Some cause \<Rightarrow> Inl cause
      | None \<Rightarrow> init_persistence lib evs cf dk)"

text \<open>\<open>main\<close> exits with code 1 when \<open>run\<close> fails, and with 0 when it returns.\<close>

definition main_exit :: "string + 'a \<Rightarrow> nat" where
  "main_exit result = (case result of Inl cause \<Rightarrow> 1 | Inr _ \<Rightarrow> 0)"

text \<open>\<open>init_tracing\<close>; the names of the levels are the crate tracing's, a parameter.\<close>

definition tracing_level :: "(string \<Rightarrow> 'level option) \<Rightarrow> 'level \<Rightarrow> string \<Rightarrow> 'level" where
  "tracing_level level_from_str info level =
     (case level_from_str level of Some l \<Rightarrow> l | None \<Rightarrow> info)"

lemma start_fails_after_bind:
  assumes "cf_appendonly cf" "fsync_policy_from_str (cf_appendfsync cf) = Inl cause"
  shows "run_start lib evs cf None dk = Inl cause \<and> main_exit (run_start lib evs cf None dk) = 1"
  using assms by (simp add: run_start_def init_persistence_def main_exit_def)

section \<open>Service and shutdown\<close>

text \<open>After Ctrl+C the listener is closed, the last snapshot is taken, written, and the log is synced.\<close>

datatype run_phase = Serving | Leaving | Saving string | Syncing | Stopped

text \<open>\<open>rn_waiting\<close> counts the accepted connections whose tasks have not begun to run.\<close>

record server_run =
  rn_sys :: system
  rn_waiting :: nat
  rn_phase :: run_phase
  rn_synced :: nat

definition log_length :: "system \<Rightarrow> nat" where
  "log_length s = (case db_aof (sys_db s) of Some bytes \<Rightarrow> length bytes | None \<Rightarrow> 0)"

text \<open>\<open>sync_aof\<close>; its callers only report a failure.\<close>

definition sync_aof :: "bool \<Rightarrow> server_run \<Rightarrow> server_run" where
  "sync_aof failed r =
     (case db_aof (sys_db (rn_sys r)) of
        None \<Rightarrow> r
      | Some bytes \<Rightarrow> if failed then r else r\<lparr>rn_synced := length bytes\<rparr>)"

text \<open>The flusher is spawned for the policy \<open>everysec\<close> only.\<close>

definition flusher_turn :: "fsync_policy option \<Rightarrow> bool \<Rightarrow> server_run \<Rightarrow> server_run" where
  "flusher_turn policy failed r = (if policy = Some FsyncEverySec then sync_aof failed r else r)"

lemma sync_aof_frame [simp]:
  "rn_sys (sync_aof failed r) = rn_sys r" "rn_phase (sync_aof failed r) = rn_phase r"
  "rn_sys (flusher_turn policy failed r) = rn_sys r" "rn_phase (flusher_turn policy failed r) = rn_phase r"
  by (simp_all add: sync_aof_def flusher_turn_def split: option.splits)

lemma sync_aof_failed: "sync_aof True r = r"
  by (simp add: sync_aof_def split: option.splits)

definition with_file :: "string \<Rightarrow> system \<Rightarrow> system" where
  "with_file bytes s = s\<lparr>sys_db := (sys_db s)\<lparr>db_snapshot_file := Some bytes\<rparr>\<rparr>"

text \<open>Every step of a connection, the sweeper and background saves is a step of the run until the process
  ends, but connections are accepted only while it serves.  Under the policy \<open>always\<close> an append may
  sync the log; under \<open>everysec\<close> the flusher does, once a second.\<close>

inductive run_step :: "libs \<Rightarrow> fsync_policy option \<Rightarrow> server_run \<Rightarrow> server_run \<Rightarrow> bool" for lib policy where
  work:
    "rn_phase r \<noteq> Stopped \<Longrightarrow> sys_step lib (rn_sys r) s \<Longrightarrow>
     sys_seen s = sys_seen (rn_sys r) + started \<Longrightarrow> started \<le> rn_waiting r \<Longrightarrow>
     synced = rn_synced r \<or> policy = Some FsyncAlways \<and> synced = log_length s \<Longrightarrow>
     run_step lib policy r (r\<lparr>rn_sys := s, rn_waiting := rn_waiting r - started, rn_synced := synced\<rparr>)"
| flush_tick:
    "rn_phase r \<noteq> Stopped \<Longrightarrow> run_step lib policy r (flusher_turn policy failed r)"
| accept: "rn_phase r = Serving \<Longrightarrow> run_step lib policy r (r\<lparr>rn_waiting := rn_waiting r + 1\<rparr>)"
| accept_failed: "rn_phase r = Serving \<Longrightarrow> run_step lib policy r r"
| ctrl_c: "rn_phase r = Serving \<Longrightarrow> run_step lib policy r (r\<lparr>rn_phase := Leaving\<rparr>)"
| last_snapshot:
    "rn_phase r = Leaving \<Longrightarrow> db_snapshot_path (sys_db (rn_sys r)) = Some path \<Longrightarrow>
     run_step lib policy r
       (r\<lparr>rn_phase := Saving (lib_to_json lib (db_snapshot now (db_store (sys_db (rn_sys r)))))\<rparr>)"
| no_snapshot:
    "rn_phase r = Leaving \<Longrightarrow> db_snapshot_path (sys_db (rn_sys r)) = None \<Longrightarrow>
     run_step lib policy r (r\<lparr>rn_phase := Syncing\<rparr>)"
| snapshot_written:
    "rn_phase r = Saving bytes \<Longrightarrow>
     run_step lib policy r (r\<lparr>rn_phase := Syncing, rn_sys := with_file bytes (rn_sys r)\<rparr>)"
| snapshot_failed:
    "rn_phase r = Saving bytes \<Longrightarrow> run_step lib policy r (r\<lparr>rn_phase := Syncing\<rparr>)"
| last_sync:
    "rn_phase r = Syncing \<Longrightarrow> run_step lib policy r ((sync_aof failed r)\<lparr>rn_phase := Stopped\<rparr>)"

inductive_cases run_step_cases: "run_step lib policy r r'"

definition run_boot :: "database \<Rightarrow> server_run" where
  "run_boot db = \<lparr>rn_sys = booted db, rn_waiting = 0, rn_phase = Serving, rn_synced = 0\<rparr>"

text \<open>The whole server stays consistent through the shutdown.\<close>

lemma with_file_inv: "sys_inv lib s \<Longrightarrow> sys_inv lib (with_file bytes s)"
  unfolding with_file_def by (rule sys_inv_db_only) (simp_all add: sys_inv_def)

lemma run_step_inv:
  assumes "ordered_float (lib_float lib)" "run_step lib policy r r'"
    and "sys_inv lib (rn_sys r)" "sys_seen (rn_sys r') < 2 ^ 64"
  shows "sys_inv lib (rn_sys r')"
  using assms(2)
  by (cases rule: run_step.cases)
    (use assms sys_inv_step [OF assms(1,3)] with_file_inv [OF assms(3)] in auto)

lemma run_seen_mono: "run_step lib policy r r' \<Longrightarrow> sys_seen (rn_sys r) \<le> sys_seen (rn_sys r')"
  by (erule run_step_cases) (auto simp: with_file_def dest: reachable_seen_mono)

lemma run_inv:
  assumes "ordered_float (lib_float lib)" "(run_step lib policy)\<^sup>*\<^sup>* r r'" "sys_inv lib (rn_sys r)"
  shows "sys_seen (rn_sys r') < 2 ^ 64 \<Longrightarrow> sys_inv lib (rn_sys r')"
  using assms(2)
proof (induction rule: rtranclp_induct)
  case (step r1 r2)
  then show ?case
    using run_step_inv [OF assms(1) step(2)] run_seen_mono [OF step(2)] by simp
qed (rule assms(3))

lemma sync_and_stop:
  "run_step lib policy (r\<lparr>rn_phase := Syncing, rn_sys := s\<rparr>) (r\<lparr>rn_phase := Stopped, rn_sys := s\<rparr>)"
proof -
  have "r\<lparr>rn_phase := Stopped, rn_sys := s\<rparr> =
      (sync_aof True (r\<lparr>rn_phase := Syncing, rn_sys := s\<rparr>))\<lparr>rn_phase := Stopped\<rparr>"
    by (simp add: sync_aof_failed)
  then show ?thesis by (simp only:) (rule last_sync, simp)
qed

text \<open>Shutdown always completes, also when a write fails, and undisturbed it does what
  \<open>server_shutdown\<close> says.\<close>

lemma quiet_shutdown:
  assumes "rn_phase r = Leaving"
  shows "\<exists>r'. (run_step lib policy)\<^sup>*\<^sup>* r r' \<and> rn_phase r' = Stopped \<and>
           rn_sys r' = (rn_sys r)\<lparr>sys_db := server_shutdown lib ev (sys_db (rn_sys r))\<rparr>"
proof -
  have "\<exists>s. (run_step lib policy)\<^sup>*\<^sup>* r (r\<lparr>rn_phase := Syncing, rn_sys := s\<rparr>) \<and>
      s = (rn_sys r)\<lparr>sys_db := server_shutdown lib ev (sys_db (rn_sys r))\<rparr>"
  proof (cases "db_snapshot_path (sys_db (rn_sys r))")
    case None
    have "run_step lib policy r (r\<lparr>rn_phase := Syncing\<rparr>)" by (rule no_snapshot [OF assms None])
    with None show ?thesis
      by (intro exI [of _ "rn_sys r"]) (simp add: server_shutdown_def db_save_def r_into_rtranclp)
  next
    case (Some path)
    let ?b = "lib_to_json lib (db_snapshot (ev_now ev) (db_store (sys_db (rn_sys r))))"
    have take: "run_step lib policy r (r\<lparr>rn_phase := Saving ?b\<rparr>)" by (rule last_snapshot [OF assms Some])
    show ?thesis
    proof (cases "ev_save_error ev")
      case None
      have "run_step lib policy (r\<lparr>rn_phase := Saving ?b\<rparr>) (r\<lparr>rn_phase := Syncing, rn_sys := with_file ?b (rn_sys r)\<rparr>)"
        using snapshot_written [of "r\<lparr>rn_phase := Saving ?b\<rparr>" ?b lib policy] by simp
      with take None Some show ?thesis
        by (intro exI [of _ "with_file ?b (rn_sys r)"])
          (simp add: server_shutdown_def db_save_def with_file_def converse_rtranclp_into_rtranclp)
    next
      case (Some cause)
      have "run_step lib policy (r\<lparr>rn_phase := Saving ?b\<rparr>) (r\<lparr>rn_phase := Syncing\<rparr>)"
        using snapshot_failed [of "r\<lparr>rn_phase := Saving ?b\<rparr>" ?b lib policy] by simp
      with take Some \<open>db_snapshot_path (sys_db (rn_sys r)) = Some path\<close> show ?thesis
        by (intro exI [of _ "rn_sys r"])
          (simp add: server_shutdown_def db_save_def converse_rtranclp_into_rtranclp)
    qed
  qed
  then obtain s where s: "(run_step lib policy)\<^sup>*\<^sup>* r (r\<lparr>rn_phase := Syncing, rn_sys := s\<rparr>)"
    "s = (rn_sys r)\<lparr>sys_db := server_shutdown lib ev (sys_db (rn_sys r))\<rparr>" by blast
  show ?thesis
    by (rule exI [of _ "r\<lparr>rn_phase := Stopped, rn_sys := s\<rparr>"])
      (use rtranclp.rtrancl_into_rtrancl [OF s(1) sync_and_stop] s(2) in simp)
qed

section \<open>A write while the server shuts down\<close>

lemma set_without_log:
  assumes "db_aof db = None"
  shows "dispatch lib ev [''SET'', k, v] db =
    (''+OK'' @ crlf, db\<lparr>db_store := hm_insert k \<lparr>en_value = VStr v, en_expires_at = None\<rparr> (db_store db)\<rparr>)"
  using assms
  by (simp add: dispatch_def parse_set2 dispatch_command_def run_eq db_set_def log_write_def
      simple_string_def)

lemma handle_set_without_log:
  assumes "db_aof db = None" "ss_transaction ss = None" "ss_channels ss = []"
  shows "handle lib evs [''SET'', k, v] ss db =
    (''+OK'' @ crlf, ss, db\<lparr>db_store := hm_insert k \<lparr>en_value = VStr v, en_expires_at = None\<rparr> (db_store db)\<rparr>)"
  using assms by (simp add: handle_set set_without_log)

text \<open>A step that falls between the last snapshot and its end is not in the file.\<close>

lemma step_during_last_snapshot:
  assumes "rn_phase r = Leaving" "db_snapshot_path (sys_db (rn_sys r)) = Some path"
    and "sys_step lib (rn_sys r) s" "sys_seen s = sys_seen (rn_sys r)"
  shows "(run_step lib policy)\<^sup>*\<^sup>* r (r\<lparr>rn_phase := Stopped,
    rn_sys := with_file (lib_to_json lib (db_snapshot now (db_store (sys_db (rn_sys r))))) s\<rparr>)"
proof -
  let ?b = "lib_to_json lib (db_snapshot now (db_store (sys_db (rn_sys r))))"
  have "run_step lib policy r (r\<lparr>rn_phase := Saving ?b\<rparr>)" by (rule last_snapshot [OF assms(1,2)])
  moreover have "run_step lib policy (r\<lparr>rn_phase := Saving ?b\<rparr>) (r\<lparr>rn_phase := Saving ?b, rn_sys := s\<rparr>)"
    using work [of "r\<lparr>rn_phase := Saving ?b\<rparr>" lib s 0 "rn_synced r" policy] assms(3,4) by simp
  moreover have "run_step lib policy (r\<lparr>rn_phase := Saving ?b, rn_sys := s\<rparr>)
      (r\<lparr>rn_phase := Syncing, rn_sys := with_file ?b s\<rparr>)"
    using snapshot_written [of "r\<lparr>rn_phase := Saving ?b, rn_sys := s\<rparr>" ?b lib policy] by simp
  ultimately show ?thesis
    using sync_and_stop [where r = r and s = "with_file ?b s"] by (meson converse_rtranclp_into_rtranclp rtranclp.rtrancl_refl)
qed

text \<open>C11: a write acknowledged during the shutdown is lost, and nobody is told: the listener is closed and
  the last snapshot taken, but the connections are still served until \<open>main\<close> returns.  Here one
  client is connected, its SET is answered with OK while the last snapshot is being written, the
  shutdown succeeds, and the next start does not have the key.\<close>

theorem write_during_shutdown_is_lost:
  "\<exists>r. (run_step lib None)\<^sup>*\<^sup>* (run_boot (with_persistence 0 (Some path) None)) r \<and>
     rn_phase r = Stopped \<and> cn_out (the (sys_conns (rn_sys r) 0)) = ''+OK'' @ crlf \<and>
     hm_get (db_store (sys_db (rn_sys r))) ''k1'' = Some \<lparr>en_value = VStr ''v1'', en_expires_at = None\<rparr> \<and>
     db_snapshot_file (sys_db (rn_sys r)) = Some (lib_to_json lib (db_snapshot 0 [])) \<and>
     hm_get (db_load_snapshot (lib_float lib) later (db_snapshot 0 []) []) ''k1'' = None"
proof -
  define db :: database where "db = with_persistence 0 (Some path) None"
  define r0 where "r0 = run_boot db"
  obtain n db1 where n: "client_connected db = (n, db1)" by fastforce
  obtain ss db2 where ss: "session_new 0 db1 = (ss, db2)" by fastforce
  have fresh: "ss_transaction ss = None" "ss_channels ss = []" "db_aof db2 = None" "db_store db2 = []"
    "db_snapshot_path db2 = Some path"
    using n ss by (auto simp: session_new_def next_subscriber_id_def client_connected_def db_def
        with_persistence_def database_new_def Let_def case_prod_unfold)
  let ?c = "\<lparr>cn_session = ss, cn_running = None, cn_out = []\<rparr>"
  define s1 :: system where "s1 = \<lparr>sys_db = db2, sys_conns = [0 \<mapsto> ?c], sys_seen = 1\<rparr>"
  define db3 where "db3 = db2\<lparr>db_store := [(''k1'', \<lparr>en_value = VStr ''v1'', en_expires_at = None\<rparr>)]\<rparr>"
  define s2 :: system where
    "s2 = \<lparr>sys_db = db3, sys_conns = [0 \<mapsto> ?c\<lparr>cn_out := ''+OK'' @ crlf\<rparr>], sys_seen = 1\<rparr>"
  have r0: "r0 = \<lparr>rn_sys = \<lparr>sys_db = db, sys_conns = Map.empty, sys_seen = 0\<rparr>, rn_waiting = 0, rn_phase = Serving, rn_synced = 0\<rparr>"
    by (simp add: r0_def run_boot_def booted_def)
  have connect: "sys_step lib (rn_sys r0) s1"
    using sys_step.connect [of "rn_sys r0" n db1 ss db2 lib] n ss by (simp add: r0 s1_def)
  have "handle lib (\<lambda>_. ev) [''SET'', ''k1'', ''v1''] ss db2 = (''+OK'' @ crlf, ss, db3)" for ev
    using handle_set_without_log [OF fresh(3,1,2)] fresh(4) by (simp add: db3_def)
  then have set_key: "sys_step lib s1 s2"
    using sys_step.request [of s1 0 ?c "[''SET'', ''k1'', ''v1'']" "(sample_env 0)\<lparr>ev_open_boxes := {0}\<rparr>" lib]
    by (simp add: s1_def s2_def starts_exec_def fresh(1))
  let ?r1 = "r0\<lparr>rn_sys := s1, rn_phase := Leaving\<rparr>"
  have "run_step lib None r0 (r0\<lparr>rn_waiting := 1\<rparr>)" using accept [of r0 lib None] by (simp add: r0)
  moreover have "run_step lib None (r0\<lparr>rn_waiting := 1\<rparr>) (r0\<lparr>rn_sys := s1\<rparr>)"
    using work [of "r0\<lparr>rn_waiting := 1\<rparr>" lib s1 1 0 None] connect by (simp add: r0 s1_def)
  moreover have "run_step lib None (r0\<lparr>rn_sys := s1\<rparr>) ?r1"
    using ctrl_c [of "r0\<lparr>rn_sys := s1\<rparr>" lib None] by (simp add: r0)
  ultimately have "(run_step lib None)\<^sup>*\<^sup>* r0 ?r1"
    by (meson converse_rtranclp_into_rtranclp rtranclp.rtrancl_refl)
  moreover have "(run_step lib None)\<^sup>*\<^sup>* ?r1 (?r1\<lparr>rn_phase := Stopped,
      rn_sys := with_file (lib_to_json lib (db_snapshot 0 [])) s2\<rparr>)"
    using step_during_last_snapshot [of ?r1 path lib s2 None 0] set_key fresh(4,5) by (simp add: s1_def s2_def)
  ultimately show ?thesis
    unfolding db_def [symmetric] r0_def [symmetric]
    by (intro exI [of _ "?r1\<lparr>rn_phase := Stopped, rn_sys := with_file (lib_to_json lib (db_snapshot 0 [])) s2\<rparr>"])
      (simp add: s2_def db3_def with_file_def db_load_snapshot_def db_snapshot_def)
qed

end
