(* ===== verification/Small_Scores.thy ===== *)
theory Small_Scores
  imports F64 Collections
begin

text \<open>
  Decimal texts of a few scores and their f64, computed from the exactness of \<open>round_units\<close>.  The
  scores are those that occur in the repository's tests.
\<close>

lemma dec_mag_exact:
  assumes "b < inf_mag" "mag_units b * 10 ^ k = d * unit_den"
  shows "dec_mag d (- int k) = b"
  using round_units_exact [OF assms(1), of "10 ^ k"] round_units_exact [OF assms(1), of 1] assms(2)
  by (cases k) (simp_all add: dec_mag_def nat_add_distrib)

lemma below_power_mono: 
  assumes "below_power b j" shows "below_power b (j + 1)"
proof (cases "0 \<le> j")
  case True
  then have "nat (j + 1) = Suc (nat j)" by linarith
  with True assms show ?thesis by (auto simp: below_power_def scaled_def)
next
  case False
  show ?thesis
  proof (cases "j = - 1")
    case True
    then show ?thesis using assms by (simp add: below_power_def scaled_def)
  next
    case n: False
    then have "nat (- j) = Suc (nat (- (j + 1)))" using False by linarith
    then show ?thesis using False n assms
      by (simp add: below_power_def scaled_def)
  qed
qed

lemma below_power_le: "below_power b j \<Longrightarrow> below_power b (j + int n)"
  by (induction n) (auto dest: below_power_mono simp: ac_simps)

lemma dec_point_eq:
  assumes "below_power b (int k - 330)" "\<not> below_power b (int k - 331)" "k < 700"
  shows "dec_point b = int k - 330"
proof -
  have "\<not> below_power b (int i - 330)" if "i < k" for i
    using below_power_le [of b "int i - 330" "k - 1 - i"] assms(2) that by (auto simp: of_nat_diff algebra_simps)
  then have "find (\<lambda>i. below_power b (int i - 330)) [0..<700] = Some k"
    using assms by (auto simp: find_Some_iff intro!: exI [of _ k])
  then show ?thesis by (simp add: dec_point_def)
qed

lemma dec_point_digit:
  assumes "mag_units b = d * unit_den" "0 < d" "d < 10"
  shows "dec_point b = 1"
  using assms dec_point_eq [of b 331] by (simp add: below_power_def scaled_def unit_den_def)


lemma small_units:
  "mag_units 4607182418800017408 = 1 * unit_den" "mag_units 4611686018427387904 = 2 * unit_den"
  "mag_units 4613937818241073152 = 3 * unit_den" "mag_units 4617315517961601024 = 5 * unit_den"
  "mag_units 4618441417868443648 = 6 * unit_den" "mag_units 4619567317775286272 = 7 * unit_den"
  "mag_units 4621819117588971520 = 10 * unit_den"
  "mag_units 4602678819172646912 * 10 = 5 * unit_den" "mag_units 4609434218613702656 * 10 = 15 * unit_den"
  "mag_units 4607182418800017408 * 10 = 10 * unit_den" "mag_units 4611686018427387904 * 10 = 20 * unit_den"
  unfolding mag_units_def unit_den_def by simp_all

lemma dec_mag_whole: "b < inf_mag \<Longrightarrow> mag_units b = d * unit_den \<Longrightarrow> dec_mag d 0 = b"
  using dec_mag_exact [of b 0 d] by simp

lemma dec_mag_tenths: "b < inf_mag \<Longrightarrow> mag_units b * 10 = d * unit_den \<Longrightarrow> dec_mag d (- 1) = b"
  using dec_mag_exact [of b 1 d] by simp

lemma dec_mag_digits:
  "dec_mag 1 0 = 4607182418800017408" "dec_mag 2 0 = 4611686018427387904"
  "dec_mag 3 0 = 4613937818241073152" "dec_mag 5 0 = 4617315517961601024"
  "dec_mag 6 0 = 4618441417868443648" "dec_mag 7 0 = 4619567317775286272"
  "dec_mag 10 0 = 4621819117588971520"
  "dec_mag 5 (- 1) = 4602678819172646912" "dec_mag 15 (- 1) = 4609434218613702656"
  "dec_mag 10 (- 1) = 4607182418800017408" "dec_mag 20 (- 1) = 4611686018427387904"
  by (rule dec_mag_whole dec_mag_tenths, simp add: inf_mag_def, rule small_units)+

lemma dec_mag_zero: "dec_mag 0 1 = 0"
  unfolding dec_mag_def round_units_def by (simp add: shift_for.simps [of 0])

lemma dec_mag_ten: "dec_mag 1 1 = 4621819117588971520"
  using dec_mag_digits(7) by (simp add: dec_mag_def)

lemma print_digit:
  assumes "dec_mag d 0 = b" "dec_mag (d + 1) 0 \<noteq> b" "mag_units b = d * unit_den" "0 < d" "d < 10"
    and "b \<noteq> 4621819117588971520"
  shows "mag_string b = show_nat d"
proof -
  have u: "0 < unit_den" by (simp add: unit_den_def)
  have s0: "shortest (Suc n) b 0 = Some (d, 0)" for n
    using assms u by (simp add: scaled_def)
  have b: "b \<noteq> 0" using assms(3,4) u by (cases "b = 0") (simp_all add: mag_units_def)
  have "shortest (Suc (Suc n)) b 1 = Some (d, 0)" for n
    using assms(3-6) u s0 b
    by (subst shortest.simps) (simp add: scaled_def mult.commute [of d] dec_mag_zero dec_mag_ten [simplified] del: shortest.simps)
  from this [of 1998] b show ?thesis
    using dec_point_digit [OF assms(3-5)] by (simp add: mag_string_def dec_string_def del: shortest.simps)
qed

lemma print_scores: "mag_string 4611686018427387904 = ''2''" "mag_string 4618441417868443648 = ''6''"
proof -
  have "mag_string 4611686018427387904 = show_nat 2"
    by (rule print_digit) (simp_all add: dec_mag_digits small_units)
  moreover have "show_nat 2 = ''2''" by code_simp
  ultimately show "mag_string 4611686018427387904 = ''2''" by simp
  have "mag_string 4618441417868443648 = show_nat 6"
    by (rule print_digit) (simp_all add: dec_mag_digits small_units)
  moreover have "show_nat 6 = ''6''" by code_simp
  ultimately show "mag_string 4618441417868443648 = ''6''" by simp
qed

text \<open>The literals and arguments of the tests.\<close>

definition lit :: "string \<Rightarrow> f64" where
  "lit s = the (parse_f64 s)"

lemma parse_number_texts:
  "parse_number ''1'' = Some (1, 0)" "parse_number ''2'' = Some (2, 0)" "parse_number ''3'' = Some (3, 0)"
  "parse_number ''5'' = Some (5, 0)" "parse_number ''1.0'' = Some (10, - 1)"
  "parse_number ''2.0'' = Some (20, - 1)" "parse_number ''0.5'' = Some (5, - 1)"
  "parse_number ''1.5'' = Some (15, - 1)" "parse_number ''inf'' = None" "parse_number ''nan'' = None"
  by code_simp+

lemma parse_texts:
  "parse_f64 ''1'' = Some (mk_f64 False 4607182418800017408)"
  "parse_f64 ''2'' = Some (mk_f64 False 4611686018427387904)"
  "parse_f64 ''3'' = Some (mk_f64 False 4613937818241073152)"
  "parse_f64 ''5'' = Some (mk_f64 False 4617315517961601024)"
  "parse_f64 ''1.0'' = Some (mk_f64 False 4607182418800017408)"
  "parse_f64 ''2.0'' = Some (mk_f64 False 4611686018427387904)"
  "parse_f64 ''0.5'' = Some (mk_f64 False 4602678819172646912)"
  "parse_f64 ''1.5'' = Some (mk_f64 False 4609434218613702656)"
  unfolding parse_f64_def
  by (simp_all add: parse_number_texts dec_mag_digits dec_mag_digits(1) [simplified])

lemma parse_special_texts:
  "parse_f64 ''inf'' = Some f64_infinity" "parse_f64 ''nan'' = Some f64_nan"
proof -
  have "to_ascii_lowercase ''inf'' = ''inf''" "to_ascii_lowercase ''nan'' = ''nan''" by code_simp+
  then show "parse_f64 ''inf'' = Some f64_infinity" "parse_f64 ''nan'' = Some f64_nan"
    by (simp_all add: parse_f64_def parse_number_texts parse_inf_nan_def f64_infinity_def f64_nan_def)
qed

lemmas lit_texts = lit_def parse_texts parse_special_texts

text \<open>How the comparison of two of them, neither NaN, comes out.\<close>

lemma mk_f64_not_nan_small: "b \<le> inf_mag \<Longrightarrow> \<not> is_nan (mk_f64 s b)"
  using inf_mag_less by (simp add: is_nan_def)

lemma f64_key_mk: "b \<le> inf_mag \<Longrightarrow> f64_key (mk_f64 s b) = (if s then - int b else int b)"
  using inf_mag_less by (simp add: f64_key_def)

lemma f64_le_mk:
  assumes "b \<le> inf_mag" "b' \<le> inf_mag"
  shows "f64_le (mk_f64 s b) (mk_f64 s' b') \<longleftrightarrow>
      (if s then - int b else int b) \<le> (if s' then - int b' else int b')"
  using assms by (simp add: f64_le_def mk_f64_not_nan_small f64_key_mk)

lemma cmp_mk_f64:
  assumes "ordered_float fo" "b \<le> inf_mag" "b' \<le> inf_mag"
  shows "of_cmp fo (mk_f64 s b) (mk_f64 s' b') =
      cmp_of (if s then - int b else int b) (if s' then - int b' else int b')"
    and "of_eq fo (mk_f64 s b) (mk_f64 s' b') \<longleftrightarrow>
      (if s then - int b else int b) = (if s' then - int b' else int b')"
  using assms ordered_float.cmp_numbers [OF assms(1), of "mk_f64 s b" "mk_f64 s' b'"]
  by (auto simp: ordered_float.eq_iff_cmp mk_f64_not_nan_small f64_key_mk f64_lt_def f64_eq_def cmp_of_def)

text \<open>Sums of whole numbers.\<close>

lemma f64_add_whole:
  assumes "a < inf_mag" "b < inf_mag" "mag_units a = m * unit_den" "mag_units b = n * unit_den" "0 < m + n"
  shows "f64_add (mk_f64 False a) (mk_f64 False b) = mk_f64 False (dec_mag (m + n) 0)"
proof -
  have u: "0 < unit_den" by (simp add: unit_den_def)
  have mags: "mag (mk_f64 False a) = a" "mag (mk_f64 False b) = b"
    using assms(1,2) inf_mag_less by simp_all
  define k where "k = (m + n) * unit_den"
  have sum: "signed_units (mk_f64 False a) + signed_units (mk_f64 False b) = int k"
    by (simp add: signed_units_def mags assms(3,4) k_def algebra_simps)
  have "k \<noteq> 0" using assms(5) u by (simp add: k_def)
  then have "f64_add (mk_f64 False a) (mk_f64 False b) = mk_f64 False (round_units k 1)"
    using assms(1,2) by (simp add: f64_add_def is_nan_def is_infinite_def mags sum Let_def)
  then show ?thesis by (simp add: dec_mag_def k_def)
qed

lemma one_plus_five:
  "f64_add (mk_f64 False 4607182418800017408) (mk_f64 False 4617315517961601024) = mk_f64 False 4618441417868443648"
  using f64_add_whole [OF _ _ small_units(1) small_units(4)] dec_mag_digits(5) by (simp add: inf_mag_def)

end
