(* ===== verification/Unit_Tests.thy ===== *)
theory Unit_Tests
  imports Small_Scores Log_Limits Store_Properties
begin

text \<open>
  The repository's own unit tests of \<open>src/src/resp.rs\<close> and \<open>src/src/database/data_structure.rs\<close>,
  each translated to a definition that runs it on the model, and the proof that it passes.
  \<open>Command_Tests\<close>, \<open>Store_Tests\<close> and \<open>Server_Tests\<close> have those of the other files.
\<close>

section \<open>Assertions\<close>

definition crlf_lines :: "string list \<Rightarrow> string" where
  "crlf_lines ls = concat (map (\<lambda>l. l @ crlf) ls)"

definition quoted :: "string \<Rightarrow> string" where
  "quoted s = [CHR 0x27] @ s @ [CHR 0x27]"

definition is_reply :: "string list \<Rightarrow> string \<Rightarrow> bool" where
  "is_reply ls reply \<longleftrightarrow> reply = crlf_lines ls"

definition starts_with :: "string \<Rightarrow> string \<Rightarrow> bool" where
  "starts_with p s \<longleftrightarrow> List.take (length p) s = p"

fun contains :: "string \<Rightarrow> string \<Rightarrow> bool" where
  "contains p [] \<longleftrightarrow> p = []"
| "contains p (c # s) \<longleftrightarrow> starts_with p (c # s) \<or> contains p s"

definition any_reply :: "string \<Rightarrow> bool" where
  "any_reply reply \<longleftrightarrow> True"

section \<open>Encoders\<close>

definition error_sanitizes_embedded_crlf :: bool where
  "error_sanitizes_embedded_crlf \<longleftrightarrow>
     resp_error (''ERR unknown command '' @ quoted (''X'' @ crlf @ ''+OK'')) =
       crlf_lines [''-ERR unknown command '' @ quoted ''X  +OK'']"

definition encodes_scalar_replies :: bool where
  "encodes_scalar_replies \<longleftrightarrow>
     simple_string ''OK'' = crlf_lines [''+OK''] \<and> resp_error ''ERR nope'' = crlf_lines [''-ERR nope''] \<and>
     resp_integer 1 = crlf_lines ['':1''] \<and> resp_integer 0 = crlf_lines ['':0''] \<and>
     bulk_string ''hi'' = crlf_lines [''$2'', ''hi''] \<and> resp_null = crlf_lines [''$-1'']"

definition encodes_arrays :: bool where
  "encodes_arrays \<longleftrightarrow>
     resp_array [''a'', ''bb''] = crlf_lines [''*2'', ''$1'', ''a'', ''$2'', ''bb''] \<and>
     resp_array [] = crlf_lines [''*0'']"

definition encodes_nullable_arrays :: bool where
  "encodes_nullable_arrays \<longleftrightarrow>
     nullable_array [Some ''a'', None, Some ''c''] =
       crlf_lines [''*3'', ''$1'', ''a'', ''$-1'', ''$1'', ''c''] \<and>
     nullable_array [] = crlf_lines [''*0'']"

lemma encoder_tests_pass:
  error_sanitizes_embedded_crlf encodes_scalar_replies encodes_arrays encodes_nullable_arrays
  by code_simp+

section \<open>Value types\<close>

definition list_range_handles_negative_and_out_of_bounds :: bool where
  "list_range_handles_negative_and_out_of_bounds \<longleftrightarrow>
     (let list = fold rl_rpush [''a'', ''b'', ''c'', ''d''] rlist_new
      in rl_lrange 0 (- 1) list = [''a'', ''b'', ''c'', ''d''] \<and>
         rl_lrange (- 2) (- 1) list = [''c'', ''d''] \<and>
         rl_lrange 0 100 list = [''a'', ''b'', ''c'', ''d''] \<and>
         rl_lrange 2 1 list = [] \<and> rl_lrange 0 (- 1) rlist_new = [])"

definition set_add_remove_and_membership :: bool where
  "set_add_remove_and_membership \<longleftrightarrow>
     (let (added, s1) = rs_sadd ''x'' rset_new;
          (again, s2) = rs_sadd ''x'' s1;
          (removed, s3) = rs_srem ''x'' s2
      in added \<and> \<not> again \<and> rs_sismember ''x'' s2 \<and> removed \<and> s3 = [])"

definition hash_set_get_and_remove :: bool where
  "hash_set_get_and_remove \<longleftrightarrow>
     (let (new, h1) = rh_hset ''f'' ''1'' rhash_new;
          (new2, h2) = rh_hset ''f'' ''2'' h1;
          (removed, h3) = rh_hdel ''f'' h2;
          (removed2, h4) = rh_hdel ''f'' h3
      in new \<and> \<not> new2 \<and> rh_hget ''f'' h2 = Some ''2'' \<and> rh_hexists ''f'' h2 \<and> rh_hlen h2 = 1 \<and>
         removed \<and> \<not> removed2 \<and> h4 = [])"

definition sorted_set_orders_by_score_and_counts_only_new_members :: "float_order \<Rightarrow> bool" where
  "sorted_set_orders_by_score_and_counts_only_new_members fo \<longleftrightarrow>
     (let (new, z1) = zs_zadd fo (lit ''1.0'') ''a'' zset_new;
          (new2, z2) = zs_zadd fo (lit ''2.0'') ''a'' z1;
          (new3, z3) = zs_zadd fo (lit ''0.5'') ''b'' z2
      in new \<and> \<not> new2 \<and> new3 \<and> zs_zrange 0 (- 1) z3 = [''b'', ''a''] \<and>
         zs_zscore ''a'' z3 = Some (lit ''2.0'') \<and> zs_zscore ''missing'' z3 = None)"

lemma value_tests_pass:
  list_range_handles_negative_and_out_of_bounds set_add_remove_and_membership hash_set_get_and_remove
  by code_simp+

lemma sorted_set_test_passes:
  assumes "ordered_float fo"
  shows "sorted_set_orders_by_score_and_counts_only_new_members fo"
  unfolding sorted_set_orders_by_score_and_counts_only_new_members_def zs_zadd_def zs_zrange_def zs_zscore_def
  by (simp add: lit_texts cmp_mk_f64 [OF assms] inf_mag_def smember_cmp_def cmp_of_def zset_new_def resolve_range_def Let_def)

end
