(* ===== verification/Command_Tests.thy ===== *)
theory Command_Tests
  imports Unit_Tests
begin

text \<open>
  The unit tests of \<open>src/src/command/mod.rs\<close>.  A test makes requests, the i-th at the time \<open>t i\<close>, and
  checks the replies; all but the one about deadlines pass whatever the times are.  \<open>code_simp\<close>
  evaluates the tests in the kernel, with the times and the crates left open; those with scores
  are evaluated by rewriting with \<open>Small_Scores\<close>.
\<close>

section \<open>Requests and checks\<close>

text \<open>The tests' \<open>handle\<close>, and a test that makes requests and checks each reply.\<close>

definition handle_line :: "libs \<Rightarrow> env \<Rightarrow> string \<Rightarrow> database \<Rightarrow> string \<times> database" where
  "handle_line lib ev input db = dispatch lib ev (split_whitespace input) db"

fun script :: "libs \<Rightarrow> (nat \<Rightarrow> nat) \<Rightarrow> (string \<times> (string \<Rightarrow> bool)) list \<Rightarrow> database \<Rightarrow> bool" where
  "script lib t [] db \<longleftrightarrow> True"
| "script lib t ((input, check) # rest) db \<longleftrightarrow>
     (case handle_line lib (sample_env (t 0)) input db of
        (reply, db') \<Rightarrow> check reply \<and> script lib (\<lambda>i. t (Suc i)) rest db')"

lemma dispatch_quiet:
  assumes "parse tokens = Inr cmd" "db_aof db = None" "\<And>key. cmd \<noteq> CSPop key"
  shows "dispatch lib ev tokens db = (fst (execute cmd lib ev db), snd (execute cmd lib ev db))"
proof -
  have "tokens \<noteq> []" using assms(1) by (auto simp: parse_def)
  moreover have "db_aof (snd (execute cmd lib ev db)) = None" using execute_aof [of cmd lib ev db] assms(2) by simp
  ultimately show ?thesis using assms(1,3)
    by (cases cmd) (auto simp: dispatch_def dispatch_command_def case_prod_unfold log_write_def)
qed

lemma script_Cons_parse: 
  assumes "parse (split_whitespace input) = Inr cmd" "db_aof db = None" "\<And>key. cmd \<noteq> CSPop key"
  shows "script lib t ((input, check) # rest) db \<longleftrightarrow> check (fst (execute cmd lib (sample_env (t 0)) db)) \<and>
    script lib (\<lambda>i. t (Suc i)) rest (snd (execute cmd lib (sample_env (t 0)) db))"
  by (simp add: handle_line_def dispatch_quiet [OF assms] case_prod_unfold)

fun after :: "libs \<Rightarrow> (nat \<Rightarrow> nat) \<Rightarrow> (string \<times> (string \<Rightarrow> bool)) list \<Rightarrow> database \<Rightarrow> database" where
  "after lib t [] db = db"
| "after lib t ((input, check) # rest) db =
     after lib (\<lambda>i. t (Suc i)) rest (snd (handle_line lib (sample_env (t 0)) input db))"

lemma script_append:
  "script lib t (a @ b) db \<longleftrightarrow> script lib t a db \<and> script lib (\<lambda>i. t (length a + i)) b (after lib t a db)"
  by (induction lib t a db rule: after.induct) (auto simp: case_prod_unfold)

lemma script_Cons_error:
  assumes "parse (split_whitespace input) = Inl err" "split_whitespace input \<noteq> []"
  shows "script lib t ((input, check) # rest) db \<longleftrightarrow>
    check (resp_error (command_error_string err)) \<and> script lib (\<lambda>i. t (Suc i)) rest db"
  using assms by (simp add: handle_line_def dispatch_def)

section \<open>The tests\<close>

definition set_and_get_roundtrip :: "libs \<Rightarrow> (nat \<Rightarrow> nat) \<Rightarrow> bool" where
  "set_and_get_roundtrip lib t \<longleftrightarrow> script lib t
    [(''SET name radley'', is_reply [''+OK'']),
     (''GET name'', is_reply [''$6'', ''radley'']),
     (''GET missing'', is_reply [''$-1''])]
    (database_new (t 0))"

definition command_names_are_case_insensitive :: "libs \<Rightarrow> (nat \<Rightarrow> nat) \<Rightarrow> bool" where
  "command_names_are_case_insensitive lib t \<longleftrightarrow> script lib t
    [(''set k v'', is_reply [''+OK'']),
     (''Get k'', is_reply [''$1'', ''v''])]
    (database_new (t 0))"

definition del_returns_an_integer_reply :: "libs \<Rightarrow> (nat \<Rightarrow> nat) \<Rightarrow> bool" where
  "del_returns_an_integer_reply lib t \<longleftrightarrow> script lib t
    [(''SET k v'', any_reply),
     (''DEL k'', is_reply ['':1'']),
     (''DEL k'', is_reply ['':0''])]
    (database_new (t 0))"

definition lrange_uses_redis_argument_order :: "libs \<Rightarrow> (nat \<Rightarrow> nat) \<Rightarrow> bool" where
  "lrange_uses_redis_argument_order lib t \<longleftrightarrow> script lib t
    [(''RPUSH l a'', any_reply),
     (''RPUSH l b'', any_reply),
     (''RPUSH l c'', any_reply),
     (''LRANGE l 0 -1'', is_reply [''*3'', ''$1'', ''a'', ''$1'', ''b'', ''$1'', ''c''])]
    (database_new (t 0))"

definition hash_set_get_and_incr :: "libs \<Rightarrow> (nat \<Rightarrow> nat) \<Rightarrow> bool" where
  "hash_set_get_and_incr lib t \<longleftrightarrow> script lib t
    [(''HSET h f 1'', is_reply ['':1'']),
     (''HSET h f 2'', is_reply ['':0'']),
     (''HGET h f'', is_reply [''$1'', ''2'']),
     (''HGET h missing'', is_reply [''$-1'']),
     (''HLEN h'', is_reply ['':1'']),
     (''HINCRBY h f 5'', is_reply ['':7'']),
     (''HEXISTS h f'', is_reply ['':1'']),
     (''HDEL h f'', is_reply ['':1'']),
     (''HGET h f'', is_reply [''$-1''])]
    (database_new (t 0))"

definition variadic_commands_count_correctly :: "libs \<Rightarrow> (nat \<Rightarrow> nat) \<Rightarrow> bool" where
  "variadic_commands_count_correctly lib t \<longleftrightarrow> script lib t
    [(''RPUSH l a b c'', is_reply ['':3'']),
     (''LRANGE l 0 -1'', is_reply [''*3'', ''$1'', ''a'', ''$1'', ''b'', ''$1'', ''c'']),
     (''SADD s a b c a'', is_reply ['':3'']),
     (''SREM s a b x'', is_reply ['':2'']),
     (''ZADD z 1 a 2 b 3 c'', is_reply ['':3'']),
     (''DEL l s z missing'', is_reply ['':3''])]
    (database_new (t 0))"

definition string_number_and_length_commands :: "libs \<Rightarrow> (nat \<Rightarrow> nat) \<Rightarrow> bool" where
  "string_number_and_length_commands lib t \<longleftrightarrow> script lib t
    [(''INCR counter'', is_reply ['':1'']),
     (''INCRBY counter 9'', is_reply ['':10'']),
     (''DECR counter'', is_reply ['':9'']),
     (''DECRBY counter 4'', is_reply ['':5'']),
     (''APPEND s ab'', is_reply ['':2'']),
     (''APPEND s cd'', is_reply ['':4'']),
     (''STRLEN s'', is_reply ['':4'']),
     (''INCR s'', starts_with ''-ERR value is not an integer'')]
    (database_new (t 0))"

definition mget_mset_setnx_getset :: "libs \<Rightarrow> (nat \<Rightarrow> nat) \<Rightarrow> bool" where
  "mget_mset_setnx_getset lib t \<longleftrightarrow> script lib t
    [(''MSET a 1 b 2'', is_reply [''+OK'']),
     (''MGET a missing b'', is_reply [''*3'', ''$1'', ''1'', ''$-1'', ''$1'', ''2'']),
     (''SETNX a 9'', is_reply ['':0'']),
     (''SETNX c 9'', is_reply ['':1'']),
     (''GETSET a 5'', is_reply [''$1'', ''1'']),
     (''GET a'', is_reply [''$1'', ''5''])]
    (database_new (t 0))"

definition list_index_and_set_operations :: "libs \<Rightarrow> (nat \<Rightarrow> nat) \<Rightarrow> bool" where
  "list_index_and_set_operations lib t \<longleftrightarrow> script lib t
    [(''RPUSH l a'', any_reply),
     (''RPUSH l b'', any_reply),
     (''RPUSH l c'', any_reply),
     (''LLEN l'', is_reply ['':3'']),
     (''LINDEX l -1'', is_reply [''$1'', ''c'']),
     (''LSET l 0 z'', is_reply [''+OK'']),
     (''LINDEX l 0'', is_reply [''$1'', ''z'']),
     (''LSET l 9 x'', starts_with ''-ERR index out of range''),
     (''LSET missing 0 x'', starts_with ''-ERR no such key''),
     (''SADD s1 a'', any_reply),
     (''SADD s1 b'', any_reply),
     (''SADD s2 b'', any_reply),
     (''SCARD s1'', is_reply ['':2'']),
     (''SINTER s1 s2'', is_reply [''*1'', ''$1'', ''b''])]
    (database_new (t 0))"

definition sorted_set_rank_incr_and_withscores :: "libs \<Rightarrow> (nat \<Rightarrow> nat) \<Rightarrow> bool" where
  "sorted_set_rank_incr_and_withscores lib t \<longleftrightarrow> script lib t
    [(''ZADD z 1 a'', any_reply),
     (''ZADD z 2 b'', any_reply),
     (''ZCARD z'', is_reply ['':2'']),
     (''ZRANK z b'', is_reply ['':1'']),
     (''ZRANK z missing'', is_reply [''$-1'']),
     (''ZINCRBY z 5 a'', is_reply [''$1'', ''6'']),
     (''ZRANGE z 0 -1 WITHSCORES'', is_reply [''*4'', ''$1'', ''b'', ''$1'', ''2'', ''$1'', ''a'', ''$1'', ''6'']),
     (''ZRANGEBYSCORE z 2 5'', is_reply [''*1'', ''$1'', ''b''])]
    (database_new (t 0))"

definition spop_removes_and_returns_a_member :: "libs \<Rightarrow> (nat \<Rightarrow> nat) \<Rightarrow> bool" where
  "spop_removes_and_returns_a_member lib t \<longleftrightarrow> script lib t
    [(''SADD s only'', any_reply),
     (''SPOP s'', is_reply [''$4'', ''only'']),
     (''SPOP s'', is_reply [''$-1'']),
     (''EXISTS s'', is_reply ['':0''])]
    (database_new (t 0))"

definition nan_scores_are_rejected :: "libs \<Rightarrow> (nat \<Rightarrow> nat) \<Rightarrow> bool" where
  "nan_scores_are_rejected lib t \<longleftrightarrow> script lib t
    [(''ZADD z nan m'', starts_with ''-ERR''),
     (''ZINCRBY z nan m'', starts_with ''-ERR''),
     (''ZRANGEBYSCORE z nan 5'', starts_with ''-ERR''),
     (''ZADD z inf m'', is_reply ['':1''])]
    (database_new (t 0))"

definition generic_key_commands :: "libs \<Rightarrow> (nat \<Rightarrow> nat) \<Rightarrow> bool" where
  "generic_key_commands lib t \<longleftrightarrow> script lib t
    [(''SET a 1'', any_reply),
     (''RPUSH b x'', any_reply),
     (''EXISTS a b missing'', is_reply ['':2'']),
     (''TYPE a'', is_reply [''+string'']),
     (''TYPE b'', is_reply [''+list'']),
     (''TYPE missing'', is_reply [''+none'']),
     (''DBSIZE'', is_reply ['':2'']),
     (''PING'', is_reply [''+PONG'']),
     (''PING hey'', is_reply [''$3'', ''hey'']),
     (''ECHO hi'', is_reply [''$2'', ''hi'']),
     (''RENAME missing x'', is_reply [''-ERR no such key'']),
     (''RENAME a c'', is_reply [''+OK'']),
     (''GET c'', is_reply [''$1'', ''1'']),
     (''FLUSHALL'', is_reply [''+OK'']),
     (''DBSIZE'', is_reply ['':0''])]
    (database_new (t 0))"

definition expire_ttl_and_persist :: "libs \<Rightarrow> (nat \<Rightarrow> nat) \<Rightarrow> bool" where
  "expire_ttl_and_persist lib t \<longleftrightarrow> script lib t
    [(''SET k v'', any_reply),
     (''TTL k'', is_reply ['':-1'']),
     (''EXPIRE k 100'', is_reply ['':1'']),
     (''TTL k'', (\<lambda>ttl. is_reply ['':100''] ttl \<or> is_reply ['':99''] ttl)),
     (''PERSIST k'', is_reply ['':1'']),
     (''PERSIST k'', is_reply ['':0'']),
     (''TTL missing'', is_reply ['':-2''])]
    (database_new (t 0))"

definition keys_matches_glob_patterns :: "libs \<Rightarrow> (nat \<Rightarrow> nat) \<Rightarrow> bool" where
  "keys_matches_glob_patterns lib t \<longleftrightarrow> script lib t
    [(''SET user:1 v'', any_reply),
     (''SET user:2 v'', any_reply),
     (''SET post:1 v'', any_reply),
     (''KEYS user:*'', (\<lambda>r. starts_with (crlf_lines [''*2'']) r \<and> contains ''user:1'' r \<and> contains ''user:2'' r \<and>
           \<not> contains ''post:1'' r)),
     (''KEYS *'', starts_with (crlf_lines [''*3'']))]
    (database_new (t 0))"

definition wrong_type_produces_an_error_reply :: "libs \<Rightarrow> (nat \<Rightarrow> nat) \<Rightarrow> bool" where
  "wrong_type_produces_an_error_reply lib t \<longleftrightarrow> script lib t
    [(''LPUSH l a'', any_reply),
     (''GET l'', starts_with ''-WRONGTYPE'')]
    (database_new (t 0))"

definition malformed_input_never_panics :: "libs \<Rightarrow> (nat \<Rightarrow> nat) \<Rightarrow> bool" where
  "malformed_input_never_panics lib t \<longleftrightarrow> script lib t
    [(''SET k v EX abc'', starts_with ''-ERR''),
     (''LRANGE l x y'', starts_with ''-ERR''),
     (''FOO bar'', is_reply [''-ERR unknown command '' @ quoted ''FOO'']),
     (''GET'', (\<lambda>r. r = resp_error (command_error_string (arity ''GET'')))),
     ('''', is_reply [])]
    (database_new (t 0))"

definition command_error_messages_match_redis :: bool where
  "command_error_messages_match_redis \<longleftrightarrow>
     command_error_string (UnknownCommand ''X'') = ''ERR unknown command '' @ quoted ''X'' \<and>
     command_error_string (arity ''SET'') = ''ERR wrong number of arguments for '' @ quoted ''set'' @ '' command'' \<and>
     command_error_string (NotInteger ''z'') = ''ERR value '' @ quoted ''z'' @ '' is not a valid integer''"

lemma set_and_get_roundtrip_passes: "set_and_get_roundtrip lib t"
  by code_simp

lemma command_names_are_case_insensitive_passes: "command_names_are_case_insensitive lib t"
  by code_simp

lemma del_returns_an_integer_reply_passes: "del_returns_an_integer_reply lib t"
  by code_simp

lemma lrange_uses_redis_argument_order_passes: "lrange_uses_redis_argument_order lib t"
  by code_simp

lemma hash_set_get_and_incr_passes: "hash_set_get_and_incr lib t"
  by code_simp

lemma string_number_and_length_commands_passes: "string_number_and_length_commands lib t"
  by code_simp

lemma mget_mset_setnx_getset_passes: "mget_mset_setnx_getset lib t"
  by code_simp

lemma list_index_and_set_operations_passes: "list_index_and_set_operations lib t"
  by code_simp

lemma spop_removes_and_returns_a_member_passes: "spop_removes_and_returns_a_member lib t"
  by code_simp

lemma generic_key_commands_passes: "generic_key_commands lib t"
  by code_simp

lemma keys_matches_glob_patterns_passes: "keys_matches_glob_patterns lib t"
  by code_simp

lemma wrong_type_produces_an_error_reply_passes: "wrong_type_produces_an_error_reply lib t"
  by code_simp

lemma malformed_input_never_panics_passes: "malformed_input_never_panics lib t"
  by code_simp

lemma command_error_messages_match_redis_passes: command_error_messages_match_redis
  by code_simp

section \<open>Tests with scores\<close>

lemma words:
  "split_whitespace ''ZADD z 1 a 2 b 3 c'' = [''ZADD'', ''z'', ''1'', ''a'', ''2'', ''b'', ''3'', ''c'']"
  "split_whitespace ''ZADD z 1 a'' = [''ZADD'', ''z'', ''1'', ''a'']"
  by code_simp+

lemma upz: "to_ascii_uppercase ''ZADD'' = ''ZADD''" by code_simp

lemma parse_zadd:
  "parse [''ZADD'', ''z'', ''1'', ''a'', ''2'', ''b'', ''3'', ''c''] = Inr (CZAdd ''z'' [(lit ''1'', ''a''), (lit ''2'', ''b''), (lit ''3'', ''c'')])"
  by (simp add: parse_def parse_basic_def parse_zset_hash_def upz parse_score_def lit_texts mk_f64_not_nan_small inf_mag_def)

lemma parse_zadd':
  "parse (split_whitespace ''ZADD z 1 a 2 b 3 c'') = Inr (CZAdd ''z'' [(lit ''1'', ''a''), (lit ''2'', ''b''), (lit ''3'', ''c'')])"
  by (simp only: words parse_zadd)

lemmas zset_ops = run_eq peek_def db_zadd_def grow_def 
  sorted_set_or_create_def or_create_def evict_def live_entry_def read_entry_def
  write_value_def is_expired_def Let_def zs_zadd_def smember_cmp_def zset_new_def

definition list_and_set :: store where
  "list_and_set = [(''l'', \<lparr>en_value = VList [''a'', ''b'', ''c''], en_expires_at = None\<rparr>),
     (''s'', \<lparr>en_value = VSet [''c''], en_expires_at = None\<rparr>)]"

lemma variadic_front:
  "script lib t [(''RPUSH l a b c'', is_reply ['':3'']),
     (''LRANGE l 0 -1'', is_reply [''*3'', ''$1'', ''a'', ''$1'', ''b'', ''$1'', ''c'']),
     (''SADD s a b c a'', is_reply ['':3'']), (''SREM s a b x'', is_reply ['':2''])] (database_new now)"
  "after lib t [(''RPUSH l a b c'', is_reply ['':3'']),
     (''LRANGE l 0 -1'', is_reply [''*3'', ''$1'', ''a'', ''$1'', ''b'', ''$1'', ''c'']),
     (''SADD s a b c a'', is_reply ['':3'']), (''SREM s a b x'', is_reply ['':2''])] (database_new now) =
      (database_new now)\<lparr>db_store := list_and_set\<rparr>"
  by code_simp+

lemma variadic_back:
  "script lib t [(''DEL l s z missing'', is_reply ['':3''])]
    ((database_new now)\<lparr>db_store := list_and_set @ [(''z'', \<lparr>en_value = VSortedSet z, en_expires_at = None\<rparr>)]\<rparr>)"
  by code_simp

lemma zadd_three:
  assumes "ordered_float (lib_float lib)"
  shows "handle_line lib ev ''ZADD z 1 a 2 b 3 c'' ((database_new now)\<lparr>db_store := list_and_set\<rparr>) =
    ('':3'' @ crlf, (database_new now)\<lparr>db_store := list_and_set @ [(''z'', \<lparr>en_value =
       VSortedSet (snd (zadd_all (lib_float lib) [(lit ''1'', ''a''), (lit ''2'', ''b''), (lit ''3'', ''c'')] 0 zset_new)),
       en_expires_at = None\<rparr>)]\<rparr>)"
proof -
  have three: "reply_count (Inr (Suc (Suc (Suc 0)))) = '':3'' @ crlf" by code_simp
  have aof: "db_aof ((database_new now)\<lparr>db_store := list_and_set\<rparr>) = None" by (simp add: database_new_def)
  show ?thesis
    unfolding handle_line_def
    by (subst dispatch_quiet [OF parse_zadd' aof])
      (simp_all add: zset_ops list_and_set_def lit_texts cmp_mk_f64 [OF assms] inf_mag_def cmp_of_def three)
qed

lemma variadic_commands_count_correctly_passes:
  assumes "ordered_float (lib_float lib)"
  shows "variadic_commands_count_correctly lib t"
proof -
  have "script lib t' [(''ZADD z 1 a 2 b 3 c'', is_reply ['':3'']), (''DEL l s z missing'', is_reply ['':3''])]
      ((database_new now)\<lparr>db_store := list_and_set\<rparr>)" for t' now
    using variadic_back by (simp add: zadd_three [OF assms] is_reply_def crlf_lines_def)
  then show ?thesis
    unfolding variadic_commands_count_correctly_def
    using iffD2 [OF script_append, OF conjI [OF variadic_front(1)], unfolded variadic_front(2)]
    by (simp only: append.simps)
qed

lemma sorted_parses:
  "parse (split_whitespace ''ZCARD z'') = Inr (CZCard ''z'')"
  "parse (split_whitespace ''ZRANK z b'') = Inr (CZRank ''z'' ''b'')"
  "parse (split_whitespace ''ZRANK z missing'') = Inr (CZRank ''z'' ''missing'')"
  "parse (split_whitespace ''ZRANGE z 0 -1 WITHSCORES'') = Inr (CZRange ''z'' 0 (- 1) True)"
  by code_simp+

lemma score_words:
  "split_whitespace ''ZADD z 2 b'' = [''ZADD'', ''z'', ''2'', ''b'']"
  "split_whitespace ''ZINCRBY z 5 a'' = [''ZINCRBY'', ''z'', ''5'', ''a'']"
  "split_whitespace ''ZRANGEBYSCORE z 2 5'' = [''ZRANGEBYSCORE'', ''z'', ''2'', ''5'']"
  "split_whitespace ''ZADD z nan m'' = [''ZADD'', ''z'', ''nan'', ''m'']"
  "split_whitespace ''ZINCRBY z nan m'' = [''ZINCRBY'', ''z'', ''nan'', ''m'']"
  "split_whitespace ''ZRANGEBYSCORE z nan 5'' = [''ZRANGEBYSCORE'', ''z'', ''nan'', ''5'']"
  "split_whitespace ''ZADD z inf m'' = [''ZADD'', ''z'', ''inf'', ''m'']"
  "to_ascii_uppercase ''ZADD'' = ''ZADD''"
  "to_ascii_uppercase ''ZINCRBY'' = ''ZINCRBY''"
  "to_ascii_uppercase ''ZRANGEBYSCORE'' = ''ZRANGEBYSCORE''"
  "to_ascii_lowercase ''2'' = ''2''" "to_ascii_lowercase ''5'' = ''5''" "to_ascii_lowercase ''nan'' = ''nan''"
  by code_simp+

lemmas parse_arms = parse_def parse_basic_def parse_zset_hash_def parse_generic_def
  parse_score_def parse_score_bound_def bind_err_def lit_texts mk_f64_not_nan_small inf_mag_def

lemma score_parses:
  "parse (split_whitespace ''ZADD z 1 a'') = Inr (CZAdd ''z'' [(lit ''1'', ''a'')])"
  "parse (split_whitespace ''ZADD z 2 b'') = Inr (CZAdd ''z'' [(lit ''2'', ''b'')])"
  "parse (split_whitespace ''ZADD z inf m'') = Inr (CZAdd ''z'' [(f64_infinity, ''m'')])"
  "parse (split_whitespace ''ZADD z nan m'') = Inl (NotAFloat ''nan'')"
  by (simp_all add: words score_words parse_arms)

lemma score_parses2:
  "parse (split_whitespace ''ZINCRBY z 5 a'') = Inr (CZIncrBy ''z'' (lit ''5'') ''a'')"
  "parse (split_whitespace ''ZRANGEBYSCORE z 2 5'') = Inr (CZRangeByScore ''z'' (lit ''2'') True (lit ''5'') True)"
  "parse (split_whitespace ''ZINCRBY z nan m'') = Inl (NotAFloat ''nan'')"
  "parse (split_whitespace ''ZRANGEBYSCORE z nan 5'') = Inl (NotAFloat ''nan'')"
  by (simp_all add: words score_words parse_arms parse_string_def parse_rest_def)

lemma nan_scores_are_rejected_passes:
  assumes "ordered_float (lib_float lib)"
  shows "nan_scores_are_rejected lib t"
proof -
  have err: "starts_with ''-ERR'' (resp_error (command_error_string (NotAFloat ''nan'')))" by code_simp
  have one: "is_reply ['':1''] (reply_count (Inr (Suc 0)))" by code_simp
  show ?thesis
    unfolding nan_scores_are_rejected_def
    by (simp add: script_Cons_error [OF score_parses(4)] script_Cons_error [OF score_parses2(3)]
        script_Cons_error [OF score_parses2(4)] script_Cons_parse [OF score_parses(3)] score_words
        database_new_def err [simplified] zset_ops one del: script.simps(2))
qed

lemmas more_ops = zset_ops db_zcard_def db_zrank_def db_zincrby_def db_zrange_def db_zrange_with_scores_def
  db_zrange_by_score_def zs_zscore_def zs_zcard_def zs_zrank_def zs_zrange_def zs_zrange_with_scores_def 
  zs_zrange_by_score_def

lemma sorted_set_rank_incr_and_withscores_passes:
  assumes "ordered_float (lib_float lib)"
  shows "sorted_set_rank_incr_and_withscores lib t"
proof -
  note of = cmp_mk_f64 [OF assms] inf_mag_def cmp_of_def
  have print: "format_score (mk_f64 False 4611686018427387904) = ''2''"
    "format_score (mk_f64 False 4618441417868443648) = ''6''"
    by (simp_all add: format_score_def f64_to_string_def is_infinite_def mk_f64_not_nan_small inf_mag_def print_scores)
  have replies: "is_reply ['':2''] (reply_count (Inr (Suc (Suc 0))))" "is_reply ['':1''] (reply_rank (Inr (Some (Suc 0))))"
    "is_reply [''$-1''] (reply_rank (Inr None))" "is_reply [''$1'', ''6''] (bulk_string ''6'')"
    "is_reply [''*4'', ''$1'', ''b'', ''$1'', ''2'', ''$1'', ''a'', ''$1'', ''6''] (resp_array [''b'', ''2'', ''a'', ''6''])"
    "is_reply [''*1'', ''$1'', ''b''] (reply_array (Inr [''b'']))"
    by code_simp+
  show ?thesis
    unfolding sorted_set_rank_incr_and_withscores_def
    by (simp add: script_Cons_parse [OF score_parses(1)] script_Cons_parse [OF score_parses(2)]
        script_Cons_parse [OF score_parses2(1)] script_Cons_parse [OF score_parses2(2)]
        script_Cons_parse [OF sorted_parses(1)] script_Cons_parse [OF sorted_parses(2)]
        script_Cons_parse [OF sorted_parses(3)] script_Cons_parse [OF sorted_parses(4)]
        any_reply_def database_new_def more_ops lit_texts of f64_le_mk mk_f64_not_nan_small one_plus_five
        resolve_range_def reply_score_def reply_scored_def print replies del: script.simps(2))
qed

section \<open>A test with a log\<close>

text \<open>\<open>str::lines\<close>.\<close>

definition strip_cr :: "string \<Rightarrow> string" where
  "strip_cr l = (if l \<noteq> [] \<and> last l = CR then butlast l else l)"

fun text_lines :: "string \<Rightarrow> string \<Rightarrow> string list" where
  "text_lines line [] = (if line = [] then [] else [line])"
| "text_lines line (c # s) =
     (if c = LF then strip_cr line # text_lines [] s else text_lines (line @ [c]) s)"

definition spop_is_logged_to_the_aof_as_a_deterministic_srem :: "libs \<Rightarrow> (nat \<Rightarrow> nat) \<Rightarrow> bool" where
  "spop_is_logged_to_the_aof_as_a_deterministic_srem lib t \<longleftrightarrow>
     (let db = with_persistence (t 0) None (Some []);
          (reply, db1) = handle_line lib (sample_env (t 0)) ''SADD s a b c'' db;
          (popped, db2) = handle_line lib (sample_env (t 1)) ''SPOP s'' db1;
          member = text_lines [] popped ! 1;
          logged = the (db_aof db2)
      in \<not> contains ''SPOP'' logged \<and> contains ''SREM'' logged \<and> contains member logged)"

lemma spop_is_logged_to_the_aof_as_a_deterministic_srem_passes:
  "spop_is_logged_to_the_aof_as_a_deterministic_srem lib t"
  by code_simp

section \<open>The test with a deadline\<close>

text \<open>The clock of a test: it does not go back, the test takes less than a second, and the end of the
  clock is far away.\<close>

definition test_clock :: "(nat \<Rightarrow> nat) \<Rightarrow> bool" where
  "test_clock t \<longleftrightarrow> mono t \<and> (\<forall>i. t i < t 0 + nanos) \<and> t 0 < 2 ^ 62 * nanos"

lemma clock_facts:
  assumes "test_clock t"
  shows "i \<le> j \<Longrightarrow> t i \<le> t j" "t i < t 0 + nanos" "t i div nanos + 100 < 2 ^ 63"
proof -
  show "i \<le> j \<Longrightarrow> t i \<le> t j" and *: "t i < t 0 + nanos"
    using assms by (auto simp: test_clock_def monoD)
  have "t 0 < 2 ^ 62 * nanos" using assms by (simp add: test_clock_def)
  with * have "t i < (2 ^ 62 + 1) * nanos" by (simp add: nanos_def)
  then have "t i div nanos < 2 ^ 62 + 1" by (simp only: less_mult_imp_div_less)
  then show "t i div nanos + 100 < 2 ^ 63" by simp
qed

lemma ttl_parses:
  "parse (split_whitespace ''SET k v'') = Inr (CSet ''k'' ''v'' None)"
  "parse (split_whitespace ''TTL k'') = Inr (CTtl ''k'')"
  "parse (split_whitespace ''EXPIRE k 100'') = Inr (CExpire ''k'' 100)"
  "parse (split_whitespace ''PERSIST k'') = Inr (CPersist ''k'')"
  "parse (split_whitespace ''TTL missing'') = Inr (CTtl ''missing'')"
  by code_simp+

lemma expire_ttl_and_persist_passes:
  assumes "test_clock t"
  shows "expire_ttl_and_persist lib t"
proof -
  let ?a = "t (Suc (Suc 0))" and ?b = "t (Suc (Suc (Suc 0)))"
  have now: "t 0 \<le> t i" "t i < t 0 + nanos" "?a \<le> ?b" for i
    by (rule clock_facts [OF assms], simp?)+
  have early: "?a div nanos + 100 < 2 ^ 63" by (rule clock_facts(3) [OF assms])
  have left: "(?a + 100 * nanos - ?b) div nanos = 100 \<or> (?a + 100 * nanos - ?b) div nanos = 99"
  proof (cases "?a = ?b")
    case False
    then have "(?a + 100 * nanos - ?b) div nanos = 99"
      using now(1) [of "Suc (Suc 0)"] now(2) [of "Suc (Suc (Suc 0))"] now(3)
      by (intro div_nat_eqI) (simp_all add: nanos_def)
    then show ?thesis ..
  qed (simp add: nanos_def)
  have live: "\<not> ?a + 100 * nanos \<le> t i" for i
    using now(1) [of "Suc (Suc 0)"] now(2) [of i] by (simp add: nanos_def)
  have replies: "is_reply ['':-1''] (resp_integer (- 1))" "is_reply ['':-2''] (resp_integer (- 2))"
    "is_reply ['':0''] (flag_reply False)" "is_reply ['':1''] (flag_reply True)"
    "is_reply ['':100''] (resp_integer 100)" "is_reply ['':99''] (resp_integer 99)"
    by code_simp+
  show ?thesis
    unfolding expire_ttl_and_persist_def
    by (use left in \<open>auto simp: script_Cons_parse [OF ttl_parses(1)] script_Cons_parse [OF ttl_parses(2)]
      script_Cons_parse [OF ttl_parses(3)] script_Cons_parse [OF ttl_parses(4)]
      script_Cons_parse [OF ttl_parses(5)] any_reply_def database_new_def run_eq db_set_def db_ttl_def db_expire_def db_persist_def
      read_entry_def live_entry_def is_expired_def deadline_after_def evict_def sample_env_def early early [simplified] live replies simp del: script.simps(2)\<close>)
qed

lemma command_tests_pass:
  assumes "ordered_float (lib_float lib)" "test_clock t"
  shows "\<forall>test \<in> {set_and_get_roundtrip, command_names_are_case_insensitive,
     del_returns_an_integer_reply, lrange_uses_redis_argument_order, hash_set_get_and_incr,
     variadic_commands_count_correctly, string_number_and_length_commands,
     mget_mset_setnx_getset, list_index_and_set_operations,
     sorted_set_rank_incr_and_withscores, spop_removes_and_returns_a_member,
     nan_scores_are_rejected, generic_key_commands, expire_ttl_and_persist,
     keys_matches_glob_patterns, wrong_type_produces_an_error_reply,
     malformed_input_never_panics, spop_is_logged_to_the_aof_as_a_deterministic_srem}. test lib t"
  by (simp add: set_and_get_roundtrip_passes command_names_are_case_insensitive_passes
    del_returns_an_integer_reply_passes lrange_uses_redis_argument_order_passes
    hash_set_get_and_incr_passes variadic_commands_count_correctly_passes [OF assms(1)]
    string_number_and_length_commands_passes mget_mset_setnx_getset_passes
    list_index_and_set_operations_passes sorted_set_rank_incr_and_withscores_passes [OF assms(1)]
    spop_removes_and_returns_a_member_passes nan_scores_are_rejected_passes [OF assms(1)]
    generic_key_commands_passes expire_ttl_and_persist_passes [OF assms(2)]
    keys_matches_glob_patterns_passes wrong_type_produces_an_error_reply_passes
    malformed_input_never_panics_passes spop_is_logged_to_the_aof_as_a_deterministic_srem_passes)

end
