(* ===== verification/Store_Tests.thy ===== *)
theory Store_Tests
  imports Command_Tests Lifecycle
begin

text \<open>
  The unit tests of \<open>src/src/database/db.rs\<close>.  The i-th operation on the store runs at the time
  \<open>t i\<close>; a test without deadlines passes at any times.
\<close>

section \<open>Operations on the store\<close>

definition set_get_and_delete :: "(nat \<Rightarrow> nat) \<Rightarrow> bool" where
  "set_get_and_delete t \<longleftrightarrow>
     (let s = db_set (t 0) ''k'' ''v'' None [];
          (got, s) = db_get (t 1) ''k'' s;
          (removed, s) = db_del (t 2) [''k''] s;
          (removed2, s) = db_del (t 3) [''k''] s;
          (got2, s) = db_get (t 4) ''k'' s
      in got = Inr (Some ''v'') \<and> removed = 1 \<and> removed2 = 0 \<and> got2 = Inr None)"

definition delete_works_across_every_type :: "(nat \<Rightarrow> nat) \<Rightarrow> bool" where
  "delete_works_across_every_type t \<longleftrightarrow>
     (let (pushed, s) = db_rpush (t 0) ''list'' [''a''] [];
          (removed, s) = db_del (t 1) [''list''] s;
          (items, s) = db_lrange (t 2) ''list'' 0 (- 1) s
      in isl pushed = False \<and> removed = 1 \<and> items = Inr [])"

definition wrong_type_is_reported :: "(nat \<Rightarrow> nat) \<Rightarrow> bool" where
  "wrong_type_is_reported t \<longleftrightarrow>
     (let (pushed, s) = db_lpush (t 0) ''list'' [''a''] [];
          (got, s) = db_get (t 1) ''list'' s
      in isl pushed = False \<and> got = Inl WrongType)"

definition expired_keys_are_evicted_lazily :: "(nat \<Rightarrow> nat) \<Rightarrow> bool" where
  "expired_keys_are_evicted_lazily t \<longleftrightarrow>
     fst (db_get (t 1) ''k'' (db_set (t 0) ''k'' ''v'' (Some 0) [])) = Inr None"

definition huge_ttl_does_not_panic :: "(nat \<Rightarrow> nat) \<Rightarrow> bool" where
  "huge_ttl_does_not_panic t \<longleftrightarrow>
     (let s = db_set (t 0) ''k'' ''v'' (Some (2 ^ 64 - 1)) [];
          (got, s) = db_get (t 1) ''k'' s;
          (ttl, s) = db_ttl (t 2) ''k'' s;
          (ok, s) = db_expire (t 3) ''k'' (2 ^ 63 - 1) s;
          (got2, s) = db_get (t 4) ''k'' s
      in got = Inr (Some ''v'') \<and> ttl = - 1 \<and> ok \<and> got2 = Inr (Some ''v''))"

definition zincrby_to_nan_is_rejected :: "float_order \<Rightarrow> (nat \<Rightarrow> nat) \<Rightarrow> bool" where
  "zincrby_to_nan_is_rejected fo t \<longleftrightarrow>
     (let (added, s) = db_zadd fo (t 0) ''z'' [(f64_infinity, ''m'')] [];
          (sum, s) = db_zincrby fo (t 1) ''z'' f64_neg_infinity ''m'' s;
          (score, s) = db_zscore (t 2) ''z'' ''m'' s
      in isl added = False \<and> sum = Inl ScoreNaN \<and> score = Inr (Some f64_infinity))"

definition sweep_removes_only_expired_keys :: "(nat \<Rightarrow> nat) \<Rightarrow> bool" where
  "sweep_removes_only_expired_keys t \<longleftrightarrow>
     (let s = db_set (t 0) ''live'' ''v'' None [];
          s = db_set (t 1) ''gone'' ''v'' (Some 0) s;
          (removed, s) = db_sweep_expired (t 2) s;
          (got, s') = db_get (t 4) ''live'' s
      in removed = 1 \<and> db_dbsize (t 3) s = 1 \<and> got = Inr (Some ''v''))"

definition info_reports_clients_and_keys :: "(nat \<Rightarrow> nat) \<Rightarrow> bool" where
  "info_reports_clients_and_keys t \<longleftrightarrow>
     (let db = (database_new (t 0))\<lparr>db_store := db_set (t 1) ''k'' ''v'' None []\<rparr>;
          (n1, db) = client_connected db;
          (n2, db) = client_connected db;
          info = db_info (t 2) (client_disconnected db)
      in n1 = 1 \<and> n2 = 2 \<and> contains ''connected_clients:1'' info \<and> contains ''keys:1'' info \<and>
         contains ''uptime_in_seconds:'' info)"

definition popping_the_last_element_removes_the_key :: "(nat \<Rightarrow> nat) \<Rightarrow> bool" where
  "popping_the_last_element_removes_the_key t \<longleftrightarrow>
     (let (pushed, s) = db_rpush (t 0) ''l'' [''only''] [];
          (popped, s) = db_lpop (t 1) ''l'' s;
          (pushed2, s) = db_rpush (t 2) ''l'' [''x''] s
      in isl pushed = False \<and> popped = Inr (Some ''only'') \<and> pushed2 = Inr 1)"

section \<open>Snapshots\<close>

definition snapshot_round_trips_non_finite_scores :: "libs \<Rightarrow> (nat \<Rightarrow> nat) \<Rightarrow> bool" where
  "snapshot_round_trips_non_finite_scores lib t \<longleftrightarrow>
     (let fo = lib_float lib;
          (added, s) = db_zadd fo (t 0) ''z'' [(f64_infinity, ''hi''), (f64_neg_infinity, ''lo'')] [];
          json = lib_to_json lib (db_snapshot (t 1) s)
      in isl added = False \<and>
         (case lib_from_json lib json of
            None \<Rightarrow> False
          | Some sn \<Rightarrow>
              (let s = db_load_snapshot fo (t 2) sn [];
                   (hi, s) = db_zscore (t 3) ''z'' ''hi'' s;
                   (lo, s) = db_zscore (t 4) ''z'' ''lo'' s
               in hi = Inr (Some f64_infinity) \<and> lo = Inr (Some f64_neg_infinity))))"

definition snapshot_round_trips_every_type :: "float_order \<Rightarrow> (nat \<Rightarrow> nat) \<Rightarrow> bool" where
  "snapshot_round_trips_every_type fo t \<longleftrightarrow>
     (let s = db_set (t 0) ''s'' ''v'' None [];
          (r1, s) = db_rpush (t 1) ''l'' [''a'', ''b''] s;
          (r2, s) = db_sadd (t 2) ''set'' [''x''] s;
          (r3, s) = db_zadd fo (t 3) ''z'' [(lit ''1.5'', ''m'')] s;
          (r4, s) = db_hset (t 4) ''h'' ''f'' ''1'' s;
          s = db_load_snapshot fo (t 6) (db_snapshot (t 5) s) [];
          (got, s) = db_get (t 7) ''s'' s;
          (items, s) = db_lrange (t 8) ''l'' 0 (- 1) s;
          (is_member, s) = db_sismember (t 9) ''set'' ''x'' s;
          (score, s) = db_zscore (t 10) ''z'' ''m'' s;
          (field, s) = db_hget (t 11) ''h'' ''f'' s
      in \<not> isl r1 \<and> \<not> isl r2 \<and> \<not> isl r3 \<and> \<not> isl r4 \<and>
         got = Inr (Some ''v'') \<and> items = Inr [''a'', ''b''] \<and> is_member = Inr True \<and>
         score = Inr (Some (lit ''1.5'')) \<and> field = Inr (Some ''1'') \<and> db_dbsize (t 12) s = 5)"

section \<open>They pass\<close>

lemma timeless_store_tests_pass:
  "set_get_and_delete t" "delete_works_across_every_type t" "wrong_type_is_reported t"
  "popping_the_last_element_removes_the_key t"
  by code_simp+

lemmas eviction = read_entry_def live_entry_def evict_def is_expired_def deadline_after_def

lemma deadline_store_tests_pass:
  assumes "test_clock t"
  shows "expired_keys_are_evicted_lazily t" "sweep_removes_only_expired_keys t"
proof -
  have "t 0 \<le> t 1" "t 1 \<le> t 2" "t 0 div nanos < 2 ^ 63" "t 1 div nanos < 2 ^ 63"
    using clock_facts(1) [OF assms, of 0 1] clock_facts(1) [OF assms, of 1 2]
      clock_facts(3) [OF assms, of 0] clock_facts(3) [OF assms, of 1] by simp_all
  then show "expired_keys_are_evicted_lazily t" "sweep_removes_only_expired_keys t"
    by (simp_all add: expired_keys_are_evicted_lazily_def sweep_removes_only_expired_keys_def eviction
        db_set_def db_get_def db_sweep_expired_def db_dbsize_def)
qed

lemma huge_ttl_test_passes:
  assumes "test_clock t"
  shows "huge_ttl_does_not_panic t"
proof -
  have far: "\<not> t 3 + 9223372036854775807 * nanos \<le> t i" for i
    using clock_facts(1) [OF assms, of 0 3] clock_facts(2) [OF assms, of i] by (simp add: nanos_def)
  have "unat (2 ^ 63 - 1 :: i64) = 9223372036854775807" "sint (2 ^ 63 - 1 :: i64) = 9223372036854775807"
    by simp_all
  with far show ?thesis
    by (simp add: huge_ttl_does_not_panic_def eviction db_set_def db_get_def db_ttl_def db_expire_def)
qed

lemma nan_test_passes:
  assumes "ordered_float fo"
  shows "zincrby_to_nan_is_rejected fo t"
proof -
  have "f64_add f64_infinity f64_neg_infinity = f64_nan"
    by (simp add: f64_add_def is_infinite_def f64_infinity_def f64_neg_infinity_def is_nan_def inf_mag_def)
  then show ?thesis
    by (simp add: zincrby_to_nan_is_rejected_def zset_ops db_zincrby_def db_zscore_def zs_zscore_def)
qed

lemma contains_intro: "contains p (a @ p @ b)"
proof (induction a)
  case Nil
  have "starts_with p (p @ b)" by (simp add: starts_with_def)
  then show ?case by (cases "p @ b") (auto simp: starts_with_def)
qed simp

lemma info_test_passes: "info_reports_clients_and_keys t"
proof -
  have one: "show_nat (Suc 0) = ''1''" by code_simp
  let ?info = "\<lambda>now. db_info now ((database_new (t 0))\<lparr>db_clients := 1,
    db_store := [(''k'', \<lparr>en_value = VStr ''v'', en_expires_at = None\<rparr>)]\<rparr>)"
  have "contains ''connected_clients:1'' (?info now)" "contains ''keys:1'' (?info now)"
    "contains ''uptime_in_seconds:'' (?info now)" for now
  proof -
    let ?head = "''# Server'' @ crlf @ ''server_name:redis_clone'' @ crlf"
      and ?up = "show_nat ((now - t 0) div nanos)"
    let ?clients = "?head @ ''uptime_in_seconds:'' @ ?up @ crlf @ crlf @ ''# Clients'' @ crlf"
    let ?keys = "crlf @ crlf @ ''# Keyspace'' @ crlf"
    have info: "?info now = ?clients @ ''connected_clients:1'' @ ?keys @ ''keys:1'' @ crlf"
      by (simp add: db_info_def database_new_def db_dbsize_def is_expired_def one)
    show "contains ''connected_clients:1'' (?info now)"
      unfolding info by (rule contains_intro)
    show "contains ''keys:1'' (?info now)"
      unfolding info using contains_intro [of "''keys:1''" "?clients @ ''connected_clients:1'' @ ?keys" crlf]
      by (simp only: append_assoc)
    show "contains ''uptime_in_seconds:'' (?info now)"
      unfolding info using contains_intro [of "''uptime_in_seconds:''" ?head]
      by (simp only: append_assoc)
  qed
  then show ?thesis
    by (simp add: info_reports_clients_and_keys_def client_connected_def client_disconnected_def db_set_def database_new_def)
qed

lemma snapshot_tests_pass:
  assumes "ordered_float (lib_float lib)" "\<And>sn. codec_reads lib sn"
  shows "snapshot_round_trips_non_finite_scores lib t"
    and "snapshot_round_trips_every_type (lib_float lib) t"
proof -
  have json: "lib_from_json lib (lib_to_json lib sn) = Some sn" for sn
    using assms(2) by (simp add: codec_reads_def)
  have cmp: "of_cmp (lib_float lib) f64_neg_infinity f64_infinity = Less"
    using cmp_mk_f64(1) [OF assms(1), of inf_mag inf_mag True False]
    by (simp add: f64_infinity_def f64_neg_infinity_def inf_mag_def cmp_of_def)
  have cmp': "of_cmp (lib_float lib) f64_infinity f64_neg_infinity = Greater"
    using cmp_mk_f64(1) [OF assms(1), of inf_mag inf_mag False True]
    by (simp add: f64_infinity_def f64_neg_infinity_def inf_mag_def cmp_of_def)
  have lit: "lit ''1.5'' = mk_f64 False 4609434218613702656" "\<not> is_nan (mk_f64 False 4609434218613702656)"
    by (simp_all add: lit_texts mk_f64_not_nan_small inf_mag_def)
  note ops = zset_ops db_zscore_def zs_zscore_def db_snapshot_def db_load_snapshot_def json
    zs_zrange_with_scores_def resolve_range_def score_of_text_print
  show "snapshot_round_trips_non_finite_scores lib t"
    by (simp add: snapshot_round_trips_non_finite_scores_def ops cmp cmp')
  show "snapshot_round_trips_every_type (lib_float lib) t"
    by (simp add: snapshot_round_trips_every_type_def ops lit db_set_def db_rpush_def db_sadd_def
        db_hset_def db_get_def db_lrange_def db_sismember_def db_hget_def db_dbsize_def
        list_or_create_def set_or_create_def hash_or_create_def rl_rpush_def rlist_new_def
        rset_new_def rhash_new_def rs_sadd_def rh_hset_def rl_lrange_def rs_smembers_def
        rh_hgetall_def rs_sismember_def rh_hget_def hs_simps)
qed

end
