(* ===== verification/Server_Tests.thy ===== *)
theory Server_Tests
  imports Command_Tests Startup
    "HOL-Library.Code_Target_Numeral"
begin

text \<open>
  The unit tests of \<open>src/src/server/mod.rs\<close>.  Those over TCP are scripts of clients that connect,
  send bytes and read lines; they run on the \<open>system\<close> of \<open>System\<close>, whose steps they are shown to
  take.  \<open>t i\<close> is the time of the i-th request.
\<close>

section \<open>Clients\<close>

definition accepts :: "system \<Rightarrow> system" where
  "accepts s =
     (let (n, db1) = client_connected (sys_db s);
          (ss, db2) = session_new (sys_seen s) db1
      in s\<lparr>sys_db := db2,
           sys_conns := (sys_conns s)(sys_seen s \<mapsto> \<lparr>cn_session = ss, cn_running = None, cn_out = []\<rparr>),
           sys_seen := sys_seen s + 1\<rparr>)"

text \<open>No client of a test disconnects.\<close>

definition client_env :: "nat \<Rightarrow> system \<Rightarrow> env" where
  "client_env now s = (sample_env now)\<lparr>ev_open_boxes := set [0..<sys_seen s]\<rparr>"

definition serves :: "libs \<Rightarrow> nat \<Rightarrow> nat \<Rightarrow> string list \<Rightarrow> system \<Rightarrow> system" where
  "serves lib now i tokens s =
     (case sys_conns s i of
        None \<Rightarrow> s
      | Some c \<Rightarrow>
          (let (r, ss, db) = handle lib (\<lambda>_. client_env now s) tokens (cn_session c) (sys_db s)
           in s\<lparr>sys_db := db,
                sys_conns := (sys_conns s)(i \<mapsto> c\<lparr>cn_session := ss, cn_out := cn_out c @ r\<rparr>)\<rparr>))"

text \<open>What a client has been sent: its replies, and then the messages pushed to it, since no client of a
  test makes a request after a message.\<close>

definition client_stream :: "system \<Rightarrow> nat \<Rightarrow> string" where
  "client_stream s i =
     (case sys_conns s i of None \<Rightarrow> [] | Some c \<Rightarrow> cn_out c) @
     concat (map snd (filter (\<lambda>(box, message). box = i) (db_delivered (sys_db s))))"

datatype client_action =
    Connects
  | Sends nat string
  | Reads nat "string \<Rightarrow> bool"

fun play ::
    "libs \<Rightarrow> (nat \<Rightarrow> nat) \<Rightarrow> client_action list \<Rightarrow> (nat \<Rightarrow> nat) \<Rightarrow> system \<Rightarrow> bool" where
  "play lib t [] pos s \<longleftrightarrow> True"
| "play lib t (Connects # rest) pos s \<longleftrightarrow> play lib t rest pos (accepts s)"
| "play lib t (Sends i bytes # rest) pos s \<longleftrightarrow>
     (case read_request bytes of
        Inr (Some (tokens, extra)) \<Rightarrow>
          extra = [] \<and> play lib (\<lambda>n. t (Suc n)) rest pos (serves lib (t 0) i tokens s)
      | _ \<Rightarrow> False)"
| "play lib t (Reads i check # rest) pos s \<longleftrightarrow>
     (case take_line (drop (pos i) (client_stream s i)) of
        (line, _) \<Rightarrow> line \<noteq> [] \<and> check line \<and> play lib t rest (pos(i := pos i + length line)) s)"

text \<open>\<open>start_server\<close>.\<close>

definition start_server :: "nat \<Rightarrow> system" where
  "start_server now = booted (database_new now)"

definition on_server :: "libs \<Rightarrow> (nat \<Rightarrow> nat) \<Rightarrow> client_action list \<Rightarrow> bool" where
  "on_server lib t actions \<longleftrightarrow> play lib t actions (\<lambda>_. 0) (start_server (t 0))"

definition sends_line :: "string \<Rightarrow> client_action" where
  "sends_line text = Sends 0 (text @ crlf)"

definition reads_line :: "string \<Rightarrow> client_action" where
  "reads_line text = Reads 0 (\<lambda>line. line = text @ crlf)"

section \<open>The tests\<close>

definition truncated_aof_replay_still_allows_future_writes_to_be_logged ::
    "libs \<Rightarrow> (nat \<Rightarrow> nat) \<Rightarrow> bool" where
  "truncated_aof_replay_still_allows_future_writes_to_be_logged lib t \<longleftrightarrow>
     (let bytes = crlf_lines [''*3'', ''$3'', ''SET'', ''$2'', ''k1'', ''$2'', ''v1'', ''*3'', ''$3'', ''SET'', ''$2'', ''k2'', ''$5''] @
            ''val'';
          (replayed, db) = replay_aof lib (\<lambda>i. sample_env (t (i + 1))) (Contents bytes)
            (with_persistence (t 0) None (Some bytes));
          (got, _) = db_get (t 3) ''k1'' (db_store db);
          logged = the (db_aof (log_write (sample_env (t 4)) [''SET'', ''k3'', ''v3''] db))
      in \<not> isl replayed \<and> got = Inr (Some ''v1'') \<and> contains ''k3'' logged)"

definition serves_inline_and_resp_requests_over_tcp :: "libs \<Rightarrow> (nat \<Rightarrow> nat) \<Rightarrow> bool" where
  "serves_inline_and_resp_requests_over_tcp lib t \<longleftrightarrow> on_server lib t
     [Connects, sends_line ''SET greeting hello'', reads_line ''+OK'',
      Sends 0 (crlf_lines [''*3'', ''$3'', ''SET'', ''$4'', ''note'', ''$11'', ''hello world'']),
      reads_line ''+OK'', sends_line ''GET note'', reads_line ''$11'', reads_line ''hello world'']"

definition multibulk_length_out_of_range_is_rejected :: bool where
  "multibulk_length_out_of_range_is_rejected \<longleftrightarrow> isl (read_request (''*99999999999999'' @ crlf))"

definition transaction_queues_and_execs :: "libs \<Rightarrow> (nat \<Rightarrow> nat) \<Rightarrow> bool" where
  "transaction_queues_and_execs lib t \<longleftrightarrow> on_server lib t
     [Connects, sends_line ''MULTI'', reads_line ''+OK'', sends_line ''SET k 1'', reads_line ''+QUEUED'',
      sends_line ''INCR k'', reads_line ''+QUEUED'', sends_line ''EXEC'',
      reads_line ''*2'', reads_line ''+OK'', reads_line '':2'']"

definition subscribe_inside_multi_aborts_the_transaction :: "libs \<Rightarrow> (nat \<Rightarrow> nat) \<Rightarrow> bool" where
  "subscribe_inside_multi_aborts_the_transaction lib t \<longleftrightarrow> on_server lib t
     [Connects, sends_line ''MULTI'', reads_line ''+OK'', sends_line ''SET a 1'', reads_line ''+QUEUED'',
      sends_line ''SUBSCRIBE ch'', Reads 0 (starts_with ''-ERR''),
      sends_line ''EXEC'', Reads 0 (starts_with ''-EXECABORT'')]"

definition multi_is_rejected_while_subscribed :: "libs \<Rightarrow> (nat \<Rightarrow> nat) \<Rightarrow> bool" where
  "multi_is_rejected_while_subscribed lib t \<longleftrightarrow> on_server lib t
     ([Connects, sends_line ''SUBSCRIBE ch'', reads_line ''*3''] @ replicate 5 (Reads 0 any_reply) @
      [sends_line ''MULTI'', Reads 0 (starts_with ''-ERR'')])"

definition exec_without_multi_is_an_error :: "libs \<Rightarrow> (nat \<Rightarrow> nat) \<Rightarrow> bool" where
  "exec_without_multi_is_an_error lib t \<longleftrightarrow> on_server lib t
     [Connects, sends_line ''EXEC'', Reads 0 (starts_with ''-ERR EXEC without MULTI'')]"

definition publish_reaches_a_subscriber :: "libs \<Rightarrow> (nat \<Rightarrow> nat) \<Rightarrow> bool" where
  "publish_reaches_a_subscriber lib t \<longleftrightarrow> on_server lib t
     ([Connects, sends_line ''SUBSCRIBE news''] @
      map reads_line [''*3'', ''$9'', ''subscribe'', ''$4'', ''news'', '':1''] @
      [Connects, Sends 1 (''PUBLISH news hello'' @ crlf), Reads 1 (\<lambda>line. line = '':1'' @ crlf)] @
      map reads_line [''*3'', ''$7'', ''message'', ''$4'', ''news'', ''$5'', ''hello''])"

section \<open>They pass\<close>

text \<open>With binary numbers in place of the unary \<open>nat\<close>, the limits of the framing can be evaluated.\<close>

lemma server_tests_pass:
  "truncated_aof_replay_still_allows_future_writes_to_be_logged lib t"
  "serves_inline_and_resp_requests_over_tcp lib t" "multibulk_length_out_of_range_is_rejected"
  "transaction_queues_and_execs lib t" "subscribe_inside_multi_aborts_the_transaction lib t"
  "multi_is_rejected_while_subscribed lib t" "exec_without_multi_is_an_error lib t"
  "publish_reaches_a_subscriber lib t"
  by code_simp+

section \<open>The clients' steps are the server's\<close>

text \<open>In a test every connection is open and between requests.\<close>

definition all_open :: "system \<Rightarrow> bool" where
  "all_open s \<longleftrightarrow> dom (sys_conns s) = set [0..<sys_seen s] \<and>
     (\<forall>i c. sys_conns s i = Some c \<longrightarrow> cn_running c = None)"

lemma accepts_step: "sys_step lib s (accepts s)"
proof -
  obtain n db1 where c: "client_connected (sys_db s) = (n, db1)" by fastforce
  obtain ss db2 where n: "session_new (sys_seen s) db1 = (ss, db2)" by fastforce
  from sys_step.connect [OF c n, of lib] show ?thesis by (simp add: accepts_def c n)
qed

lemma accepts_open: "all_open s \<Longrightarrow> all_open (accepts s)"
  by (auto simp: all_open_def accepts_def Let_def split: prod.splits if_splits)

lemma serves_steps:
  assumes "all_open s"
  shows "(sys_step lib)\<^sup>*\<^sup>* s (serves lib now i tokens s)"
proof (cases "sys_conns s i")
  case (Some c)
  obtain r ss db where h: "handle lib (\<lambda>_. client_env now s) tokens (cn_session c) (sys_db s) = (r, ss, db)"
    by (metis prod_cases3)
  have idle: "cn_running c = None" and boxes: "ev_open_boxes (client_env now s) = dom (sys_conns s)"
    using assms Some by (auto simp: all_open_def client_env_def)
  show ?thesis
  proof (cases "starts_exec (cn_session c) tokens")
    case None
    from sys_step.request [OF Some idle this boxes h] show ?thesis by (simp add: serves_def Some h)
  next
    case (Some cmds)
    from exec_steps_handle [OF \<open>sys_conns s i = Some c\<close> idle this boxes h] show ?thesis
      by (simp add: serves_def \<open>sys_conns s i = Some c\<close> h)
  qed
qed (simp add: serves_def)

lemma serves_open: "all_open s \<Longrightarrow> all_open (serves lib now i tokens s)"
  by (auto simp: all_open_def serves_def Let_def split: option.splits prod.splits if_splits)

lemma start_server_open: "all_open (start_server now)"
  by (simp add: all_open_def start_server_def booted_def)

text \<open>A test that plays to its end has taken the server from its start through steps of \<open>sys_step\<close>: \<open>played\<close>
  is the system it leaves.\<close>

fun played :: "libs \<Rightarrow> (nat \<Rightarrow> nat) \<Rightarrow> client_action list \<Rightarrow> system \<Rightarrow> system" where
  "played lib t [] s = s"
| "played lib t (Connects # rest) s = played lib t rest (accepts s)"
| "played lib t (Sends i bytes # rest) s =
     (case read_request bytes of
        Inr (Some (tokens, _)) \<Rightarrow> played lib (\<lambda>n. t (Suc n)) rest (serves lib (t 0) i tokens s)
      | _ \<Rightarrow> s)"
| "played lib t (Reads i check # rest) s = played lib t rest s"

lemma played_steps: "all_open s \<Longrightarrow> (sys_step lib)\<^sup>*\<^sup>* s (played lib t actions s)"
proof (induction lib t actions s rule: played.induct)
  case (2 lib t rest s)
  with accepts_open [OF 2(2)] accepts_step [of lib s] show ?case
    by (simp add: converse_rtranclp_into_rtranclp)
next
  case (3 lib t i bytes rest s)
  show ?case
  proof (cases "\<exists>tokens extra. read_request bytes = Inr (Some (tokens, extra))")
    case True
    then obtain tokens extra where read: "read_request bytes = Inr (Some (tokens, extra))" by blast
    from 3(1) [OF read refl refl serves_open [OF 3(2)]] serves_steps [OF 3(2), of lib "t 0" i tokens]
    show ?thesis by (simp add: read)
  qed (auto split: sum.splits option.splits)
qed simp_all

end
