(* ===== verification/Spec2Isabelle.thy ===== *)
theory Spec2Isabelle
  imports Server_Properties Log_Limits Inline Startup Codec Crash Conflict_Free Ttl_Lifetimes
    Save_File Log_Lifetimes Run Store_Tests Server_Tests
begin

text \<open>
  A verification development for the Redis clone under \<open>src/src/\<close>: a server that keeps strings,
  lists, sets, sorted sets and hashes under keys with deadlines, speaks RESP2 over TCP, and
  persists to a JSON snapshot or an append-only log.

  \<^bold>\<open>The program and its model.\<close>  A request travels through the program as follows, and the
  theories follow it; each is named after what it models.
  \<^item> A connection (\<open>handle_connection\<close>, \<open>server/mod.rs\<close>) has a reader task that frames requests
    (\<open>read_request\<close>, \<open>read_multibulk\<close>, \<open>read_bulk_string\<close>) and hands them to the main loop
    through a channel; the main loop interleaves them with the pub/sub messages of its mailbox.
    \<open>Server\<close> has the framing, \<open>Connection\<close> the two tasks as the step relation \<open>conn_step\<close>.
  \<^item> The session (\<open>session.rs\<close>, theory \<open>Session\<close>) keeps the transaction queue and the set of
    subscriptions: \<open>handle\<close> with MULTI, EXEC, DISCARD, SUBSCRIBE and UNSUBSCRIBE.
  \<^item> The parser (\<open>command/mod.rs\<close>, theory \<open>Command\<close>) turns tokens into the datatype \<open>command\<close>;
    \<open>Execute\<close> has \<open>execute\<close>, arm by arm, and \<open>dispatch\<close> with the logging of successful writes.
  \<^item> The store (\<open>database/db.rs\<close>) is a map of entries.  \<open>Db_Base\<close> has deadlines, lazy eviction
    and the typed accessors, \<open>Db_Ops\<close> the operation of each command and the sweeper, \<open>Glob\<close> the
    matcher of KEYS, \<open>Data_Structure\<close> the value types of \<open>database/data_structure.rs\<close>.
  \<^item> The handle (\<open>Database\<close>) adds the counters, the log and its replay flag, and the registry of
    \<open>database/pubsub.rs\<close> (\<open>Pubsub\<close>).  \<open>Snapshot\<close> has \<open>database/snapshot.rs\<close> with both
    conversions, \<open>Crash\<close> the file handle of \<open>database/aof.rs\<close> with its fsync policies.
  \<^item> \<open>Server\<close> also has the configuration (\<open>config.rs\<close>), \<open>init_persistence\<close> and \<open>replay_aof\<close>;
    \<open>Lifecycle\<close> the shutdown, \<open>Startup\<close> the sequence of a server's lifetimes; \<open>System\<close> the whole
    server as the step relation \<open>sys_step\<close>, whose steps are connections' requests, single commands
    of a running EXEC, the sweeper, background saves, connects and disconnects.  \<open>Run\<close> puts
    \<open>main\<close> and \<open>run\<close> around it as \<open>run_step\<close>: the accept loop, the flusher, Ctrl+C, and the last
    snapshot and sync, during which connections are still served.
  \<^item> \<open>Save_File\<close> has \<open>Database::save_to\<close> step by step: taking the snapshot, the temporary name,
    the write, the rename, for any number of saves at once.
  \<^item> \<open>Resp\<close> has the reply encoders of \<open>resp.rs\<close>, with a RESP2 client as their specification.
  \<^item> \<open>Prelude\<close>, \<open>F64\<close> and \<open>Collections\<close> have what the code uses of Rust's standard library: bytes
    and text of integers, IEEE binary64 with its shortest decimal text, hash maps, sets, ordered
    trees.

  \<^bold>\<open>Conventions.\<close>  A Rust \<open>String\<close> is the list of its bytes.  An \<open>i64\<close> is a 64-bit word read with
  \<open>sint\<close>, and checked arithmetic is written out.  Operations take the store and return it; an
  operation reads the clock once, as its argument \<open>now\<close> in nanoseconds, because it runs under one
  lock and the calls to \<open>Instant::now\<close> inside it cannot be told apart by a client.  The record
  \<open>env\<close> holds what one request finds in its environment: the time, the
  failures of file operations, the receivers still open.  A \<open>HashMap\<close> is an association list
  with distinct keys; the properties that depend on the order of its iteration are stated up to
  that order.  The record \<open>libs\<close> holds the code that is not under \<open>src/\<close>: the comparison of
  the crate \<open>ordered_float\<close>, with its documented laws in the locale \<open>ordered_float\<close>, and the
  JSON text of \<open>serde_json\<close>, of which only \<open>codec_reads\<close> is ever assumed, that a text is read
  back as what was written (\<open>Codec\<close> has a concrete codec with that law).

  \<^bold>\<open>What is proved.\<close>
  \<^item> Representation (\<open>Collections\<close>, \<open>Data_Structure\<close>, \<open>Collection_Facts\<close>, \<open>Store_Inv\<close>): the two
    indexes of a sorted set stay in step, no empty collection is kept, and every request
    preserves this; ranks, ranges and index arithmetic are exact and do not overflow.
  \<^item> Abstract specification (\<open>Effect\<close>): \<open>effect\<close> says in one equation per command what it does to
    the map of live keys, and every request refines it.  \<open>Observe\<close> shows that replies are
    functions of the live keys only, so that eviction cannot be noticed; \<open>Key_Facts\<close> what a client
    sees over several operations.
  \<^item> Requests (\<open>Framing\<close>, \<open>Inline\<close>, \<open>Dispatch\<close>): framing round trips and its errors, the bytes of
    the log, errors that change nothing.  \<open>Log_Entries\<close> says which entries a request must add to
    the log by its tokens and its reply alone, from a list of the command names that write.
  \<^item> Patterns (\<open>Glob\<close>): the iterative matcher accepts what a pattern denotes, with the characters
    of a class given by the class grammar (\<open>class_denotes\<close>) and not by the code's loop.
  \<^item> Connections (\<open>Session_Facts\<close>, \<open>Connection\<close>, \<open>System\<close>): the modes exclude each other,
    transactions touch nothing before EXEC, replies are whole frames in the order of the
    requests (a write that fails may send a part of one, and then nothing follows), an EXEC comes
    to its end under a fair scheduler, and all reachable states of the server are consistent; \<open>Startup\<close> extends this to
    any sequence of lifetimes, since every start on what the server left on the disk is sound.
  \<^item> Durability (\<open>Recovery\<close>, \<open>Crash\<close>, \<open>Snapshot_Facts\<close>, \<open>Lifecycle\<close>): a restart rebuilds the
    keyspace from the log or the snapshot, and after a power loss replay runs a prefix of the log.
    \<open>Log_Limits\<close>, \<open>Inline\<close> and \<open>Lifecycle\<close> also prove where the code falls short of that: an entry
    appended behind a torn one, a deadline re-based by replay or by a snapshot, an inline request
    too large for its own log entry.
    \<open>Ttl_Recovery\<close> and \<open>Ttl_Lifetimes\<close> show what restarts from the log keep when there are
    deadlines, through whole lifetimes of the server; \<open>Log_Lifetimes\<close> that without deadlines
    they restore the keyspace exactly; \<open>Save_File\<close> that overlapping saves and a crash never
    leave a broken snapshot file but may leave an old one; and \<open>Run\<close> that a shutdown always
    ends, but in snapshot mode loses what it acknowledges after its last snapshot.
    \<open>Append_Order\<close> interleaves the two phases of \<open>dispatch\<close>, effect and append, of concurrent
    connections: no answered write whose append was written whole is missing from the log, but the
    log may have another order, which \<open>Conflict_Free\<close> shows to be harmless for writes without
    deadlines unless two that share a key are in flight together.  An append that fails is only
    reported to the operator and the client is still answered OK, as in the code; therefore the
    durability properties assume appends that are written whole where they say so.
  \<^item> The unit tests of the repository (\<open>Unit_Tests\<close>, \<open>Command_Tests\<close>, \<open>Store_Tests\<close>,
    \<open>Server_Tests\<close>), each a definition of the test's name that runs the test's calls on the model
    and checks what it asserts.  They pass on the model at all times, those about deadlines whenever
    they take less than a second (\<open>test_clock\<close>), those with scores for every comparison with the
    laws of \<open>ordered_float\<close>; \<open>Small_Scores\<close> has the arithmetic and the texts of their scores.  The
    tests over TCP are scripts of clients on the \<open>system\<close> of \<open>System\<close>; they take its steps
    (\<open>played_steps\<close>).
  The properties are in \<open>Store_Properties\<close>, \<open>Request_Properties\<close>, \<open>Server_Properties\<close> and here,
  a few beside the component they are about; each is numbered.  A lemma whose name ends in
  \<open>_witness\<close> applies one of them to a concrete input.

  \<^bold>\<open>Bounds.\<close>  The search for the shortest decimal text of a score has fuel 2000: a finite f64 has at
  most 1074 binary digits behind the point and its exponent spans less than 370 decimal places, so
  an exact text, which stops the search, is met before that.  The RESP2 client decodes three
  levels, as replies nest at most twice (EXEC's array of array replies).  The loops over
  input recurse on the bytes left, and replay is shown to end within the length of the file.
  Hypotheses such as \<open>length l < 2 ^ 63\<close>, \<open>sizes_ok\<close> and \<open>within_limits\<close> bound a collection by what
  fits in memory and a counter by its width.

  \<^bold>\<open>Not modelled.\<close>  Sockets and the signal itself (when they act is open in \<open>Run\<close>), the tracing
  subscriber, flag and environment parsing (the crate clap), and the JSON text, a parameter.
  Syncing the log does not change its contents, so the tests that read it back leave the sync out.
  Writes to the log and to a socket take effect when the call returns, so the write-behind buffer
  of tokio's files is not modelled.  Snapshot files survive a crash of the process as they were
  written; what a power loss makes of a file that was never synced is not modelled.
  A snapshot file that cannot be read, other than for being absent, has the outcome of one whose
  text does not parse, and is not a case of its own.  \<open>with_extension\<close> is that of paths that end in a plain name.  \<open>System\<close>, \<open>Recovery\<close>, \<open>Log_Lifetimes\<close> and \<open>Ttl_Lifetimes\<close>
  take a write's effect and its append as one step; \<open>Append_Order\<close> takes them apart.  In \<open>System\<close> a
  background save runs as one step at some later time, as SAVE does; \<open>Save_File\<close> takes saves apart.

  In the tests, the names and the removal of scratch files and the ephemeral port are not modelled;
  a client of \<open>Server_Tests\<close> reads its replies before the messages pushed to it, which is their
  order there, since no client makes a request after a message.

  \<^bold>\<open>Plan.\<close>  What could be added: the saves of \<open>System\<close> as the steps of \<open>Save_File\<close>.
\<close>

section \<open>Durability\<close>

text \<open>C4: take any run of appends and flushes, on a fresh log or one of whole entries, whose entries are
  requests within the protocol limits and whose appends are written whole.  After a power loss,
  whatever part of the file beyond the last sync survives, replay runs exactly the first entries,
  in order and without a gap, and at least those up to any successful sync: a flush, or under the
  policy \<open>always\<close> an append.\<close>

theorem power_loss_recovers_a_prefix:
  assumes "log_ok (old @ appended ops)" "written_whole ops"
    and "survives (snd (aof_run ops (aof_open policy (Some (log_bytes old))))) p"
  shows "\<exists>n \<le> length (old @ appended ops).
           replay_loop lib evs 0 p db = (n, run_log lib evs 0 (take n (old @ appended ops)) db) \<and>
           (\<forall>before op after. ops = before @ op # after \<and> syncs policy op \<longrightarrow>
              length (old @ appended (before @ [op])) \<le> n)"
proof -
  let ?f = "snd (aof_run ops (aof_open policy (Some (log_bytes old))))" and ?log = "old @ appended ops"
  obtain q where q: "p @ q = log_bytes ?log" and len: "af_synced ?f \<le> length p"
    using assms(3) run_bytes [OF assms(2), of "aof_open policy (Some (log_bytes old))"]
    by (auto simp: survives_def aof_open_def)
  obtain n where n: "n \<le> length ?log" "replay_loop lib evs 0 p db = (n, run_log lib evs 0 (take n ?log) db)"
    "\<And>m. m \<le> length ?log \<Longrightarrow> length (log_bytes (take m ?log)) \<le> length p \<Longrightarrow> m \<le> n"
    using replay_prefix [OF assms(1) q, of lib evs db] by blast
  have "length (old @ appended (before @ [op])) \<le> n" if "ops = before @ op # after" "syncs policy op"
    for before op after
  proof (rule n(3))
    have log: "?log = (old @ appended (before @ [op])) @ appended after"
      using appended_append [of "before @ [op]" after] that(1) by simp
    then show "length (old @ appended (before @ [op])) \<le> length ?log" by simp
    show "length (log_bytes (take (length (old @ appended (before @ [op]))) ?log)) \<le> length p"
      using synced_op [of before op after policy old] assms(2) that len
      unfolding log by (simp del: appended_append)
  qed
  with n(1,2) show ?thesis by blast
qed

lemma power_loss_recovers_a_prefix_witness:
  "\<exists>n \<ge> 1. fst (replay_loop sample_libs sample_env 0
     (resp_array [''SET'', ''k1'', ''v1''] @ take 2 (resp_array [''SET'', ''k1'', ''v1''])) sample_database) = n"
proof -
  let ?set = "[''SET'', ''k1'', ''v1'']"
  let ?a = "\<lambda>ok. Append (sample_env 0) ok ?set"
  let ?p = "resp_array ?set @ take 2 (resp_array ?set)" and ?ops = "[?a True, ?a False]"
  have "log_ok ([] @ appended ?ops)" "written_whole ?ops"
    using first_set_ok by (simp_all add: sample_env_def)
  moreover have "survives (snd (aof_run ?ops (aof_open FsyncAlways (Some (log_bytes []))))) ?p"
    by (auto simp: survives_def aof_open_def aof_file_append_def aof_sync_def sample_env_def Let_def
        intro: exI [of _ "drop 2 (resp_array ?set)"])
  moreover have "?ops = [] @ ?a True # [?a False]" "syncs FsyncAlways (?a True)" by simp_all
  ultimately obtain n where "length ([] @ appended ([] @ [?a True])) \<le> n"
    "replay_loop sample_libs sample_env 0 ?p sample_database =
       (n, run_log sample_libs sample_env 0 (take n ([] @ appended ?ops)) sample_database)"
    using power_loss_recovers_a_prefix [of "[]" ?ops FsyncAlways ?p sample_libs sample_env sample_database]
    by blast
  then show ?thesis by simp
qed



text \<open>The samples with a codec in place of the JSON text.\<close>

definition sample_codec :: libs where
  "sample_codec = sample_libs\<lparr>lib_to_json := text_of_snapshot, lib_from_json := snapshot_of_text\<rparr>"

lemma sample_codec_reads: "codec_reads sample_codec sn"
  by (simp add: codec_reads_def sample_codec_def)

text \<open>C16: in snapshot mode a clean shutdown and a start lose nothing but the part of a second of a
  deadline: the keys are the same, with the same values, and the time each key has left is rounded
  down to seconds and counted again from the start.  The last snapshot is saved without an error and
  its JSON text reads back as what was written.\<close>

theorem clean_restart_keeps_the_keyspace:
  assumes "ordered_float (lib_float lib)" "store_inv (lib_float lib) (db_store db)"
    and "sizes_ok (db_store db)" "db_snapshot_path db = Some path" "ev_save_error ev = None"
    and "codec_reads lib (db_snapshot (ev_now ev) (db_store db))"
    and "dk_snapshot dk = db_snapshot_file (server_shutdown lib ev db)" "\<not> cf_appendonly cf"
  shows "\<exists>db'. init_persistence lib evs cf dk = Inr (db', None) \<and>
           (\<forall>k. rel_option (restarted (ev_now ev) (ev_now (evs 0)))
              (live (ev_now ev) (db_store db) k) (hm_get (db_store db') k))"
  using clean_restart [OF assms, of evs] by metis

lemma clean_restart_keeps_the_keyspace_witness:
  "\<exists>db'. init_persistence sample_codec sample_env default_config
       (good_disk (Some (text_of_snapshot (db_snapshot 2 sample_store))) None) = Inr (db', None) \<and>
     rel_option (restarted 2 0) (live 2 sample_store ''a'') (hm_get (db_store db') ''a'')"
proof -
  let ?db = "sample_database\<lparr>db_snapshot_path := Some ''dump''\<rparr>"
  let ?dk = "good_disk (Some (text_of_snapshot (db_snapshot 2 sample_store))) None"
  have lib: "lib_float sample_codec = documented_order" "lib_to_json sample_codec = text_of_snapshot"
    by (simp_all add: sample_codec_def sample_libs_def)
  have "sizes_ok sample_store" by (simp add: sizes_ok_def sample_store_def sample_zset_members)
  then have "\<exists>db'. init_persistence sample_codec sample_env default_config ?dk = Inr (db', None) \<and>
      (\<forall>k. rel_option (restarted (ev_now (sample_env 2)) (ev_now (sample_env 0)))
        (live (ev_now (sample_env 2)) (db_store ?db) k) (hm_get (db_store db') k))"
    by (intro clean_restart_keeps_the_keyspace [where path = "''dump''"])
      (simp_all add: lib documented.ordered_float_axioms sample_facts sample_codec_reads
        server_shutdown_def db_save_def default_config_def sample_env_def)
  then show ?thesis by (auto simp: sample_env_def sample_facts)
qed

text \<open>C17: a crash while snapshots are being saved never leaves a broken or mixed snapshot file.  However
  many saves overlap, however they interleave with each other and with requests, whichever of them
  fail, and wherever the crash cuts a write: unless no save got as far as its rename, a start finds
  the keyspace as it was when one of the saves took its snapshot.\<close>

theorem crash_during_saves_leaves_a_whole_snapshot:
  assumes "ordered_float (lib_float lib)" "\<And>sn. codec_reads lib sn" "\<not> cf_appendonly cf"
    and "save_start lib s0" "(save_step lib pid path)\<^sup>*\<^sup>* s0 s" "sv_named s < 2 ^ 64"
    and "sv_files s path \<noteq> sv_files s0 path" "dk_snapshot dk = sv_files s path"
  shows "\<exists>now st db. (now, st) \<in> set (sv_taken s) \<and> init_persistence lib evs cf dk = Inr (db, None) \<and>
           (\<forall>k. rel_option (restarted now (ev_now (evs 0))) (live now st k) (hm_get (db_store db) k))"
  by (rule start_on_saved [OF assms])

text \<open>One save goes through, a second one is cut off while it writes its temporary file.\<close>

lemma crash_during_saves_leaves_a_whole_snapshot_witness:
  "\<exists>s db. (save_step sample_codec 7 ''dump.json'')\<^sup>*\<^sup>* (new_saver one_key Map.empty) s \<and>
     sv_tasks s \<noteq> Map.empty \<and>
     init_persistence sample_codec sample_env default_config (good_disk (sv_files s ''dump.json'') None) =
       Inr (db, None) \<and> hm_get (db_store db) ''k1'' \<noteq> None"
proof -
  let ?step = "save_step sample_codec 7 ''dump.json''" and ?s0 = "new_saver one_key Map.empty"
  let ?text = "snapshot_text sample_codec 0 one_key"
  have "sv_tasks ?s0 1 = None" by (simp add: new_saver_def)
  from save_alone [OF this, of sample_codec 7 "''dump.json''" 0] obtain s1 where
    s1: "?step\<^sup>*\<^sup>* ?s0 s1" "sv_tasks s1 = Map.empty" "sv_taken s1 = [(0, one_key)]" "sv_named s1 = 1"
      "sv_files s1 ''dump.json'' = Some ?text" "sv_store s1 = one_key"
    by (auto simp: new_saver_def)
  let ?s2 = "s1\<lparr>sv_tasks := (sv_tasks s1)(2 \<mapsto> Taken (snapshot_text sample_codec 1 (sv_store s1))),
    sv_taken := sv_taken s1 @ [(1, sv_store s1)]\<rparr>"
  let ?temp = "temp_name 7 (sv_counter ?s2) ''dump.json''"
  let ?s3 = "?s2\<lparr>sv_tasks := (sv_tasks ?s2)(2 \<mapsto> Named (snapshot_text sample_codec 1 (sv_store s1)) ?temp),
    sv_counter := (sv_counter ?s2 + 1) mod 2 ^ 64, sv_named := sv_named ?s2 + 1\<rparr>"
  let ?s4 = "?s3\<lparr>sv_files := (sv_files ?s3)(?temp \<mapsto> List.take 3 (snapshot_text sample_codec 1 (sv_store s1)))\<rparr>"
  have "?step s1 ?s2" by (rule save_step.take) (simp add: s1(2))
  moreover have "?step ?s2 ?s3" by (rule save_step.name) simp
  moreover have "?step ?s3 ?s4" by (rule save_step.write_some [where i = 2]) simp
  ultimately have run: "?step\<^sup>*\<^sup>* ?s0 ?s4" using s1(1) by (meson rtranclp.rtrancl_into_rtrancl)
  have path: "sv_files ?s4 ''dump.json'' = Some ?text" using s1(5) temp_name_new [of 7 "sv_counter s1" "''dump.json''"] by auto
  have lib: "ordered_float (lib_float sample_codec)" by (simp add: sample_codec_def sample_facts(1))
  have start: "save_start sample_codec ?s0" by (simp add: save_start_def new_saver_def one_key_ok)
  have named: "sv_named ?s4 < 2 ^ 64" by (simp add: s1(4))
  have changed: "sv_files ?s4 ''dump.json'' \<noteq> sv_files ?s0 ''dump.json''" by (simp only: path) (simp add: new_saver_def)
  have off: "\<not> cf_appendonly default_config" by (simp add: default_config_def)
  from crash_during_saves_leaves_a_whole_snapshot [OF lib sample_codec_reads off start run named changed,
      of "good_disk (sv_files ?s4 ''dump.json'') None" sample_env]
  obtain now st db where db: "(now, st) \<in> set (sv_taken ?s4)"
    "init_persistence sample_codec sample_env default_config (good_disk (sv_files ?s4 ''dump.json'') None) =
       Inr (db, None)"
    "rel_option (restarted now (ev_now (sample_env 0))) (live now st ''k1'') (hm_get (db_store db) ''k1'')"
    by (auto simp del: fun_upd_apply)
  have "st = one_key" using db(1) s1 by auto
  then have "live now st ''k1'' \<noteq> None" by (simp add: live_def one_key_def is_expired_def)
  then have "hm_get (db_store db) ''k1'' \<noteq> None" using db(3) by (auto simp: option.rel_sel)
  moreover have "sv_tasks ?s4 \<noteq> Map.empty" by simp
  ultimately show ?thesis using run db(2) by blast
qed

section \<open>The server over its lifetimes\<close>

text \<open>C8: in every state of a server, whatever its clients do, however the steps of their connections
  interleave, and however often it was shut down or crashed and started again on what it had left
  on the disk: the store keeps its invariant, the client counter is the number of open
  connections, every session keeps its invariant, and the registry holds exactly the subscriptions
  of the open connections.\<close>

theorem every_served_state_is_consistent:
  assumes "ordered_float (lib_float lib)" "\<And>sn. codec_reads lib sn" "served lib cf s"
  shows "store_inv (lib_float lib) (db_store (sys_db s)) \<and>
         db_clients (sys_db s) = card (dom (sys_conns s)) \<and>
         (\<forall>i c. sys_conns s i = Some c \<longrightarrow> session_inv (cn_session c) \<and> ss_mailbox (cn_session c) = i) \<and>
         (\<forall>ch i. subscribed (db_pubsub (sys_db s)) ch i = registered s ch i)"
  using served_sound [OF assms] by (auto simp: sys_inv_def conn_inv_def)

text \<open>A server that was started on an empty disk, shut down, and started again.\<close>

lemma sample_lifetimes:
  obtains s where "served sample_codec default_config s" "db_snapshot_file (sys_db s) \<noteq> None"
proof -
  have off: "\<not> cf_appendonly default_config" by (simp add: default_config_def)
  obtain db where db: "init_persistence sample_codec sample_env default_config (good_disk None None) =
      Inr (db, None)" "db_store db = []" "db_snapshot_path db \<noteq> None"
    using off by (auto simp: init_persistence_def db_load_from_def with_persistence_def database_new_def Let_def)
  then have first: "served sample_codec default_config (booted db)"
    by (intro served.first) (simp_all add: within_limits_def booted_def sizes_ok_def)
  define left where "left = server_shutdown sample_codec (sample_env 1) (sys_db (booted db))"
  let ?sn = "db_snapshot (ev_now (sample_env 1)) []"
  have on_disk: "db_snapshot_file left = Some (lib_to_json sample_codec ?sn)"
    using db(2,3) by (auto simp: left_def booted_def server_shutdown_def db_save_def sample_env_def)
  obtain db' where db': "init_persistence sample_codec sample_env default_config
      (good_disk (db_snapshot_file left) None) = Inr (db', None)"
    "db_store db' = db_load_snapshot (lib_float sample_codec) (ev_now (sample_env 0)) ?sn []"
    using init_snapshot [OF off, of "good_disk (db_snapshot_file left) None" _ sample_codec ?sn] on_disk
      sample_codec_reads [of ?sn]
    by (auto simp: codec_reads_def)
  have "db_store db' = []" by (simp add: db'(2) db_load_snapshot_def db_snapshot_def)
  then have "served sample_codec default_config (booted db')"
    by (intro served.again [OF first _ _ db'(1), of left])
      (auto simp: ended_def left_def within_limits_def booted_def sizes_ok_def)
  moreover have "db_snapshot_file (sys_db (booted db')) \<noteq> None"
    using init_file [OF db'(1) off] on_disk by (simp add: booted_def)
  ultimately show thesis using that by blast
qed

lemma every_served_state_is_consistent_witness:
  "\<exists>s. served sample_codec default_config s \<and> db_snapshot_file (sys_db s) \<noteq> None \<and>
     db_clients (sys_db s) = card (dom (sys_conns s))"
proof -
  obtain s where s: "served sample_codec default_config s" "db_snapshot_file (sys_db s) \<noteq> None"
    by (rule sample_lifetimes)
  have "ordered_float (lib_float sample_codec)" by (simp add: sample_codec_def sample_facts(1))
  from every_served_state_is_consistent [OF this sample_codec_reads s(1)] s show ?thesis by blast
qed

section \<open>The repository's tests\<close>

text \<open>C27: every unit test of the repository passes on the model, at whatever times its requests
  run, as long as the clock does not go back and a test takes less than a second, for every
  comparison of scores with the documented laws and every JSON text that is read back as it was
  written.\<close>

theorem repository_tests_pass:
  assumes "ordered_float (lib_float lib)" "\<And>sn. codec_reads lib sn" "test_clock t"
  shows "(\<forall>test \<in> {set_and_get_roundtrip, command_names_are_case_insensitive,
     del_returns_an_integer_reply, lrange_uses_redis_argument_order, hash_set_get_and_incr,
     variadic_commands_count_correctly, string_number_and_length_commands,
     mget_mset_setnx_getset, list_index_and_set_operations,
     sorted_set_rank_incr_and_withscores, spop_removes_and_returns_a_member,
     nan_scores_are_rejected, generic_key_commands, expire_ttl_and_persist,
     keys_matches_glob_patterns, wrong_type_produces_an_error_reply,
     malformed_input_never_panics, spop_is_logged_to_the_aof_as_a_deterministic_srem,
     truncated_aof_replay_still_allows_future_writes_to_be_logged,
     serves_inline_and_resp_requests_over_tcp, transaction_queues_and_execs,
     subscribe_inside_multi_aborts_the_transaction, multi_is_rejected_while_subscribed,
     exec_without_multi_is_an_error, publish_reaches_a_subscriber,
     snapshot_round_trips_non_finite_scores}. test lib t) \<and>
   (\<forall>test \<in> {set_get_and_delete, delete_works_across_every_type, wrong_type_is_reported,
     expired_keys_are_evicted_lazily, huge_ttl_does_not_panic, sweep_removes_only_expired_keys,
     info_reports_clients_and_keys, popping_the_last_element_removes_the_key}. test t) \<and>
   (\<forall>test \<in> {zincrby_to_nan_is_rejected, snapshot_round_trips_every_type}. test (lib_float lib) t) \<and>
   sorted_set_orders_by_score_and_counts_only_new_members (lib_float lib) \<and>
   (\<forall>test \<in> {error_sanitizes_embedded_crlf, encodes_scalar_replies, encodes_arrays,
     encodes_nullable_arrays, list_range_handles_negative_and_out_of_bounds,
     set_add_remove_and_membership, hash_set_get_and_remove, command_error_messages_match_redis,
     multibulk_length_out_of_range_is_rejected}. test)"
  using command_tests_pass [OF assms(1,3)] sorted_set_test_passes [OF assms(1)]
    deadline_store_tests_pass [OF assms(3)] snapshot_tests_pass [OF assms(1,2)]
  by (simp add: server_tests_pass timeless_store_tests_pass huge_ttl_test_passes [OF assms(3)]
      nan_test_passes [OF assms(1)] info_test_passes encoder_tests_pass value_tests_pass
      command_error_messages_match_redis_passes)

text \<open>With a concrete codec, and a request every millisecond.\<close>

lemma repository_tests_pass_witness:
  "expire_ttl_and_persist sample_codec (\<lambda>i. min i 999 * 1000000) \<and>
   snapshot_round_trips_non_finite_scores sample_codec (\<lambda>i. min i 999 * 1000000) \<and>
   publish_reaches_a_subscriber sample_codec (\<lambda>i. min i 999 * 1000000)"
proof -
  have "test_clock (\<lambda>i. min i 999 * 1000000)"
    by (auto simp: test_clock_def mono_def nanos_def min_def)
  moreover have "ordered_float (lib_float sample_codec)" by (simp add: sample_codec_def sample_facts(1))
  ultimately show ?thesis using repository_tests_pass [of sample_codec, OF _ sample_codec_reads] by simp
qed

end
